(* ===== verification/Xv6_Prelude.thy ===== *)
theory Xv6_Prelude
  imports Main "HOL-Library.Word" "HOL-Library.While_Combinator"
begin

text \<open>
  Shared vocabulary of the development: the C integer types of \<^verbatim>\<open>kernel/types.h\<close> as machine
  words, the ways kernel code can fail to return, sequencing of fallible steps, and the byte-addressed
  physical memory with its little-endian loads and stores.  Every component theory builds on
  the collections and lemmas declared here.
\<close>

unbundle bit_operations_syntax

named_theorems mem_frame \<open>reads that a write elsewhere leaves alone\<close>
named_theorems res_simps \<open>rewriting of sequenced fallible steps\<close>

section \<open>The C integer types\<close>

type_synonym uint8 = "8 word"
type_synonym uint16 = "16 word"
type_synonym uint32 = "32 word"
type_synonym uint64 = "64 word"
type_synonym uchar = uint8
type_synonym ushort = uint16
type_synonym uint = uint32
type_synonym addr = uint64
type_synonym memory = "addr \<Rightarrow> uint8"

text \<open>A C \<^verbatim>\<open>int\<close> is 32 bits wide: assigning a wider unsigned value to it keeps the low 32 bits
  and reads them as two's complement; assigning it to \<^verbatim>\<open>uint64\<close> sign-extends.\<close>

definition int_of_u64 :: "uint64 \<Rightarrow> int" where
  "int_of_u64 w = sint (ucast w :: uint32)"

definition int_of_u32 :: "uint32 \<Rightarrow> int" where
  "int_of_u32 w = sint w"

definition u64_of_int :: "int \<Rightarrow> uint64" where
  "u64_of_int i = word_of_int i"

definition u32_of_int :: "int \<Rightarrow> uint32" where
  "u32_of_int i = word_of_int i"

lemma int_of_u32_nat: "n < 2 ^ 31 \<Longrightarrow> int_of_u32 (of_nat n) = int n"
  using signed_take_bit_int_eq_self[of 31 "int n"]
  by (simp add: int_of_u32_def sint_uint unsigned_of_nat take_bit_nat_eq_self)

lemma u32_of_int_nat [simp]: "u32_of_int (int n) = of_nat n"
  by (simp add: u32_of_int_def)

section \<open>Faults and sequencing\<close>

text \<open>
  The ways a kernel function can fail to return to its caller: \<open>Panic\<close> prints the message and spins
  (\<^verbatim>\<open>kernel/utils.h\<close>), \<open>Hang\<close> waits for something that never happens, \<open>BadJump\<close> calls a
  null function pointer, \<open>OutOfBounds\<close> follows a null pointer or indexes an array outside its extent.
\<close>

datatype fault = Panic string | Hang | BadJump | OutOfBounds

type_synonym 'a res = "fault + 'a"

definition bnd :: "'a res \<Rightarrow> ('a \<Rightarrow> 'b res) \<Rightarrow> 'b res" where
  "bnd m f = (case m of Inl e \<Rightarrow> Inl e | Inr x \<Rightarrow> f x)"

lemma bnd_simps [simp, res_simps]:
  "bnd (Inl e) f = Inl e"
  "bnd (Inr x) f = f x"
  by (simp_all add: bnd_def)

lemma bnd_Inr_iff [res_simps]: "bnd m f = Inr y \<longleftrightarrow> (\<exists>x. m = Inr x \<and> f x = Inr y)"
  by (cases m) simp_all

lemma bnd_InrE:
  assumes "bnd m f = Inr y"
  obtains x where "m = Inr x" and "f x = Inr y"
  using assms by (auto simp: bnd_Inr_iff)

lemma bnd_assoc: "bnd (bnd m f) g = bnd m (\<lambda>x. bnd (f x) g)"
  by (cases m) simp_all

lemma bnd_cong [fundef_cong]:
  "m = m' \<Longrightarrow> (\<And>x. m' = Inr x \<Longrightarrow> f x = f' x) \<Longrightarrow> bnd m f = bnd m' f'"
  by (cases m') simp_all

section \<open>Bytes and words\<close>

text \<open>RISC-V is little-endian: the byte at the lowest address is the least significant.\<close>

fun le_word :: "uint8 list \<Rightarrow> 'a::len word" where
  "le_word [] = 0"
| "le_word (b # bs) = ucast b OR push_bit 8 (le_word bs)"

fun le_bytes :: "nat \<Rightarrow> 'a::len word \<Rightarrow> uint8 list" where
  "le_bytes 0 w = []"
| "le_bytes (Suc n) w = ucast w # le_bytes n (drop_bit 8 w)"

lemma length_le_bytes [simp]: "length (le_bytes n w) = n"
  by (induction n w rule: le_bytes.induct) simp_all

lemma le_word_le_bytes: "le_word (le_bytes n (w :: 'a::len word)) = take_bit (8 * n) w"
proof (induction n arbitrary: w)
  case 0
  then show ?case by simp
next
  case (Suc n)
  have "le_word (le_bytes (Suc n) w)
      = ucast (ucast w :: uint8) OR push_bit 8 (take_bit (8 * n) (drop_bit 8 w))"
    by (simp add: Suc)
  also have "\<dots> = take_bit (8 * Suc n) w"
    by (rule bit_word_eqI) (auto simp: bit_simps)
  finally show ?case .
qed

lemma le_word_le_bytes_full:
  "LENGTH('a) \<le> 8 * n \<Longrightarrow> le_word (le_bytes n (w :: 'a::len word)) = w"
  by (simp add: le_word_le_bytes take_bit_word_eq_self)

lemma of_nat_u64_inj:
  "i < 2 ^ 64 \<Longrightarrow> j < 2 ^ 64 \<Longrightarrow> (of_nat i :: uint64) = of_nat j \<longleftrightarrow> i = j"
  by (simp add: word_of_nat_eq_iff take_bit_nat_eq_self)

section \<open>Physical memory\<close>

text \<open>\<open>region a n\<close> is the set of the \<open>n\<close> byte addresses from \<open>a\<close> on.\<close>

definition region :: "addr \<Rightarrow> nat \<Rightarrow> addr set" where
  "region a n = (\<lambda>i. a + of_nat i) ` {..<n}"

definition load_bytes :: "memory \<Rightarrow> addr \<Rightarrow> nat \<Rightarrow> uint8 list" where
  "load_bytes m a n = map (\<lambda>i. m (a + of_nat i)) [0..<n]"

fun store_bytes :: "memory \<Rightarrow> addr \<Rightarrow> uint8 list \<Rightarrow> memory" where
  "store_bytes m a [] = m"
| "store_bytes m a (b # bs) = store_bytes (m(a := b)) (a + 1) bs"

definition load64 :: "memory \<Rightarrow> addr \<Rightarrow> uint64" where
  "load64 m a = le_word (load_bytes m a 8)"

definition store64 :: "memory \<Rightarrow> addr \<Rightarrow> uint64 \<Rightarrow> memory" where
  "store64 m a w = store_bytes m a (le_bytes 8 w)"

lemma region_0 [simp]: "region a 0 = {}"
  by (simp add: region_def)

lemma region_Suc: "region a (Suc n) = insert a (region (a + 1) n)"
  by (force simp: region_def lessThan_Suc_eq_insert_0 image_image ac_simps)

lemma length_load_bytes [simp]: "length (load_bytes m a n) = n"
  by (simp add: load_bytes_def)

lemma load_bytes_nth [simp]: "i < n \<Longrightarrow> load_bytes m a n ! i = m (a + of_nat i)"
  by (simp add: load_bytes_def)

lemma load_bytes_cong:
  "(\<And>x. x \<in> region a n \<Longrightarrow> m x = m' x) \<Longrightarrow> load_bytes m a n = load_bytes m' a n"
  by (simp add: load_bytes_def region_def)

lemma store_bytes_other [mem_frame]:
  "x \<notin> region a (length bs) \<Longrightarrow> store_bytes m a bs x = m x"
  by (induction m a bs rule: store_bytes.induct) (auto simp: region_Suc)

lemma store_bytes_nth:
  "length bs \<le> 2 ^ 64 \<Longrightarrow> i < length bs \<Longrightarrow> store_bytes m a bs (a + of_nat i) = bs ! i"
proof (induction bs arbitrary: m a i)
  case (Cons b bs)
  show ?case
  proof (cases i)
    case 0
    have "a \<notin> region (a + 1) (length bs)"
    proof
      assume "a \<in> region (a + 1) (length bs)"
      then obtain j where j: "j < length bs" and "a = a + 1 + of_nat j"
        by (auto simp: region_def)
      then have "of_nat (Suc j) = (0 :: uint64)"
        by (simp add: add.assoc)
      then have "2 ^ 64 dvd Suc j"
        by (simp only: word_of_nat_eq_0_iff) simp
      then have "2 ^ 64 \<le> Suc j"
        by (meson dvd_imp_le zero_less_Suc)
      with j Cons.prems(1) show False by simp
    qed
    with 0 show ?thesis by (simp add: store_bytes_other)
  next
    case (Suc j)
    with Cons.prems have "store_bytes (m(a := b)) (a + 1) bs ((a + 1) + of_nat j) = bs ! j"
      by (intro Cons.IH) simp_all
    with Suc show ?thesis by (simp add: ac_simps)
  qed
qed simp

lemma load_store_bytes:
  "length bs \<le> 2 ^ 64 \<Longrightarrow> load_bytes (store_bytes m a bs) a (length bs) = bs"
  by (rule nth_equalityI) (simp_all add: store_bytes_nth)

lemma load_store_bytes_disjoint [mem_frame]:
  "region a n \<inter> region b (length bs) = {} \<Longrightarrow> load_bytes (store_bytes m b bs) a n = load_bytes m a n"
  by (rule load_bytes_cong) (metis disjoint_iff store_bytes_other)

lemma load64_store64 [simp]: "load64 (store64 m a w) a = w"
proof -
  have "load_bytes (store64 m a w) a (length (le_bytes 8 w)) = le_bytes 8 w"
    unfolding store64_def by (rule load_store_bytes) simp
  then show ?thesis
    by (simp add: load64_def le_word_le_bytes_full)
qed

lemma load64_store64_disjoint [mem_frame]:
  "region a 8 \<inter> region b 8 = {} \<Longrightarrow> load64 (store64 m b w) a = load64 m a"
  by (simp add: load64_def store64_def load_store_bytes_disjoint)

lemma load64_cong: "(\<And>x. x \<in> region a 8 \<Longrightarrow> m x = m' x) \<Longrightarrow> load64 m a = load64 m' a"
  unfolding load64_def by (metis load_bytes_cong)

lemma store64_other [mem_frame]: "x \<notin> region a 8 \<Longrightarrow> store64 m a w x = m x"
  by (simp add: store64_def store_bytes_other)

end
