(* ===== verification/Xv6_Riscv.thy ===== *)
theory Xv6_Riscv
  imports Xv6_Prelude
begin

text \<open>
  \<^verbatim>\<open>kernel/riscv.h\<close>, \<^verbatim>\<open>kernel/memlayout.h\<close> and \<^verbatim>\<open>kernel/param.h\<close>: the control and status registers as
  a record of storage cells with the accessors the kernel uses, the page and page-table-entry
  arithmetic of the Sv39 scheme, and the constants of the memory layout.
\<close>

section \<open>Control and status registers\<close>

record csrs =
  mhartid :: uint64
  mstatus :: uint64
  mepc :: uint64
  sstatus :: uint64
  sip :: uint64
  sie :: uint64
  mie :: uint64
  sepc :: uint64
  medeleg :: uint64
  mideleg :: uint64
  stvec :: uint64
  mtvec :: uint64
  pmpcfg0 :: uint64
  pmpaddr0 :: uint64
  satp :: uint64
  mscratch :: uint64
  scause :: uint64
  stval :: uint64
  mcounteren :: uint64
  time_csr :: uint64
  sp_reg :: uint64
  tp_reg :: uint64
  ra_reg :: uint64

definition r_mhartid :: "csrs \<Rightarrow> uint64" where "r_mhartid c = mhartid c"
definition r_mstatus :: "csrs \<Rightarrow> uint64" where "r_mstatus c = mstatus c"
definition w_mstatus :: "uint64 \<Rightarrow> csrs \<Rightarrow> csrs" where "w_mstatus x c = c\<lparr>mstatus := x\<rparr>"
definition w_mepc :: "uint64 \<Rightarrow> csrs \<Rightarrow> csrs" where "w_mepc x c = c\<lparr>mepc := x\<rparr>"
definition r_sstatus :: "csrs \<Rightarrow> uint64" where "r_sstatus c = sstatus c"
definition w_sstatus :: "uint64 \<Rightarrow> csrs \<Rightarrow> csrs" where "w_sstatus x c = c\<lparr>sstatus := x\<rparr>"
definition r_sip :: "csrs \<Rightarrow> uint64" where "r_sip c = sip c"
definition w_sip :: "uint64 \<Rightarrow> csrs \<Rightarrow> csrs" where "w_sip x c = c\<lparr>sip := x\<rparr>"
definition r_sie :: "csrs \<Rightarrow> uint64" where "r_sie c = sie c"
definition w_sie :: "uint64 \<Rightarrow> csrs \<Rightarrow> csrs" where "w_sie x c = c\<lparr>sie := x\<rparr>"
definition r_mie :: "csrs \<Rightarrow> uint64" where "r_mie c = mie c"
definition w_mie :: "uint64 \<Rightarrow> csrs \<Rightarrow> csrs" where "w_mie x c = c\<lparr>mie := x\<rparr>"
definition w_sepc :: "uint64 \<Rightarrow> csrs \<Rightarrow> csrs" where "w_sepc x c = c\<lparr>sepc := x\<rparr>"
definition r_sepc :: "csrs \<Rightarrow> uint64" where "r_sepc c = sepc c"
definition r_medeleg :: "csrs \<Rightarrow> uint64" where "r_medeleg c = medeleg c"
definition w_medeleg :: "uint64 \<Rightarrow> csrs \<Rightarrow> csrs" where "w_medeleg x c = c\<lparr>medeleg := x\<rparr>"
definition r_mideleg :: "csrs \<Rightarrow> uint64" where "r_mideleg c = mideleg c"
definition w_mideleg :: "uint64 \<Rightarrow> csrs \<Rightarrow> csrs" where "w_mideleg x c = c\<lparr>mideleg := x\<rparr>"
definition w_stvec :: "uint64 \<Rightarrow> csrs \<Rightarrow> csrs" where "w_stvec x c = c\<lparr>stvec := x\<rparr>"
definition r_stvec :: "csrs \<Rightarrow> uint64" where "r_stvec c = stvec c"
definition w_mtvec :: "uint64 \<Rightarrow> csrs \<Rightarrow> csrs" where "w_mtvec x c = c\<lparr>mtvec := x\<rparr>"
definition w_pmpcfg0 :: "uint64 \<Rightarrow> csrs \<Rightarrow> csrs" where "w_pmpcfg0 x c = c\<lparr>pmpcfg0 := x\<rparr>"
definition w_pmpaddr0 :: "uint64 \<Rightarrow> csrs \<Rightarrow> csrs" where "w_pmpaddr0 x c = c\<lparr>pmpaddr0 := x\<rparr>"
definition w_satp :: "uint64 \<Rightarrow> csrs \<Rightarrow> csrs" where "w_satp x c = c\<lparr>satp := x\<rparr>"
definition r_satp :: "csrs \<Rightarrow> uint64" where "r_satp c = satp c"
definition w_mscratch :: "uint64 \<Rightarrow> csrs \<Rightarrow> csrs" where "w_mscratch x c = c\<lparr>mscratch := x\<rparr>"
definition r_scause :: "csrs \<Rightarrow> uint64" where "r_scause c = scause c"
definition r_stval :: "csrs \<Rightarrow> uint64" where "r_stval c = stval c"
definition w_mcounteren :: "uint64 \<Rightarrow> csrs \<Rightarrow> csrs" where "w_mcounteren x c = c\<lparr>mcounteren := x\<rparr>"
definition r_mcounteren :: "csrs \<Rightarrow> uint64" where "r_mcounteren c = mcounteren c"
definition r_time :: "csrs \<Rightarrow> uint64" where "r_time c = time_csr c"
definition r_sp :: "csrs \<Rightarrow> uint64" where "r_sp c = sp_reg c"
definition r_tp :: "csrs \<Rightarrow> uint64" where "r_tp c = tp_reg c"
definition w_tp :: "uint64 \<Rightarrow> csrs \<Rightarrow> csrs" where "w_tp x c = c\<lparr>tp_reg := x\<rparr>"
definition r_ra :: "csrs \<Rightarrow> uint64" where "r_ra c = ra_reg c"

abbreviation (input) MSTATUS_MPP_MASK :: uint64 where "MSTATUS_MPP_MASK \<equiv> push_bit 11 3"
abbreviation (input) MSTATUS_MPP_S :: uint64 where "MSTATUS_MPP_S \<equiv> push_bit 11 1"
abbreviation (input) MSTATUS_MIE :: uint64 where "MSTATUS_MIE \<equiv> push_bit 3 1"
abbreviation (input) SSTATUS_SPP :: uint64 where "SSTATUS_SPP \<equiv> push_bit 8 1"
abbreviation (input) SSTATUS_SPIE :: uint64 where "SSTATUS_SPIE \<equiv> push_bit 5 1"
abbreviation (input) SSTATUS_SIE :: uint64 where "SSTATUS_SIE \<equiv> push_bit 1 1"
abbreviation (input) SIE_SEIE :: uint64 where "SIE_SEIE \<equiv> push_bit 9 1"
abbreviation (input) SIE_STIE :: uint64 where "SIE_STIE \<equiv> push_bit 5 1"
abbreviation (input) SIE_SSIE :: uint64 where "SIE_SSIE \<equiv> push_bit 1 1"
abbreviation (input) MIE_MTIE :: uint64 where "MIE_MTIE \<equiv> push_bit 7 1"

definition intr_on :: "csrs \<Rightarrow> csrs" where
  "intr_on c = w_sstatus (r_sstatus c OR SSTATUS_SIE) c"

definition intr_off :: "csrs \<Rightarrow> csrs" where
  "intr_off c = w_sstatus (r_sstatus c AND NOT SSTATUS_SIE) c"

definition intr_get :: "csrs \<Rightarrow> bool" where
  "intr_get c = (r_sstatus c AND SSTATUS_SIE \<noteq> 0)"

section \<open>Pages and page-table entries\<close>

abbreviation (input) PGSIZE :: uint64 where "PGSIZE \<equiv> 4096"
abbreviation (input) PGSHIFT :: nat where "PGSHIFT \<equiv> 12"

definition PGROUNDUP :: "uint64 \<Rightarrow> uint64" where
  "PGROUNDUP sz = (sz + PGSIZE - 1) AND NOT (PGSIZE - 1)"

definition PGROUNDDOWN :: "uint64 \<Rightarrow> uint64" where
  "PGROUNDDOWN a = a AND NOT (PGSIZE - 1)"

abbreviation (input) PTE_V :: uint64 where "PTE_V \<equiv> push_bit 0 1"
abbreviation (input) PTE_R :: uint64 where "PTE_R \<equiv> push_bit 1 1"
abbreviation (input) PTE_W :: uint64 where "PTE_W \<equiv> push_bit 2 1"
abbreviation (input) PTE_X :: uint64 where "PTE_X \<equiv> push_bit 3 1"
abbreviation (input) PTE_U :: uint64 where "PTE_U \<equiv> push_bit 4 1"

definition PA2PTE :: "uint64 \<Rightarrow> uint64" where
  "PA2PTE pa = push_bit 10 (drop_bit 12 pa)"

definition PTE2PA :: "uint64 \<Rightarrow> uint64" where
  "PTE2PA pte = push_bit 12 (drop_bit 10 pte)"

definition PTE_FLAGS :: "uint64 \<Rightarrow> uint64" where
  "PTE_FLAGS pte = pte AND 0x3FF"

definition PXSHIFT :: "nat \<Rightarrow> nat" where
  "PXSHIFT level = PGSHIFT + 9 * level"

definition PX :: "nat \<Rightarrow> uint64 \<Rightarrow> uint64" where
  "PX level va = drop_bit (PXSHIFT level) va AND 0x1FF"

abbreviation (input) MAXVA :: uint64 where "MAXVA \<equiv> push_bit (9 + 9 + 9 + 12 - 1) 1"

definition MAKE_SATP :: "uint64 \<Rightarrow> uint64" where
  "MAKE_SATP pagetable = push_bit 60 8 OR drop_bit 12 pagetable"

section \<open>Memory layout and limits\<close>

abbreviation (input) UART0 :: uint64 where "UART0 \<equiv> 0x10000000"
abbreviation (input) UART0_IRQ :: int where "UART0_IRQ \<equiv> 10"
abbreviation (input) VIRTIO0 :: uint64 where "VIRTIO0 \<equiv> 0x10001000"
abbreviation (input) VIRTIO0_IRQ :: int where "VIRTIO0_IRQ \<equiv> 1"
abbreviation (input) CLINT :: uint64 where "CLINT \<equiv> 0x2000000"
abbreviation (input) PLIC :: uint64 where "PLIC \<equiv> 0x0c000000"
abbreviation (input) KERNBASE :: uint64 where "KERNBASE \<equiv> 0x80000000"
abbreviation (input) PHYSTOP :: uint64 where "PHYSTOP \<equiv> KERNBASE + 128 * 1024 * 1024"
abbreviation (input) TRAMPOLINE :: uint64 where "TRAMPOLINE \<equiv> MAXVA - PGSIZE"
abbreviation (input) TRAPFRAME :: uint64 where "TRAPFRAME \<equiv> TRAMPOLINE - PGSIZE"

definition KSTACK :: "nat \<Rightarrow> uint64" where
  "KSTACK p = TRAMPOLINE - (of_nat p + 1) * 2 * PGSIZE"

definition CLINT_MTIMECMP :: "uint64 \<Rightarrow> uint64" where
  "CLINT_MTIMECMP hartid = CLINT + 0x4000 + 8 * hartid"

abbreviation (input) CLINT_MTIME :: uint64 where "CLINT_MTIME \<equiv> CLINT + 0xBFF8"

abbreviation (input) N_PROC :: nat where "N_PROC \<equiv> 10"
abbreviation (input) N_CPU :: nat where "N_CPU \<equiv> 1"
abbreviation (input) NOFILE :: nat where "NOFILE \<equiv> 16"
abbreviation (input) NFILE :: nat where "NFILE \<equiv> 100"
abbreviation (input) NINODE :: nat where "NINODE \<equiv> 50"
abbreviation (input) NDEV :: nat where "NDEV \<equiv> 10"
abbreviation (input) ROOTDEV :: uint32 where "ROOTDEV \<equiv> 1"
abbreviation (input) MAXARG :: nat where "MAXARG \<equiv> 32"
abbreviation (input) MAXOPBLOCKS :: nat where "MAXOPBLOCKS \<equiv> 10"
abbreviation (input) LOGSIZE :: nat where "LOGSIZE \<equiv> MAXOPBLOCKS * 3"
abbreviation (input) NBUF :: nat where "NBUF \<equiv> MAXOPBLOCKS * 3"
abbreviation (input) FSSIZE :: nat where "FSSIZE \<equiv> 2000"
abbreviation (input) MAXPATH :: nat where "MAXPATH \<equiv> 128"

section \<open>Facts about pages\<close>

definition page_aligned :: "uint64 \<Rightarrow> bool" where
  "page_aligned a \<longleftrightarrow> take_bit 12 a = 0"

lemma mask12: "(4095 :: uint64) = mask 12"
  by (simp add: mask_eq_exp_minus_1)

lemma PGROUNDDOWN_alt: "PGROUNDDOWN a = a AND NOT (mask 12)"
  by (simp add: PGROUNDDOWN_def mask12)

lemma PGROUNDDOWN_shift: "PGROUNDDOWN a = push_bit 12 (drop_bit 12 a)"
  unfolding PGROUNDDOWN_alt by (rule bit_word_eqI) (auto simp: bit_simps)

lemma unat_PGROUNDDOWN: "unat (PGROUNDDOWN a) = unat a div 4096 * 4096"
proof -
  have "unat a div 4096 * 4096 < 2 ^ LENGTH(64)"
    using unsigned_less[of a] by (meson div_times_less_eq_dividend le_less_trans)
  moreover have "unat (PGROUNDDOWN a) = take_bit 64 (push_bit 12 (drop_bit 12 (unat a)))"
    by (simp only: PGROUNDDOWN_shift unsigned_push_bit_eq unat_drop_bit_eq) simp
  ultimately show ?thesis
    by (simp add: push_bit_eq_mult drop_bit_eq_div take_bit_nat_eq_self)
qed

lemma page_aligned_unat: "page_aligned a \<longleftrightarrow> 4096 dvd unat a"
proof -
  have "take_bit 12 a = 0 \<longleftrightarrow> take_bit 12 (unat a) = 0"
    by (simp only: word_unat_eq_iff unsigned_take_bit_eq) simp
  then show ?thesis
    by (simp add: page_aligned_def take_bit_eq_mod mod_eq_0_iff_dvd)
qed

lemma page_alignedE:
  assumes "page_aligned a"
  obtains k where "unat a = 4096 * k"
  using assms unfolding page_aligned_unat by (rule dvdE)

lemma page_aligned_mod: "page_aligned a \<longleftrightarrow> a mod PGSIZE = 0"
  by (simp add: page_aligned_def take_bit_eq_mod)

lemma PGROUNDUP_eq: "PGROUNDUP a = PGROUNDDOWN (a + 4095)"
  by (simp add: PGROUNDUP_def PGROUNDDOWN_def add.commute)

lemma page_aligned_PGROUNDDOWN [simp]: "page_aligned (PGROUNDDOWN a)"
  by (simp add: page_aligned_unat unat_PGROUNDDOWN)

lemma page_aligned_PGROUNDUP [simp]: "page_aligned (PGROUNDUP a)"
  by (simp add: PGROUNDUP_eq)

lemma unat_PGROUNDUP:
  assumes "unat a + 4095 < 2 ^ 64"
  shows "unat (PGROUNDUP a) = (unat a + 4095) div 4096 * 4096"
proof -
  have "unat (a + 4095) = unat a + 4095"
    using assms by (simp add: unat_word_ariths)
  then show ?thesis by (simp add: PGROUNDUP_eq unat_PGROUNDDOWN)
qed

lemma PGROUNDDOWN_aligned [simp]: "page_aligned a \<Longrightarrow> PGROUNDDOWN a = a"
  by (simp add: word_unat_eq_iff unat_PGROUNDDOWN page_aligned_unat)

lemma unat_page_offset:
  assumes "page_aligned p" and "i < 4096"
  shows "unat (p + of_nat i) = unat p + i"
proof -
  obtain k where k: "unat p = 4096 * k"
    using assms(1) by (rule page_alignedE)
  have "unat p < 2 ^ LENGTH(64)"
    by (rule unsigned_less)
  then have "k < 2 ^ 52"
    using k by simp
  then have "unat p + i < 2 ^ 64"
    using k assms(2) by simp
  then show ?thesis
    using assms(2) by (simp add: unat_word_ariths unat_of_nat)
qed

lemma PGROUNDDOWN_offset:
  "page_aligned p \<Longrightarrow> i < 4096 \<Longrightarrow> PGROUNDDOWN (p + of_nat i) = p"
  by (auto simp: word_unat_eq_iff unat_PGROUNDDOWN unat_page_offset page_aligned_unat)

lemma PGROUNDUP_aligned [simp]: "page_aligned a \<Longrightarrow> PGROUNDUP a = a"
  using PGROUNDDOWN_offset[of a 4095] by (simp add: PGROUNDUP_eq)

lemma region_page_sub: "page_aligned p \<Longrightarrow> i + n \<le> 4096 \<Longrightarrow> x \<in> region (p + of_nat i) n \<Longrightarrow> PGROUNDDOWN x = p"
  using PGROUNDDOWN_offset by (force simp: region_def add.assoc simp flip: of_nat_add)

lemma region_page: "page_aligned p \<Longrightarrow> x \<in> region p 4096 \<longleftrightarrow> PGROUNDDOWN x = p"
proof
  show "page_aligned p \<Longrightarrow> x \<in> region p 4096 \<Longrightarrow> PGROUNDDOWN x = p"
    using region_page_sub[of p 0 4096 x] by simp
next
  assume "page_aligned p" and "PGROUNDDOWN x = p"
  then have "x = p + of_nat (unat x mod 4096)"
    using unat_page_offset[of p "unat x mod 4096"] div_mult_mod_eq[of "unat x" 4096]
    by (simp add: word_unat_eq_iff unat_PGROUNDDOWN)
  then show "x \<in> region p 4096"
    unfolding region_def by (metis imageI lessThan_iff mod_less_divisor zero_less_numeral)
qed

section \<open>Facts about page-table entries\<close>

lemma word_bit_bound: "bit w k \<Longrightarrow> unat w < 2 ^ n \<Longrightarrow> k < n" for w :: uint64
proof (rule ccontr)
  assume "bit w k" "unat w < 2 ^ n" and "\<not> k < n"
  then have "take_bit n w = w"
    by (simp only: word_unat_eq_iff unsigned_take_bit_eq) (simp add: take_bit_nat_eq_self)
  with \<open>bit w k\<close> \<open>\<not> k < n\<close> show False
    by (metis bit_take_bit_iff)
qed

lemma page_aligned_bit: "page_aligned a \<Longrightarrow> bit a k \<Longrightarrow> 12 \<le> k"
  unfolding page_aligned_def by (metis bit_0_eq bit_take_bit_iff bot_apply bot_bool_def not_le)

lemma PTE2PA_PA2PTE:
  assumes "page_aligned pa" and "f < 1024"
  shows "PTE2PA (PA2PTE pa OR f) = pa"
proof -
  have "unat f < 2 ^ 10"
    using assms(2) by (simp add: word_less_nat_alt)
  then show ?thesis
    unfolding PTE2PA_def PA2PTE_def
    using assms(1) by (intro bit_word_eqI)
      (auto simp: bit_simps dest: page_aligned_bit word_bit_bound[where n = 10])
qed

lemma PTE_FLAGS_PA2PTE: "f < 1024 \<Longrightarrow> PTE_FLAGS (PA2PTE pa OR f) = f"
proof -
  assume "f < 1024"
  then have "unat f < 2 ^ 10"
    by (simp add: word_less_nat_alt)
  moreover have "PTE_FLAGS e = take_bit 10 e" for e
    by (simp add: PTE_FLAGS_def take_bit_eq_mask mask_eq_exp_minus_1)
  ultimately show ?thesis
    unfolding PA2PTE_def
    by (simp only:) (intro bit_word_eqI, auto simp: bit_simps dest: word_bit_bound[where n = 10])
qed

lemma page_aligned_PTE2PA [simp]: "page_aligned (PTE2PA e)"
  by (simp add: page_aligned_def PTE2PA_def take_bit_push_bit)

lemma unat_PX: "unat (PX l va) = unat va div 2 ^ (12 + 9 * l) mod 512"
proof -
  have "(0x1FF :: uint64) = mask 9"
    by (simp add: mask_eq_exp_minus_1)
  then have "PX l va = take_bit 9 (drop_bit (12 + 9 * l) va)"
    by (simp add: PX_def PXSHIFT_def take_bit_eq_mask)
  then have "unat (PX l va) = take_bit 9 (drop_bit (12 + 9 * l) (unat va))"
    by (simp only: unsigned_take_bit_eq unat_drop_bit_eq)
  then show ?thesis
    by (simp add: take_bit_eq_mod drop_bit_eq_div)
qed

lemma unat_PX_less: "unat (PX l va) < 512"
  by (simp add: unat_PX)

lemma div_4096_split:
  assumes "w < 2 ^ 39"
  shows "unat w div 4096 = unat (PX 2 w) * 2 ^ 18 + unat (PX 1 w) * 2 ^ 9 + unat (PX 0 w)"
proof -
  define q where "q = unat w div 4096"
  have "unat w < 2 ^ 39"
    using assms by (simp add: word_less_nat_alt)
  then have "q < 2 ^ 27"
    unfolding q_def by (intro less_mult_imp_div_less) simp
  then have top: "q div 2 ^ 18 mod 512 = q div 2 ^ 18"
    by (intro mod_less less_mult_imp_div_less) simp
  have "q = q div 2 ^ 18 * 2 ^ 18 + q mod 2 ^ 18"
    by (rule div_mult_mod_eq[symmetric])
  also have "q mod 2 ^ 18 = 2 ^ 9 * (q div 2 ^ 9 mod 2 ^ 9) + q mod 2 ^ 9"
    using mod_mult2_eq[of q "2 ^ 9" "2 ^ 9"] by simp
  finally show ?thesis
    using top by (simp add: unat_PX q_def div_mult2_eq[symmetric])
qed

lemma PX_inject:
  assumes "page_aligned va" "page_aligned va'" "va < 2 ^ 39" "va' < 2 ^ 39"
    and "PX 2 va = PX 2 va'" "PX 1 va = PX 1 va'" "PX 0 va = PX 0 va'"
  shows "va = va'"
proof -
  have "unat va div 4096 = unat va' div 4096"
    using div_4096_split[OF assms(3)] div_4096_split[OF assms(4)] assms(5-7) by simp
  then show ?thesis
    using assms(1,2) by (auto simp: page_aligned_unat word_unat_eq_iff)
qed

end
