(* ===== verification/Xv6_String.thy ===== *)
theory Xv6_String
  imports Xv6_Prelude
begin

text \<open>
  \<^verbatim>\<open>kernel/string.c\<close> over the byte-addressed memory: every loop is a recursion on the number of
  iterations left, reading the memory as it is at that iteration, so overlapping operands behave as
  in the C code.  The lemmas relate each routine to its meaning on byte lists and C strings.
\<close>

section \<open>The routines\<close>

fun memset_loop :: "memory \<Rightarrow> addr \<Rightarrow> uint8 \<Rightarrow> nat \<Rightarrow> memory" where
  "memset_loop m d c 0 = m"
| "memset_loop m d c (Suc k) = memset_loop (m(d := c)) (d + 1) c k"

definition memset :: "memory \<Rightarrow> addr \<Rightarrow> int \<Rightarrow> uint32 \<Rightarrow> memory" where
  "memset m dst c n = memset_loop m dst (word_of_int c) (unat n)"

fun memcmp_loop :: "memory \<Rightarrow> addr \<Rightarrow> addr \<Rightarrow> nat \<Rightarrow> int" where
  "memcmp_loop m s1 s2 0 = 0"
| "memcmp_loop m s1 s2 (Suc k) =
     (if m s1 \<noteq> m s2 then uint (m s1) - uint (m s2) else memcmp_loop m (s1 + 1) (s2 + 1) k)"

definition memcmp :: "memory \<Rightarrow> addr \<Rightarrow> addr \<Rightarrow> uint32 \<Rightarrow> int" where
  "memcmp m v1 v2 n = memcmp_loop m v1 v2 (unat n)"

text \<open>The two copy loops of \<^verbatim>\<open>memmove\<close>: ascending, and descending from one past the end.\<close>

fun copy_up :: "memory \<Rightarrow> addr \<Rightarrow> addr \<Rightarrow> nat \<Rightarrow> memory" where
  "copy_up m d s 0 = m"
| "copy_up m d s (Suc k) = copy_up (m(d := m s)) (d + 1) (s + 1) k"

fun copy_down :: "memory \<Rightarrow> addr \<Rightarrow> addr \<Rightarrow> nat \<Rightarrow> memory" where
  "copy_down m d s 0 = m"
| "copy_down m d s (Suc k) = copy_down (m(d - 1 := m (s - 1))) (d - 1) (s - 1) k"

definition memmove :: "memory \<Rightarrow> addr \<Rightarrow> addr \<Rightarrow> uint32 \<Rightarrow> memory" where
  "memmove m dst src n =
     (if n = 0 then m
      else if src < dst \<and> dst < src + ucast n
      then copy_down m (dst + ucast n) (src + ucast n) (unat n)
      else copy_up m dst src (unat n))"

definition memcpy :: "memory \<Rightarrow> addr \<Rightarrow> addr \<Rightarrow> uint32 \<Rightarrow> memory" where
  "memcpy m dst src n = memmove m dst src n"

fun strncmp_loop :: "memory \<Rightarrow> addr \<Rightarrow> addr \<Rightarrow> nat \<Rightarrow> int" where
  "strncmp_loop m p q 0 = 0"
| "strncmp_loop m p q (Suc k) =
     (if m p \<noteq> 0 \<and> m p = m q then strncmp_loop m (p + 1) (q + 1) k
      else uint (m p) - uint (m q))"

definition strncmp :: "memory \<Rightarrow> addr \<Rightarrow> addr \<Rightarrow> uint32 \<Rightarrow> int" where
  "strncmp m p q n = strncmp_loop m p q (unat n)"

fun strncpy_pad :: "memory \<Rightarrow> addr \<Rightarrow> nat \<Rightarrow> memory" where
  "strncpy_pad m s 0 = m"
| "strncpy_pad m s (Suc k) = strncpy_pad (m(s := 0)) (s + 1) k"

fun strncpy_loop :: "memory \<Rightarrow> addr \<Rightarrow> addr \<Rightarrow> nat \<Rightarrow> memory" where
  "strncpy_loop m s t 0 = m"
| "strncpy_loop m s t (Suc k) =
     (if m t \<noteq> 0 then strncpy_loop (m(s := m t)) (s + 1) (t + 1) k
      else strncpy_pad (m(s := m t)) (s + 1) k)"

definition strncpy :: "memory \<Rightarrow> addr \<Rightarrow> addr \<Rightarrow> int \<Rightarrow> memory" where
  "strncpy m s t n = strncpy_loop m s t (nat n)"

text \<open>\<open>k\<close> is the value of \<^verbatim>\<open>--n\<close> at the loop test; the final \<^verbatim>\<open>*s = 0\<close> follows the loop.\<close>

fun safestrcpy_loop :: "memory \<Rightarrow> addr \<Rightarrow> addr \<Rightarrow> nat \<Rightarrow> memory" where
  "safestrcpy_loop m s t 0 = m(s := 0)"
| "safestrcpy_loop m s t (Suc k) =
     (if m t \<noteq> 0 then safestrcpy_loop (m(s := m t)) (s + 1) (t + 1) k
      else (m(s := m t))(s + 1 := 0))"

definition safestrcpy :: "memory \<Rightarrow> addr \<Rightarrow> addr \<Rightarrow> int \<Rightarrow> memory" where
  "safestrcpy m s t n = (if n \<le> 0 then m else safestrcpy_loop m s t (nat (n - 1)))"

text \<open>The scan of \<^verbatim>\<open>strlen\<close> has no bound: \<open>None\<close> is a scan that meets no zero byte.\<close>

partial_function (option) strlen_from :: "memory \<Rightarrow> addr \<Rightarrow> nat \<Rightarrow> nat option" where
  "strlen_from m s n = (if m (s + of_nat n) \<noteq> 0 then strlen_from m s (Suc n) else Some n)"

definition strlen :: "memory \<Rightarrow> addr \<Rightarrow> nat option" where
  "strlen m s = strlen_from m s 0"

section \<open>C strings\<close>

definition cstring :: "memory \<Rightarrow> addr \<Rightarrow> uint8 list \<Rightarrow> bool" where
  "cstring m a bs \<longleftrightarrow>
     load_bytes m a (length bs) = bs \<and> 0 \<notin> set bs \<and> m (a + of_nat (length bs)) = 0"

lemma load_bytes_0 [simp]: "load_bytes m a 0 = []"
  by (simp add: load_bytes_def)

lemma load_bytes_Cons: "load_bytes m a (Suc n) = m a # load_bytes m (a + 1) n"
  by (rule nth_equalityI) (auto simp: nth_Cons ac_simps split: nat.split)

lemma cstring_Nil [simp]: "cstring m a [] \<longleftrightarrow> m a = 0"
  by (simp add: cstring_def load_bytes_def)

lemma cstring_Cons [simp]:
  "cstring m a (b # bs) \<longleftrightarrow> m a = b \<and> b \<noteq> 0 \<and> cstring m (a + 1) bs"
  by (auto simp: cstring_def load_bytes_Cons ac_simps)

lemma cstring_cong:
  "(\<And>x. x \<in> region a (Suc (length bs)) \<Longrightarrow> m x = m' x) \<Longrightarrow> cstring m a bs = cstring m' a bs"
proof (induction bs arbitrary: a)
  case Nil
  then show ?case by (simp add: region_Suc)
next
  case (Cons b bs)
  have "m a = m' a" and "cstring m (a + 1) bs = cstring m' (a + 1) bs"
    using Cons.prems by (auto intro!: Cons.IH simp: region_Suc[of a])
  then show ?case by simp
qed

section \<open>What the routines compute\<close>

lemma memset_loop_store: "memset_loop m d c k = store_bytes m d (replicate k c)"
  by (induction k arbitrary: m d) simp_all

lemma memset_other [mem_frame]: "x \<notin> region d (unat n) \<Longrightarrow> memset m d c n x = m x"
  by (simp add: memset_def memset_loop_store store_bytes_other)

lemma memset_in: "x \<in> region d (unat n) \<Longrightarrow> memset m d c n x = word_of_int c"
proof -
  assume "x \<in> region d (unat n)"
  then obtain i where i: "i < unat n" and x: "x = d + of_nat i"
    by (auto simp: region_def)
  have "unat n < 2 ^ LENGTH(32)"
    by (rule unsigned_less)
  then have "unat n \<le> 2 ^ 64"
    by simp
  then show ?thesis
    using i by (simp add: x memset_def memset_loop_store store_bytes_nth)
qed

lemma memset_apply: "memset m d c n x = (if x \<in> region d (unat n) then word_of_int c else m x)"
  by (simp add: memset_in memset_other)

lemma memcmp_loop_0: "memcmp_loop m p q k = 0 \<longleftrightarrow> load_bytes m p k = load_bytes m q k"
  by (induction k arbitrary: p q) (simp_all add: load_bytes_Cons word_uint_eq_iff)

lemma copy_up_other: "x \<notin> region d k \<Longrightarrow> copy_up m d s k x = m x"
  by (induction k arbitrary: m d s) (auto simp: region_Suc)

lemma copy_down_other: "x \<notin> region (d - of_nat k) k \<Longrightarrow> copy_down m d s k x = m x"
proof (induction k arbitrary: m d s)
  case (Suc k)
  have "region (d - of_nat (Suc k)) (Suc k) = insert (d - 1) (region (d - 1 - of_nat k) k)"
    by (simp add: region_def lessThan_Suc algebra_simps)
  with Suc show ?case by simp
qed simp

lemma store_bytes_snoc:
  "store_bytes m d (xs @ [x]) = (store_bytes m d xs)(d + of_nat (length xs) := x)"
  by (induction xs arbitrary: m d) (simp_all add: ac_simps)

lemma region_notin: "k < 2 ^ 64 \<Longrightarrow> d + of_nat k \<notin> region d k"
  by (auto simp: region_def of_nat_u64_inj)

lemma region_notin_front: "k < 2 ^ 64 \<Longrightarrow> d \<notin> region (d + 1) k"
proof
  assume k: "k < 2 ^ 64" and "d \<in> region (d + 1) k"
  then obtain j where "j < k" and "(0 :: addr) = of_nat (Suc j)"
    by (auto simp: region_def add.assoc)
  then show False
    using k of_nat_u64_inj[of 0 "Suc j"] by simp
qed

lemma store_bytes_upd_swap:
  "a \<notin> region d (length xs) \<Longrightarrow> store_bytes (m(a := v)) d xs = (store_bytes m d xs)(a := v)"
  by (induction xs arbitrary: m d) (simp_all add: region_Suc fun_upd_twist)

lemma copy_up_store:
  assumes "\<And>i j. i < j \<Longrightarrow> j < k \<Longrightarrow> d + of_nat i \<noteq> s + of_nat j"
  shows "copy_up m d s k = store_bytes m d (load_bytes m s k)"
  using assms
proof (induction k arbitrary: m d s)
  case (Suc k)
  have "load_bytes (m(d := m s)) (s + 1) k = load_bytes m (s + 1) k"
  proof (rule load_bytes_cong)
    fix x assume "x \<in> region (s + 1) k"
    then obtain j where "j < k" and "x = s + of_nat (Suc j)"
      by (auto simp: region_def ac_simps)
    then show "(m(d := m s)) x = m x"
      using Suc.prems[of 0 "Suc j"] by simp
  qed
  moreover have "(d + 1) + of_nat i \<noteq> (s + 1) + of_nat j" if "i < j" "j < k" for i j
    using Suc.prems[of "Suc i" "Suc j"] that by (simp add: ac_simps)
  ultimately have "copy_up (m(d := m s)) (d + 1) (s + 1) k
      = store_bytes (m(d := m s)) (d + 1) (load_bytes m (s + 1) k)"
    by (metis Suc.IH)
  then show ?case
    by (simp add: load_bytes_Cons)
qed simp

lemma copy_down_store:
  assumes "k \<le> 2 ^ 64" and "\<And>i j. j < i \<Longrightarrow> i < k \<Longrightarrow> d + of_nat i \<noteq> s + of_nat j"
  shows "copy_down m (d + of_nat k) (s + of_nat k) k = store_bytes m d (load_bytes m s k)"
  using assms
proof (induction k arbitrary: m)
  case (Suc k)
  let ?m = "m(d + of_nat k := m (s + of_nat k))"
  have "load_bytes ?m s k = load_bytes m s k"
  proof (rule load_bytes_cong)
    fix x assume "x \<in> region s k"
    then obtain j where "j < k" and "x = s + of_nat j"
      by (auto simp: region_def)
    then show "?m x = m x"
      using Suc.prems(2)[of j k] by simp
  qed
  then have "copy_down m (d + of_nat (Suc k)) (s + of_nat (Suc k)) (Suc k)
      = store_bytes ?m d (load_bytes m s k)"
    using Suc by simp
  also have "\<dots> = store_bytes m d (load_bytes m s k @ [m (s + of_nat k)])"
    using Suc.prems(1) by (simp add: store_bytes_snoc store_bytes_upd_swap region_notin)
  also have "load_bytes m s k @ [m (s + of_nat k)] = load_bytes m s (Suc k)"
    by (simp add: load_bytes_def)
  finally show ?case .
qed simp

text \<open>Offsets inside an object that does not wrap around the address space.\<close>

lemma unat_add_offset:
  fixes a :: addr
  assumes "unat a + n \<le> 2 ^ 64" and "i < n"
  shows "unat (a + of_nat i) = unat a + i"
proof -
  have "i < 2 ^ LENGTH(64)" and "unat a + i < 2 ^ LENGTH(64)"
    using assms by simp_all
  then show ?thesis
    by (simp add: unat_of_nat unat_word_ariths)
qed

lemma memmove_store:
  assumes "unat src + unat n < 2 ^ 64" and "unat dst + unat n \<le> 2 ^ 64"
  shows "memmove m dst src n = store_bytes m dst (load_bytes m src (unat n))"
proof -
  have off: "unat (dst + of_nat i) = unat dst + i" "unat (src + of_nat i) = unat src + i"
    if "i < unat n" for i
    using assms that by (auto intro!: unat_add_offset[where n = "unat n"])
  have cast: "ucast n = (of_nat (unat n) :: addr)"
    by simp
  have "unat (src + ucast n) = unat src + unat n"
    using assms(1) by (simp add: unat_word_ariths unsigned_ucast_eq take_bit_nat_eq_self)
  then have ov: "dst < src + ucast n \<longleftrightarrow> unat dst < unat src + unat n"
    by (simp add: word_less_nat_alt)
  show ?thesis
  proof (cases "n = 0")
    case True
    then show ?thesis by (simp add: memmove_def)
  next
    case False
    show ?thesis
    proof (cases "src < dst \<and> dst < src + ucast n")
      case True
      have "dst + of_nat i \<noteq> src + of_nat j" if "j < i" "i < unat n" for i j
        using True that off[of i] off(2)[of j] by (auto simp: word_less_nat_alt)
      with True False show ?thesis
        using assms(1)
        by (simp add: memmove_def cast copy_down_store del: of_nat_unat)
    next
      case no: False
      have "dst + of_nat i \<noteq> src + of_nat j" if "i < j" "j < unat n" for i j
        using no ov that off(1)[of i] off(2)[of j] by (auto simp: word_less_nat_alt)
      with no False show ?thesis
        by (auto simp: memmove_def copy_up_store)
    qed
  qed
qed

lemma memmove_disjoint:
  assumes "region dst (unat n) \<inter> region src (unat n) = {}"
  shows "memmove m dst src n = store_bytes m dst (load_bytes m src (unat n))"
proof -
  have ne: "dst + of_nat i \<noteq> src + of_nat j" if "i < unat n" "j < unat n" for i j
    using assms that by (auto simp: region_def)
  have cast: "ucast n = (of_nat (unat n) :: addr)" by simp
  have "unat n < 2 ^ LENGTH(32)"
    by (rule unsigned_less)
  then have n: "unat n \<le> 2 ^ 64" by simp
  have "copy_up m dst src (unat n) = store_bytes m dst (load_bytes m src (unat n))"
    using ne by (intro copy_up_store) simp
  moreover have "copy_down m (dst + ucast n) (src + ucast n) (unat n) = store_bytes m dst (load_bytes m src (unat n))"
    unfolding cast using ne n by (intro copy_down_store) simp_all
  ultimately show ?thesis
    by (auto simp: memmove_def)
qed

lemma strlen_from_cstring:
  "cstring m (s + of_nat k) bs \<Longrightarrow> strlen_from m s k = Some (k + length bs)"
proof (induction bs arbitrary: k)
  case Nil
  then show ?case by (subst strlen_from.simps) simp
next
  case (Cons b bs)
  then have "strlen_from m s (Suc k) = Some (Suc k + length bs)"
    by (intro Cons.IH) (simp add: ac_simps)
  with Cons.prems show ?case by (subst strlen_from.simps) simp
qed

lemma strlen_cstring: "cstring m s bs \<Longrightarrow> strlen m s = Some (length bs)"
  using strlen_from_cstring[of m s 0 bs] by (simp add: strlen_def)

lemma strncmp_loop_0:
  "cstring m p xs \<Longrightarrow> cstring m q ys \<Longrightarrow> strncmp_loop m p q k = 0 \<longleftrightarrow> take k xs = take k ys"
proof (induction k arbitrary: p q xs ys)
  case (Suc k)
  then show ?case
    by (cases xs; cases ys) (auto simp: word_uint_eq_iff)
qed simp

lemma safestrcpy_loop_other:
  "x \<notin> region s (Suc k) \<Longrightarrow> safestrcpy_loop m s t k x = m x"
  by (induction k arbitrary: m s t) (auto simp: region_Suc)

lemma safestrcpy_loop_cstring:
  assumes "cstring m t bs" and "region s (Suc k) \<inter> region t (Suc (length bs)) = {}" and "k < 2 ^ 64 - 1"
  shows "cstring (safestrcpy_loop m s t k) s (take k bs)"
  using assms
proof (induction k arbitrary: m s t bs)
  case (Suc k)
  have s: "s \<notin> region (s + 1) (Suc k)"
    using region_notin_front[of "Suc k" s] Suc.prems(3) by simp
  show ?case
  proof (cases bs)
    case Nil
    with Suc.prems show ?thesis by simp
  next
    case (Cons b bs')
    let ?m = "m(s := m t)"
    have "cstring ?m (t + 1) bs' = cstring m (t + 1) bs'"
      using Suc.prems(2) by (intro cstring_cong) (auto simp: Cons region_Suc[of s] region_Suc[of t])
    then have "cstring (safestrcpy_loop ?m (s + 1) (t + 1) k) (s + 1) (take k bs')"
      using Suc.prems by (intro Suc.IH[where m = ?m]) (auto simp: fun_upd_def Cons region_Suc[of s] region_Suc[of t])
    then show ?thesis
      using Suc.prems(1) s by (simp add: Cons safestrcpy_loop_other)
  qed
qed (simp add: region_Suc)

lemma take_append_replicate: "take k (xs @ replicate (Suc k) z) = take k (xs @ replicate k z)"
  by (simp only: take_append take_replicate) (simp add: min_def)

lemma strncpy_pad_store: "strncpy_pad m s k = store_bytes m s (replicate k 0)"
  by (induction k arbitrary: m s) simp_all

lemma strncpy_loop_store:
  assumes "cstring m t bs" and "region s k \<inter> region t (Suc (length bs)) = {}"
  shows "strncpy_loop m s t k = store_bytes m s (take k (bs @ replicate k 0))"
  using assms
proof (induction k arbitrary: m s t bs)
  case (Suc k)
  show ?case
  proof (cases bs)
    case Nil
    with Suc.prems show ?thesis by (simp add: strncpy_pad_store)
  next
    case (Cons b bs')
    let ?m = "m(s := m t)"
    have "cstring ?m (t + 1) bs' = cstring m (t + 1) bs'"
      using Suc.prems(2) by (intro cstring_cong) (auto simp: Cons region_Suc[of s] region_Suc[of t])
    then have "strncpy_loop ?m (s + 1) (t + 1) k = store_bytes ?m (s + 1) (take k (bs' @ replicate k 0))"
      using Suc.prems by (intro Suc.IH[where m = ?m]) (auto simp: fun_upd_def Cons region_Suc[of s] region_Suc[of t])
    then show ?thesis
      using Suc.prems(1) by (simp add: Cons take_append_replicate del: replicate_Suc)
  qed
qed simp

section \<open>Properties\<close>

text \<open>Unfolding for concrete lengths.\<close>

lemma load_bytes_numeral: "load_bytes m a (numeral k) = m a # load_bytes m (a + 1) (pred_numeral k)"
  by (simp add: numeral_eq_Suc load_bytes_Cons)

lemma region_numeral: "region a (numeral k) = insert a (region (a + 1) (pred_numeral k))"
  by (simp add: numeral_eq_Suc region_Suc)

lemmas eval_mem = load_bytes_numeral region_numeral load_bytes_Cons load_bytes_0 region_Suc

text \<open>
  C9: \<^verbatim>\<open>memmove\<close> copies correctly also when the two regions overlap: afterwards the destination
  holds what the source held before the call, and no other byte has changed.
\<close>

theorem memmove_snapshot:
  assumes "unat src + unat n < 2 ^ 64" and "unat dst + unat n \<le> 2 ^ 64"
  shows "load_bytes (memmove m dst src n) dst (unat n) = load_bytes m src (unat n) \<and>
    (\<forall>x. x \<notin> region dst (unat n) \<longrightarrow> memmove m dst src n x = m x)"
proof -
  have "unat n < 2 ^ LENGTH(32)"
    by (rule unsigned_less)
  then have "length (load_bytes m src (unat n)) \<le> 2 ^ 64" by simp
  then show ?thesis
    using load_store_bytes[of "load_bytes m src (unat n)" m dst]
    by (simp add: memmove_store[OF assms] store_bytes_other)
qed

theorem memmove_snapshot_witness:
  "load_bytes (memmove ((\<lambda>_. 0)(100 := 97, 101 := 98)) 101 100 2) 101 2 = [97, 98] \<and>
   memmove ((\<lambda>_. 0)(100 := 97, 101 := 98)) 101 100 2 100 = 97"
  using memmove_snapshot[of 100 2 101 "(\<lambda>_. 0)(100 := 97, 101 := 98)"] by (simp add: eval_mem)

text \<open>
  C10: \<^verbatim>\<open>safestrcpy(s, t, n)\<close> always leaves a terminated string in \<open>s\<close>, the longest prefix of \<open>t\<close> that
  fits with its terminator into \<open>n\<close> bytes, and writes nothing outside these \<open>n\<close> bytes.
\<close>

theorem safestrcpy_bounded:
  assumes "0 < n" and "n < 2 ^ 31" and "cstring m t bs"
    and "region s (nat n) \<inter> region t (Suc (length bs)) = {}"
  shows "cstring (safestrcpy m s t n) s (take (nat n - 1) bs) \<and>
    (\<forall>x. x \<notin> region s (nat n) \<longrightarrow> safestrcpy m s t n x = m x)"
proof -
  have n: "nat n = Suc (nat (n - 1))" "nat (n - 1) < 2 ^ 64 - 1"
    using assms(1,2) by auto
  then show ?thesis
    using assms safestrcpy_loop_cstring[of m t bs s "nat (n - 1)"]
    by (simp add: safestrcpy_def safestrcpy_loop_other)
qed

theorem safestrcpy_bounded_witness:
  "cstring (safestrcpy ((\<lambda>_. 0)(200 := 104, 201 := 105, 202 := 33)) 100 200 3) 100 [104, 105] \<and>
   safestrcpy ((\<lambda>_. 0)(200 := 104, 201 := 105, 202 := 33)) 100 200 3 103 = 0"
  using safestrcpy_bounded[of 3 "(\<lambda>_. 0)(200 := 104, 201 := 105, 202 := 33)" 200 "[104, 105, 33]" 100]
  by (simp add: eval_mem)

end
