(* ===== verification/Xv6_Kmem.thy ===== *)
theory Xv6_Kmem
  imports Xv6_Riscv Xv6_String
begin

text \<open>
  \<^verbatim>\<open>kernel/kmem.c\<close>: the physical page allocator.  Free pages form a linked list threaded through
  the pages themselves (the first eight bytes of a free page point to the next one), with the head in
  \<^verbatim>\<open>klist\<close>.  The state is the physical memory and that head; it is the root of the extensible record
  that the other components add their globals to, so each operation here runs unchanged on a
  bigger kernel state.  The abstract view is the list of free pages (\<open>free_list\<close>), and the locale
  \<open>page_allocator\<close> states what clients of the allocator rely on.
\<close>

section \<open>State and operations\<close>

record phys =
  mem :: memory
  klist_next :: addr

text \<open>\<open>end_sym\<close> is the linker symbol \<^verbatim>\<open>end\<close>, the first address after the kernel image.\<close>

definition push_free :: "addr \<Rightarrow> 'a phys_scheme \<Rightarrow> 'a phys_scheme" where
  "push_free p s = s\<lparr>mem := store64 (mem s) p (klist_next s), klist_next := p\<rparr>"

partial_function (option) freerange_loop ::
    "addr \<Rightarrow> addr \<Rightarrow> 'a phys_scheme \<Rightarrow> 'a phys_scheme option" where
  "freerange_loop i pa_end s =
     (if i + PGSIZE \<le> pa_end then freerange_loop (i + PGSIZE) pa_end (push_free i s) else Some s)"

definition freerange :: "addr \<Rightarrow> addr \<Rightarrow> 'a phys_scheme \<Rightarrow> 'a phys_scheme option" where
  "freerange pa_start pa_end s = freerange_loop (PGROUNDUP pa_start) pa_end s"

definition kinit :: "addr \<Rightarrow> 'a phys_scheme \<Rightarrow> 'a phys_scheme option" where
  "kinit end_sym s = freerange end_sym PHYSTOP (s\<lparr>klist_next := 0\<rparr>)"

definition kalloc :: "'a phys_scheme \<Rightarrow> addr \<times> 'a phys_scheme" where
  "kalloc s =
     (let free = klist_next s in
      if free = 0 then (0, s) else (free, s\<lparr>klist_next := load64 (mem s) free\<rparr>))"

definition kfree :: "addr \<Rightarrow> 'a phys_scheme \<Rightarrow> 'a phys_scheme res" where
  "kfree pa s =
     (if pa mod PGSIZE \<noteq> 0 then Inl (Panic ''kfree's argument must 4k align\<newline>'')
      else Inr (push_free pa s))"

section \<open>The free list\<close>

fun free_list :: "memory \<Rightarrow> addr \<Rightarrow> addr list \<Rightarrow> bool" where
  "free_list m p [] \<longleftrightarrow> p = 0"
| "free_list m p (q # qs) \<longleftrightarrow> p = q \<and> p \<noteq> 0 \<and> page_aligned p \<and> free_list m (load64 m p) qs"

definition free_pages :: "'a phys_scheme \<Rightarrow> addr list \<Rightarrow> bool" where
  "free_pages s ps \<longleftrightarrow> free_list (mem s) (klist_next s) ps"

lemma free_list_unique: "free_list m p qs \<Longrightarrow> free_list m p rs \<Longrightarrow> qs = rs"
  by (induction m p qs arbitrary: rs rule: free_list.induct) (case_tac rs; auto)+

lemma free_list_append:
  "free_list m p (qs @ rs) \<Longrightarrow> \<exists>q. free_list m q rs"
  by (induction qs arbitrary: p) auto

lemma free_list_tail_notin: "free_list m p (p # qs) \<Longrightarrow> p \<notin> set qs"
proof
  assume l: "free_list m p (p # qs)" and "p \<in> set qs"
  then obtain xs ys where qs: "qs = xs @ p # ys"
    by (auto dest: split_list)
  with l have "free_list m (load64 m p) (xs @ p # ys)"
    by simp
  then obtain q where "free_list m q (p # ys)"
    by (blast dest: free_list_append)
  with l have "p # ys = p # qs"
    by (auto dest: free_list_unique)
  with qs show False by simp
qed

lemma free_list_distinct: "free_list m p qs \<Longrightarrow> distinct qs"
proof (induction qs arbitrary: p)
  case (Cons q qs)
  then show ?case
    using free_list_tail_notin[of m q qs] by auto
qed simp

lemma free_list_aligned: "free_list m p qs \<Longrightarrow> q \<in> set qs \<Longrightarrow> page_aligned q \<and> q \<noteq> 0"
  by (induction qs arbitrary: p) auto

lemma free_list_cong:
  assumes "\<And>q x. q \<in> set qs \<Longrightarrow> x \<in> region q 8 \<Longrightarrow> m x = m' x"
  shows "free_list m p qs = free_list m' p qs"
  using assms
proof (induction qs arbitrary: p)
  case (Cons q qs)
  have "load64 m q = load64 m' q"
    using Cons.prems by (intro load64_cong) (meson list.set_intros(1))
  moreover have "free_list m a qs = free_list m' a qs" for a
    using Cons.prems by (intro Cons.IH) (meson list.set_intros(2))
  ultimately show ?case by (cases "p = q") simp_all
qed simp

text \<open>A write confined to a page that is not free leaves the list alone.\<close>

lemma free_list_frame:
  assumes "free_list m p qs" and "\<And>x. PGROUNDDOWN x \<notin> T \<Longrightarrow> m x = m' x" and "T \<inter> set qs = {}"
  shows "free_list m' p qs"
proof -
  have "free_list m p qs = free_list m' p qs"
  proof (rule free_list_cong)
    fix q x assume q: "q \<in> set qs" and "x \<in> region q 8"
    moreover have "page_aligned q"
      using free_list_aligned[OF assms(1) q] by simp
    ultimately have "PGROUNDDOWN x = q"
      using region_page_sub[of q 0 8 x] by simp
    then show "m x = m' x"
      using assms(2,3) q by blast
  qed
  with assms(1) show ?thesis by simp
qed

lemma page_region_disjoint:
  "page_aligned p \<Longrightarrow> page_aligned q \<Longrightarrow> p \<noteq> q \<Longrightarrow> i + n \<le> 4096 \<Longrightarrow> j + k \<le> 4096 \<Longrightarrow>
   region (p + of_nat i) n \<inter> region (q + of_nat j) k = {}"
  using region_page_sub by blast

lemma push_free_list:
  assumes "free_pages s ps" and "page_aligned p" and "p \<noteq> 0" and "p \<notin> set ps"
  shows "free_pages (push_free p s) (p # ps)"
proof -
  have "free_list (store64 (mem s) p (klist_next s)) (klist_next s) ps"
  proof (rule free_list_frame[where T = "{p}"])
    fix x assume "PGROUNDDOWN x \<notin> {p}"
    then have "x \<notin> region p 8"
      using region_page_sub[OF assms(2), of 0 8 x] by auto
    then show "mem s x = store64 (mem s) p (klist_next s) x"
      by (simp add: store64_other)
  qed (use assms in \<open>auto simp: free_pages_def\<close>)
  with assms show ?thesis
    by (simp add: free_pages_def push_free_def)
qed

section \<open>The allocator's interface\<close>

locale page_allocator =
  fixes alloc :: "'s \<Rightarrow> addr \<times> 's"
    and release_page :: "addr \<Rightarrow> 's \<Rightarrow> 's res"
    and avail :: "'s \<Rightarrow> addr list \<Rightarrow> bool"
  assumes avail_unique: "avail s ps \<Longrightarrow> avail s qs \<Longrightarrow> ps = qs"
    and avail_distinct: "avail s ps \<Longrightarrow> distinct ps"
    and avail_page: "avail s ps \<Longrightarrow> p \<in> set ps \<Longrightarrow> page_aligned p \<and> p \<noteq> 0"
    and alloc_none: "avail s [] \<Longrightarrow> alloc s = (0, s)"
    and alloc_some: "avail s (p # ps) \<Longrightarrow> fst (alloc s) = p \<and> avail (snd (alloc s)) ps"
    and release_ok: "avail s ps \<Longrightarrow> page_aligned p \<Longrightarrow> p \<noteq> 0 \<Longrightarrow> p \<notin> set ps \<Longrightarrow>
      \<exists>s'. release_page p s = Inr s' \<and> avail s' (p # ps)"
    and release_unaligned: "\<not> page_aligned p \<Longrightarrow> \<exists>msg. release_page p s = Inl (Panic msg)"
begin

text \<open>Allocating \<open>n\<close> pages takes the first \<open>n\<close> of the free list, in order.\<close>

primrec alloc_many :: "nat \<Rightarrow> 's \<Rightarrow> addr list \<times> 's" where
  "alloc_many 0 s = ([], s)"
| "alloc_many (Suc n) s =
     (let (p, s1) = alloc s; (ps, s2) = alloc_many n s1 in (p # ps, s2))"

lemma alloc_many_take:
  "avail s ps \<Longrightarrow> n \<le> length ps \<Longrightarrow>
   fst (alloc_many n s) = take n ps \<and> avail (snd (alloc_many n s)) (drop n ps)"
proof (induction n arbitrary: s ps)
  case (Suc n)
  then obtain p qs where ps: "ps = p # qs"
    by (cases ps) auto
  then have "fst (alloc s) = p" and "avail (snd (alloc s)) qs"
    using alloc_some Suc.prems(1) by auto
  with Suc.IH[of "snd (alloc s)" qs] Suc.prems(2) show ?case
    by (simp add: ps Let_def case_prod_beta)
qed simp

lemma alloc_many_distinct:
  "avail s ps \<Longrightarrow> n \<le> length ps \<Longrightarrow> distinct (fst (alloc_many n s)) \<and> 0 \<notin> set (fst (alloc_many n s))"
  using alloc_many_take[of s ps n] avail_distinct[of s ps] avail_page[of s ps]
  by (metis distinct_take in_set_takeD)

lemma alloc_release:
  assumes "avail s (p # ps)"
  shows "\<exists>s'. release_page p (snd (alloc s)) = Inr s' \<and> avail s' (p # ps)"
proof -
  have "p \<notin> set ps" and "page_aligned p" and "p \<noteq> 0"
    using avail_distinct[OF assms] avail_page[OF assms, of p] by auto
  then show ?thesis
    using alloc_some[OF assms] release_ok by blast
qed

end

lemma kalloc_free_pages:
  "free_pages s (p # ps) \<Longrightarrow> fst (kalloc s) = p \<and> free_pages (snd (kalloc s)) ps"
  by (auto simp: kalloc_def free_pages_def)

interpretation klist: page_allocator kalloc kfree free_pages
proof
  show "free_pages s ps \<Longrightarrow> page_aligned p \<Longrightarrow> p \<noteq> 0 \<Longrightarrow> p \<notin> set ps \<Longrightarrow>
      \<exists>s'. kfree p s = Inr s' \<and> free_pages s' (p # ps)" for s :: "'a phys_scheme" and ps p
    by (simp add: kfree_def page_aligned_mod push_free_list)
  show "\<not> page_aligned p \<Longrightarrow> \<exists>msg. kfree p s = Inl (Panic msg)" for p and s :: "'a phys_scheme"
    by (simp add: kfree_def page_aligned_mod)
qed (auto simp: free_pages_def kalloc_def dest: free_list_unique free_list_distinct free_list_aligned)

section \<open>Initialisation\<close>

lemma freerange_loop_pages:
  assumes "page_aligned i" and "i \<noteq> 0" and "unat i + 4096 * n \<le> unat e" "unat e < unat i + 4096 * Suc n"
    and "unat e < 2 ^ 63" and "free_pages s ps" and "\<And>p. p \<in> set ps \<Longrightarrow> unat p < unat i"
  shows "\<exists>s' qs. freerange_loop i e s = Some s' \<and> free_pages s' (qs @ ps) \<and>
    set qs = {p. page_aligned p \<and> unat i \<le> unat p \<and> unat p + 4096 \<le> unat e}"
  using assms
proof (induction n arbitrary: i s ps)
  case 0
  have "unat (i + 4096) = unat i + 4096"
    using 0 by (simp add: unat_word_ariths)
  then have "\<not> i + 4096 \<le> e" and "\<And>p. \<not> (unat i \<le> unat p \<and> unat p + 4096 \<le> unat e)"
    using 0 by (auto simp: word_le_nat_alt)
  then show ?case
    using 0 by (subst freerange_loop.simps) (auto intro: exI[of _ "[]"])
next
  case (Suc n)
  have i': "unat (i + 4096) = unat i + 4096"
    using Suc.prems by (simp add: unat_word_ariths)
  then have le: "i + 4096 \<le> e"
    using Suc.prems by (simp add: word_le_nat_alt)
  have "i \<notin> set ps"
    using Suc.prems(7) by blast
  then have push: "free_pages (push_free i s) (i # ps)"
    using Suc.prems by (intro push_free_list) auto
  have "page_aligned (i + 4096)"
    using Suc.prems(1) i' by (simp add: page_aligned_unat)
  moreover have "i + 4096 \<noteq> 0"
    using i' by (metis add_is_0 unsigned_0 zero_neq_numeral)
  moreover have "unat p < unat (i + 4096)" if "p \<in> set (i # ps)" for p
    using that Suc.prems(7) i' by fastforce
  ultimately obtain s' qs where run: "freerange_loop (i + 4096) e (push_free i s) = Some s'"
    and qs: "free_pages s' (qs @ i # ps)"
    and set: "set qs = {p. page_aligned p \<and> unat (i + 4096) \<le> unat p \<and> unat p + 4096 \<le> unat e}"
    using Suc.IH[of "i + 4096" "push_free i s" "i # ps"] push Suc.prems i' by auto
  have "set (qs @ [i]) = {p. page_aligned p \<and> unat i \<le> unat p \<and> unat p + 4096 \<le> unat e}"
  proof -
    have "p = i" if p: "page_aligned p" "unat i \<le> unat p" "\<not> unat i + 4096 \<le> unat p" for p
    proof -
      obtain a b where "unat i = 4096 * a" and "unat p = 4096 * b"
        using Suc.prems(1) p(1) by (metis page_alignedE)
      with p(2,3) show ?thesis by (simp add: word_unat_eq_iff)
    qed
    then show ?thesis
      using set i' Suc.prems by auto
  qed
  moreover have "freerange_loop i e s = Some s'"
    using run le by (subst freerange_loop.simps) simp
  moreover have "free_pages s' ((qs @ [i]) @ ps)"
    using qs by simp
  ultimately show ?case by blast
qed

text \<open>
  C8: \<^verbatim>\<open>kinit\<close> terminates and leaves on the free list exactly the whole pages between the end of
  the kernel image and \<^verbatim>\<open>PHYSTOP\<close>.
\<close>

theorem kinit_pages:
  assumes "end_sym \<noteq> 0" and "end_sym \<le> PHYSTOP"
  shows "\<exists>s' ps. kinit end_sym s = Some s' \<and> free_pages s' ps \<and>
    set ps = {p. page_aligned p \<and> end_sym \<le> p \<and> p < PHYSTOP}"
proof -
  let ?i = "PGROUNDUP end_sym" and ?s = "s\<lparr>klist_next := 0\<rparr>"
  have e: "0 < unat end_sym" "unat end_sym \<le> 0x88000000"
    using assms by (simp_all add: unat_gt_0 word_le_nat_alt)
  then have i: "unat ?i = (unat end_sym + 4095) div 4096 * 4096"
    by (intro unat_PGROUNDUP) simp
  then have le: "unat ?i \<le> 0x88000000" "unat end_sym \<le> unat ?i" "?i \<noteq> 0"
    using e by (auto simp: word_unat_eq_iff)
  define n where "n = (0x88000000 - unat ?i) div 4096"
  have "unat ?i + 4096 * n \<le> 0x88000000" "0x88000000 < unat ?i + 4096 * Suc n"
    using le by (auto simp: n_def)
  then obtain s' qs where run: "freerange_loop ?i PHYSTOP ?s = Some s'"
    and free: "free_pages s' qs"
    and set: "set qs = {p. page_aligned p \<and> unat ?i \<le> unat p \<and> unat p + 4096 \<le> 0x88000000}"
    using freerange_loop_pages[of ?i n PHYSTOP ?s "[]"] le by (auto simp: free_pages_def)
  have "unat ?i \<le> unat p \<and> unat p + 4096 \<le> 0x88000000 \<longleftrightarrow> end_sym \<le> p \<and> p < PHYSTOP"
    if p: "page_aligned p" for p
  proof -
    obtain k where "unat p = 4096 * k"
      using p by (rule page_alignedE)
    moreover have "(unat end_sym + 4095) div 4096 \<le> k \<longleftrightarrow> unat end_sym \<le> 4096 * k"
      using div_less_iff_less_mult[of 4096 "unat end_sym + 4095" "Suc k"] by (simp add: less_Suc_eq_le) linarith
    moreover have "4096 * k + 4096 \<le> 0x88000000 \<longleftrightarrow> 4096 * k < 0x88000000"
      by auto
    moreover have "unat (PHYSTOP) = 0x88000000"
      by simp
    ultimately show ?thesis
      unfolding word_le_nat_alt word_less_nat_alt i by simp
  qed
  then have "set qs = {p. page_aligned p \<and> end_sym \<le> p \<and> p < PHYSTOP}"
    using set by blast
  with run free show ?thesis
    by (auto simp: kinit_def freerange_def)
qed

theorem kinit_pages_witness:
  "\<exists>s' ps. kinit 0x87FFE001 \<lparr>mem = (\<lambda>_. 0), klist_next = 5\<rparr> = Some s' \<and> free_pages s' ps \<and>
     0x87FFF000 \<in> set ps \<and> 0x87FFE000 \<notin> set ps"
proof -
  have "page_aligned 0x87FFF000"
    by (simp add: page_aligned_def take_bit_eq_mod)
  moreover obtain s' ps where "kinit 0x87FFE001 \<lparr>mem = (\<lambda>_. 0), klist_next = 5\<rparr> = Some s'"
    "free_pages s' ps" "set ps = {p. page_aligned p \<and> 0x87FFE001 \<le> p \<and> p < PHYSTOP}"
    using kinit_pages[of "0x87FFE001" "\<lparr>mem = (\<lambda>_. 0), klist_next = 5\<rparr>"] by auto
  ultimately show ?thesis
    by (intro exI[of _ s'] exI[of _ ps]) simp
qed

section \<open>Clients of the allocator\<close>

text \<open>
  The allocator together with its clients: \<open>H\<close> is the set of pages handed out and not given back.
  A client may overwrite the pages it holds, and gives back only those.
\<close>

inductive kmem_step :: "'a phys_scheme \<times> addr set \<Rightarrow> 'a phys_scheme \<times> addr set \<Rightarrow> bool" where
  take: "kalloc s = (p, s') \<Longrightarrow> p \<noteq> 0 \<Longrightarrow> kmem_step (s, H) (s', insert p H)"
| fail: "kalloc s = (0, s') \<Longrightarrow> kmem_step (s, H) (s', H)"
| give: "p \<in> H \<Longrightarrow> kfree p s = Inr s' \<Longrightarrow> kmem_step (s, H) (s', H - {p})"
| scribble: "(\<And>x. PGROUNDDOWN x \<notin> H \<Longrightarrow> m x = mem s x) \<Longrightarrow> kmem_step (s, H) (s\<lparr>mem := m\<rparr>, H)"

definition kmem_inv :: "addr set \<Rightarrow> 'a phys_scheme \<times> addr set \<Rightarrow> bool" where
  "kmem_inv P = (\<lambda>(s, H). \<exists>ps. free_pages s ps \<and> set ps \<inter> H = {} \<and> set ps \<union> H = P \<and>
     (\<forall>p\<in>H. page_aligned p \<and> p \<noteq> 0))"

lemma kmem_step_inv: "kmem_step c c' \<Longrightarrow> kmem_inv P c \<Longrightarrow> kmem_inv P c'"
proof (induction rule: kmem_step.induct)
  case (take s p s' H)
  then obtain ps where ps: "free_pages s ps" "set ps \<inter> H = {}" "set ps \<union> H = P"
      "\<forall>p\<in>H. page_aligned p \<and> p \<noteq> 0"
    by (auto simp: kmem_inv_def)
  then obtain qs where "ps = p # qs"
    using take klist.alloc_none[of s] klist.alloc_some[of s] by (cases ps) auto
  then show ?case
    using ps take klist.alloc_some[of s p qs] klist.avail_distinct[OF ps(1)] klist.avail_page[OF ps(1), of p]
    unfolding kmem_inv_def by (auto intro!: exI[of _ qs])
next
  case (fail s s' H)
  then obtain ps where ps: "free_pages s ps" "set ps \<inter> H = {}" "set ps \<union> H = P"
      "\<forall>p\<in>H. page_aligned p \<and> p \<noteq> 0"
    by (auto simp: kmem_inv_def)
  moreover have "s' = s"
    using fail by (auto simp: kalloc_def Let_def split: if_splits)
  ultimately show ?case by (auto simp: kmem_inv_def)
next
  case (give p H s s')
  then obtain ps where ps: "free_pages s ps" "set ps \<inter> H = {}" "set ps \<union> H = P"
      "\<forall>p\<in>H. page_aligned p \<and> p \<noteq> 0"
    by (auto simp: kmem_inv_def)
  then have "p \<notin> set ps" "page_aligned p" "p \<noteq> 0"
    using give(1) by auto
  then have "free_pages s' (p # ps)"
    using klist.release_ok[OF ps(1)] give(2) by fastforce
  then show ?case
    using ps give(1) unfolding kmem_inv_def by (auto intro!: exI[of _ "p # ps"])
next
  case (scribble H m s)
  then obtain ps where ps: "free_pages s ps" "set ps \<inter> H = {}" "set ps \<union> H = P"
      "\<forall>p\<in>H. page_aligned p \<and> p \<noteq> 0"
    by (auto simp: kmem_inv_def)
  have "free_list m (klist_next s) ps"
  proof (rule free_list_frame[where T = H])
    show "free_list (mem s) (klist_next s) ps"
      using ps(1) by (simp add: free_pages_def)
    show "mem s x = m x" if "PGROUNDDOWN x \<notin> H" for x
      using scribble(1) that by simp
  qed (use ps(2) in auto)
  then show ?case
    using ps unfolding kmem_inv_def by (auto simp: free_pages_def)
qed

text \<open>
  C1: whatever sequence of allocations, frees and writes to held pages the clients perform, the
  pages held and the pages free stay disjoint and together make up the initial pool, and \<^verbatim>\<open>kalloc\<close>
  never hands out a page that is already held; it fails only when the pool is exhausted.
\<close>

theorem kmem_no_double_alloc:
  assumes "kmem_step\<^sup>*\<^sup>* (s0, {}) (s, H)" and "free_pages s0 ps"
  shows "H \<subseteq> set ps \<and> (\<exists>qs. free_pages s qs \<and> set qs = set ps - H) \<and>
    (if H = set ps then fst (kalloc s) = 0 else fst (kalloc s) \<in> set ps - H)"
proof -
  have "kmem_inv (set ps) (s, H)"
    using assms(1)
  proof (induction rule: rtranclp_induct)
    case base
    then show ?case using assms(2) by (auto simp: kmem_inv_def)
  qed (rule kmem_step_inv)
  then obtain qs where qs: "free_pages s qs" "set qs \<inter> H = {}" "set qs \<union> H = set ps"
    by (auto simp: kmem_inv_def)
  then have sub: "H \<subseteq> set ps" and rest: "set qs = set ps - H"
    by auto
  have next_page: "if qs = [] then fst (kalloc s) = 0 else fst (kalloc s) \<in> set qs"
    using qs(1) klist.alloc_none[of s] klist.alloc_some[of s "hd qs" "tl qs"] by (cases qs) auto
  have "qs = [] \<longleftrightarrow> H = set ps"
    unfolding set_empty[of qs, symmetric] rest using sub by blast
  then show ?thesis
    using sub rest qs(1) next_page by (cases "qs = []") auto
qed

theorem kmem_no_double_alloc_witness:
  "fst (kalloc (snd (kalloc \<lparr>mem = store64 (\<lambda>_. 0) 0x1000 0x2000, klist_next = 0x1000\<rparr>))) \<in> {0x2000}"
proof -
  let ?s = "\<lparr>mem = store64 (\<lambda>_. 0) 0x1000 0x2000, klist_next = 0x1000\<rparr> :: phys"
  have load: "load64 (store64 (\<lambda>_. 0) 0x1000 0x2000) 0x2000 = 0"
    by (subst load64_store64_disjoint) (simp_all add: eval_mem load64_def)
  have "free_pages ?s [0x1000, 0x2000]"
    using load by (simp add: free_pages_def page_aligned_def take_bit_eq_mod)
  moreover have "kmem_step (?s, {}) (snd (kalloc ?s), insert 0x1000 {})"
    by (rule kmem_step.take) (simp_all add: kalloc_def)
  ultimately show ?thesis
    using kmem_no_double_alloc[of ?s "snd (kalloc ?s)" "{0x1000}" "[0x1000, 0x2000]"] by auto
qed

end
