(* ===== verification/Xv6_Vm.thy ===== *)
theory Xv6_Vm
  imports Xv6_Kmem
begin

text \<open>
  \<^verbatim>\<open>kernel/vm.c\<close>: three-level Sv39 page tables kept in physical memory, and the copies between
  kernel and user memory that go through them.  A page table is an address; its entries are read
  and written with \<open>load64\<close> and \<open>store64\<close> at the same places as in the code.  Loops whose bound is
  a wrapping comparison are \<open>partial_function\<close>s, where \<open>None\<close> is a loop that never ends.
\<close>

section \<open>Walking and mapping\<close>

text \<open>\<open>unhang\<close> turns a loop that never ends into the fault \<open>Hang\<close>.\<close>

definition unhang :: "'a res option \<Rightarrow> 'a res" where
  "unhang r = (case r of None \<Rightarrow> Inl Hang | Some x \<Rightarrow> x)"

lemma unhang_Inr: "unhang r = Inr x \<longleftrightarrow> r = Some (Inr x)"
  by (auto simp: unhang_def split: option.split)

primrec walk_from :: "nat \<Rightarrow> bool \<Rightarrow> addr \<Rightarrow> uint64 \<Rightarrow> 'a phys_scheme \<Rightarrow> addr \<times> 'a phys_scheme" where
  "walk_from 0 alloc pagetable va s = (pagetable + 8 * PX 0 va, s)"
| "walk_from (Suc i) alloc pagetable va s =
     (let pte = pagetable + 8 * PX (Suc i) va in
      if load64 (mem s) pte AND PTE_V \<noteq> 0
      then walk_from i alloc (PTE2PA (load64 (mem s) pte)) va s
      else if \<not> alloc then (0, s)
      else let (pg, s1) = kalloc s in
        if pg = 0 then (0, s1)
        else walk_from i alloc pg va
          (s1\<lparr>mem := store64 (memset (mem s1) pg 0 4096) pte (PA2PTE pg OR PTE_V)\<rparr>))"

definition walk :: "addr \<Rightarrow> uint64 \<Rightarrow> bool \<Rightarrow> 'a phys_scheme \<Rightarrow> addr \<times> 'a phys_scheme" where
  "walk pagetable va alloc s = walk_from 2 alloc pagetable va s"

definition walkaddr :: "addr \<Rightarrow> uint64 \<Rightarrow> 'a phys_scheme \<Rightarrow> uint64" where
  "walkaddr pagetable va s =
     (let (pte, s1) = walk pagetable va False s; e = load64 (mem s1) pte in
      if pte = 0 \<or> e AND PTE_V = 0 \<or> e AND PTE_U = 0 then 0 else PTE2PA e)"

partial_function (option) mappages_loop ::
    "addr \<Rightarrow> uint64 \<Rightarrow> uint64 \<Rightarrow> uint64 \<Rightarrow> uint64 \<Rightarrow> uint64 \<Rightarrow> 'a phys_scheme
      \<Rightarrow> (int \<times> 'a phys_scheme) res option" where
  "mappages_loop pagetable va lim pa perm v s =
     (if v + PGSIZE \<le> lim then
        let (pte, s1) = walk pagetable v True s in
        if pte = 0 then Some (Inr (-1, s1))
        else if load64 (mem s1) pte AND PTE_V \<noteq> 0 then Some (Inl (Panic ''mappages:remap''))
        else mappages_loop pagetable va lim pa perm (v + PGSIZE)
          (s1\<lparr>mem := store64 (mem s1) pte
             (PA2PTE (PGROUNDDOWN pa + v - PGROUNDDOWN va) OR perm OR PTE_V)\<rparr>)
      else Some (Inr (0, s)))"

definition mappages :: "addr \<Rightarrow> uint64 \<Rightarrow> uint64 \<Rightarrow> uint64 \<Rightarrow> uint64 \<Rightarrow> 'a phys_scheme
    \<Rightarrow> (int \<times> 'a phys_scheme) res" where
  "mappages pagetable va sz pa perm s =
     unhang (mappages_loop pagetable va (PGROUNDUP (va + sz - 1)) pa perm (PGROUNDDOWN va) s)"

text \<open>\<open>freewalk_from pt i\<close> is the loop of \<^verbatim>\<open>freewalk(pt)\<close> from entry \<open>i\<close> on, with the recursive
  calls inside it.\<close>

partial_function (option) freewalk_from ::
    "addr \<Rightarrow> nat \<Rightarrow> 'a phys_scheme \<Rightarrow> 'a phys_scheme res option" where
  "freewalk_from pagetable i s =
     (if i < 512 then
        let e = load64 (mem s) (pagetable + 8 * of_nat i) in
        if e AND PTE_V \<noteq> 0 \<and> e AND (PTE_R OR PTE_W OR PTE_X) = 0 then
          Option.bind (freewalk_from (PTE2PA e) 0 s)
            (\<lambda>r. case r of Inl f \<Rightarrow> Some (Inl f) | Inr s1 \<Rightarrow> freewalk_from pagetable (Suc i) s1)
        else if e AND PTE_V \<noteq> 0 then Some (Inl (Panic ''freewalk\<newline>''))
        else freewalk_from pagetable (Suc i) s
      else Some (kfree pagetable s))"

definition freewalk :: "addr \<Rightarrow> 'a phys_scheme \<Rightarrow> 'a phys_scheme res" where
  "freewalk pagetable s = unhang (freewalk_from pagetable 0 s)"

primrec uvmunmap_loop :: "addr \<Rightarrow> nat \<Rightarrow> bool \<Rightarrow> uint64 \<Rightarrow> 'a phys_scheme \<Rightarrow> 'a phys_scheme res" where
  "uvmunmap_loop pagetable 0 dofree va s = Inr s"
| "uvmunmap_loop pagetable (Suc n) dofree va s =
     (let (pte, s1) = walk pagetable va False s; e = load64 (mem s1) pte in
      if pte = 0 then Inl (Panic ''uvmunmap: pte'')
      else if e AND PTE_V = 0 then Inl (Panic ''uvmunmap: not mapped'')
      else if PTE_FLAGS e = PTE_V then Inl (Panic ''uvmunmap: not leaf'')
      else bnd (if dofree then kfree (PTE2PA e) s1 else Inr s1)
        (\<lambda>s2. uvmunmap_loop pagetable n dofree (va + PGSIZE)
           (s2\<lparr>mem := store64 (mem s2) pte 0\<rparr>)))"

definition uvmunmap :: "addr \<Rightarrow> uint64 \<Rightarrow> uint64 \<Rightarrow> bool \<Rightarrow> 'a phys_scheme \<Rightarrow> 'a phys_scheme res" where
  "uvmunmap pagetable va npages dofree s =
     (if va mod PGSIZE \<noteq> 0 then Inl (Panic ''uvmunmap\<newline>'')
      else uvmunmap_loop pagetable (unat npages) dofree va s)"

definition uvmfree :: "addr \<Rightarrow> uint64 \<Rightarrow> 'a phys_scheme \<Rightarrow> 'a phys_scheme res" where
  "uvmfree pagetable sz s =
     bnd (if sz > 0 then uvmunmap pagetable 0 (PGROUNDUP sz div PGSIZE) True s else Inr s)
       (freewalk pagetable)"

partial_function (option) uvmalloc_loop ::
    "addr \<Rightarrow> uint64 \<Rightarrow> uint64 \<Rightarrow> uint64 \<Rightarrow> 'a phys_scheme \<Rightarrow> (uint64 \<times> 'a phys_scheme) res option" where
  "uvmalloc_loop pagetable lim xperm va s =
     (if va < lim then
        let (pa, s1) = kalloc s in
        if pa = 0 then Some (Inr (va, s1))
        else case mappages pagetable va PGSIZE pa (PTE_R OR PTE_U OR xperm) s1 of
          Inl f \<Rightarrow> Some (Inl f)
        | Inr (r, s2) \<Rightarrow>
            if r \<noteq> 0 then Some (bnd (kfree pa s2) (\<lambda>s3. Inr (va, s3)))
            else uvmalloc_loop pagetable lim xperm (va + PGSIZE)
              (s2\<lparr>mem := memset (mem s2) pa 0 4096\<rparr>)
      else Some (Inr (va, s)))"

definition uvmalloc :: "addr \<Rightarrow> uint64 \<Rightarrow> uint64 \<Rightarrow> uint64 \<Rightarrow> 'a phys_scheme
    \<Rightarrow> (uint64 \<times> 'a phys_scheme) res" where
  "uvmalloc pagetable oldsz newsz xperm s =
     (if PGROUNDUP oldsz = PGROUNDUP newsz then Inr (oldsz, s)
      else unhang (uvmalloc_loop pagetable (PGROUNDUP newsz) xperm (PGROUNDUP oldsz) s))"

definition uvmdealloc :: "addr \<Rightarrow> uint64 \<Rightarrow> uint64 \<Rightarrow> 'a phys_scheme
    \<Rightarrow> (uint64 \<times> 'a phys_scheme) res" where
  "uvmdealloc pagetable oldsz newsz s =
     (if oldsz \<le> newsz then Inr (oldsz, s)
      else bnd (uvmunmap pagetable (PGROUNDUP newsz)
          ((PGROUNDUP oldsz - PGROUNDUP newsz) div PGSIZE) True s)
        (\<lambda>s1. Inr (newsz, s1)))"

text \<open>The label \<^verbatim>\<open>err\<close> of \<^verbatim>\<open>uvmcopy\<close>: undo the \<open>i / PGSIZE\<close> pages copied so far.\<close>

definition uvmcopy_err :: "addr \<Rightarrow> uint64 \<Rightarrow> 'a phys_scheme \<Rightarrow> (int \<times> 'a phys_scheme) res" where
  "uvmcopy_err new i s = bnd (uvmunmap new 0 (i div PGSIZE) True s) (\<lambda>s1. Inr (-1, s1))"

partial_function (option) uvmcopy_loop ::
    "addr \<Rightarrow> addr \<Rightarrow> uint64 \<Rightarrow> uint64 \<Rightarrow> 'a phys_scheme \<Rightarrow> (int \<times> 'a phys_scheme) res option" where
  "uvmcopy_loop old new sz i s =
     (if i < sz then
        let (pte, s1) = walk old i False s; e = load64 (mem s1) pte in
        if pte = 0 then Some (Inl (Panic ''uvmcopy:pte should exist''))
        else if e AND PTE_V = 0 then Some (Inl (Panic ''uvmcopy: page not present''))
        else let (pg, s2) = kalloc s1 in
          if pg = 0 then Some (uvmcopy_err new i s2)
          else case mappages new i PGSIZE pg (PTE_FLAGS e)
              (s2\<lparr>mem := memmove (mem s2) pg (PTE2PA e) 4096\<rparr>) of
            Inl f \<Rightarrow> Some (Inl f)
          | Inr (r, s3) \<Rightarrow>
              if r \<noteq> 0 then Some (bnd (kfree pg s3) (uvmcopy_err new i))
              else uvmcopy_loop old new sz (i + PGSIZE) s3
      else Some (Inr (0, s)))"

definition uvmcopy :: "addr \<Rightarrow> addr \<Rightarrow> uint64 \<Rightarrow> 'a phys_scheme \<Rightarrow> (int \<times> 'a phys_scheme) res" where
  "uvmcopy old new sz s = unhang (uvmcopy_loop old new sz 0 s)"

definition uvmclear :: "addr \<Rightarrow> uint64 \<Rightarrow> 'a phys_scheme \<Rightarrow> 'a phys_scheme res" where
  "uvmclear pagetable va s =
     (let (pte, s1) = walk pagetable va False s in
      if pte = 0 then Inl (Panic ''uvmclear'')
      else Inr (s1\<lparr>mem := store64 (mem s1) pte (load64 (mem s1) pte AND NOT PTE_U)\<rparr>))"

section \<open>Copies between kernel and user memory\<close>

text \<open>
  The kernel-side buffer of \<^verbatim>\<open>copyin\<close> and \<^verbatim>\<open>copyinstr\<close> is a result: the bytes stored from \<open>dst\<close> on, in
  order, also when the copy fails half way.  The kernel-side buffer of \<^verbatim>\<open>copyout\<close> is the list of
  its bytes.  \<open>chunk\<close> is \<open>n\<close> of the three loops: the bytes left in the page, capped by the
  bytes left to copy.
\<close>

definition chunk :: "uint64 \<Rightarrow> uint64 \<Rightarrow> uint64" where
  "chunk va len =
     (let n = PGSIZE - (va - PGROUNDDOWN va) in if n > len then len else n)"

lemma unat_chunk: "unat (chunk va len) = min (unat len) (4096 - unat va mod 4096)"
proof -
  have "PGROUNDDOWN va \<le> va" by (simp add: word_le_nat_alt unat_PGROUNDDOWN)
  then have "unat (va - PGROUNDDOWN va) = unat va mod 4096"
    by (simp add: unat_sub unat_PGROUNDDOWN minus_div_mult_eq_mod)
  then have "unat (PGSIZE - (va - PGROUNDDOWN va)) = 4096 - unat va mod 4096"
    by (subst unat_sub) (auto simp: word_le_nat_alt less_imp_le)
  then show ?thesis
    by (auto simp: chunk_def Let_def word_less_nat_alt)
qed

lemma chunk_bounds: "0 < len \<Longrightarrow> 0 < chunk va len" "chunk va len \<le> len"
  by (auto simp: word_less_nat_alt word_le_nat_alt unat_chunk word_gt_0)

lemma chunk_decr: "len \<noteq> 0 \<Longrightarrow> unat (len - chunk va len) < unat len"
  using chunk_bounds(1)[of len va] chunk_bounds(2)[of va len] by (simp add: unat_sub word_less_nat_alt word_gt_0 unat_gt_0)

function copyin :: "addr \<Rightarrow> uint64 \<Rightarrow> uint64 \<Rightarrow> 'a phys_scheme \<Rightarrow> int \<times> uint8 list" where
  "copyin pagetable srcva len s =
     (if len = 0 then (0, [])
      else let va0 = PGROUNDDOWN srcva; pa0 = walkaddr pagetable va0 s in
        if pa0 = 0 then (-1, [])
        else let n = chunk srcva len;
                 (r, bs) = copyin pagetable (va0 + PGSIZE) (len - n) s in
          (r, load_bytes (mem s) (pa0 + srcva - va0) (unat n) @ bs))"
  by pat_completeness auto
termination by (relation "measure (\<lambda>(_, _, len, _). unat len)") (auto simp: chunk_decr)

text \<open>The inner loop of \<^verbatim>\<open>copyinstr\<close>: up to \<open>n\<close> bytes from \<open>p\<close>; whether a NUL was met, and the
  bytes written, the NUL included.\<close>

primrec copyinstr_page :: "memory \<Rightarrow> addr \<Rightarrow> nat \<Rightarrow> bool \<times> uint8 list" where
  "copyinstr_page m p 0 = (False, [])"
| "copyinstr_page m p (Suc n) =
     (if m p = 0 then (True, [0])
      else let (got_null, bs) = copyinstr_page m (p + 1) n in (got_null, m p # bs))"

function copyinstr :: "addr \<Rightarrow> uint64 \<Rightarrow> uint64 \<Rightarrow> 'a phys_scheme \<Rightarrow> int \<times> uint8 list" where
  "copyinstr pagetable srcva maxlen s =
     (if maxlen = 0 then (-1, [])
      else let va0 = PGROUNDDOWN srcva; pa0 = walkaddr pagetable va0 s in
        if pa0 = 0 then (-1, [])
        else let n = chunk srcva maxlen;
                 (got_null, bs) = copyinstr_page (mem s) (pa0 + (srcva - va0)) (unat n) in
          if got_null then (0, bs)
          else let (r, bs') = copyinstr pagetable (va0 + PGSIZE) (maxlen - n) s in (r, bs @ bs'))"
  by pat_completeness auto
termination by (relation "measure (\<lambda>(_, _, maxlen, _). unat maxlen)") (auto simp: chunk_decr)

function copyout :: "addr \<Rightarrow> uint64 \<Rightarrow> uint8 list \<Rightarrow> uint64 \<Rightarrow> 'a phys_scheme
    \<Rightarrow> int \<times> 'a phys_scheme" where
  "copyout pagetable dstva src len s =
     (if len = 0 then (0, s)
      else let va0 = PGROUNDDOWN dstva; pa0 = walkaddr pagetable va0 s in
        if pa0 = 0 then (-1, s)
        else let n = chunk dstva len in
          copyout pagetable (va0 + PGSIZE) (drop (unat n) src) (len - n)
            (s\<lparr>mem := store_bytes (mem s) (pa0 + (dstva - va0)) (take (unat n) src)\<rparr>))"
  by pat_completeness auto
termination by (relation "measure (\<lambda>(_, _, _, len, _). unat len)") (auto simp: chunk_decr)

declare copyin.simps [simp del] copyinstr.simps [simp del] copyout.simps [simp del]

section \<open>The kernel page table\<close>

record vmst = phys +
  kernel_pagetable :: addr
  csr :: csrs

primrec proc_mapstacks_loop :: "nat list \<Rightarrow> addr \<Rightarrow> 'a phys_scheme \<Rightarrow> 'a phys_scheme res" where
  "proc_mapstacks_loop [] kpgtbl s = Inr s"
| "proc_mapstacks_loop (i # is) kpgtbl s =
     (let (stack, s1) = kalloc s in
      if stack = 0 then Inl OutOfBounds
      else bnd (mappages kpgtbl (KSTACK i) PGSIZE stack (PTE_R OR PTE_W)
            (s1\<lparr>mem := memset (mem s1) stack 0 4096\<rparr>))
        (\<lambda>(_, s2). proc_mapstacks_loop is kpgtbl s2))"

definition proc_mapstacks :: "addr \<Rightarrow> 'a phys_scheme \<Rightarrow> 'a phys_scheme res" where
  "proc_mapstacks kpgtbl s = proc_mapstacks_loop [0..<N_PROC] kpgtbl s"

text \<open>The linker symbols \<^verbatim>\<open>etext\<close> and \<^verbatim>\<open>trampoline\<close> are arguments.\<close>

definition kvmmake :: "addr \<Rightarrow> addr \<Rightarrow> 'a vmst_scheme \<Rightarrow> (addr \<times> 'a vmst_scheme) res" where
  "kvmmake etext trampoline s = (let k = kernel_pagetable s in
     bnd (mappages k UART0 PGSIZE UART0 (PTE_R OR PTE_W) s) (\<lambda>(_, s).
     bnd (mappages k VIRTIO0 PGSIZE VIRTIO0 (PTE_R OR PTE_W) s) (\<lambda>(_, s).
     bnd (mappages k PLIC 0x400000 PLIC (PTE_R OR PTE_W) s) (\<lambda>(_, s).
     bnd (mappages k KERNBASE (etext - KERNBASE) KERNBASE (PTE_R OR PTE_X) s) (\<lambda>(_, s).
     bnd (mappages k etext (PHYSTOP - etext) etext (PTE_R OR PTE_W OR PTE_X OR PTE_V) s) (\<lambda>(_, s).
     bnd (mappages k TRAMPOLINE PGSIZE trampoline (PTE_R OR PTE_X) s) (\<lambda>(_, s).
     bnd (proc_mapstacks k s) (\<lambda>s. Inr (k, s)))))))))"

definition kvminit :: "addr \<Rightarrow> addr \<Rightarrow> 'a vmst_scheme \<Rightarrow> 'a vmst_scheme res" where
  "kvminit etext trampoline s =
     (let (k, s1) = kalloc s in
      if k = 0 then Inl OutOfBounds
      else bnd (kvmmake etext trampoline
            (s1\<lparr>kernel_pagetable := k, mem := memset (mem s1) k 0 4096\<rparr>))
        (\<lambda>(_, s2). Inr (s2\<lparr>csr := w_satp (MAKE_SATP (kernel_pagetable s2)) (csr s2)\<rparr>)))"

end
