(* ===== verification/Xv6_Pagetable.thy ===== *)
theory Xv6_Pagetable
  imports Xv6_Vm
begin

text \<open>
  The shape of the page tables that \<^verbatim>\<open>kernel/vm.c\<close> builds, and what its operations do to it.  The
  three-level trees rooted at a set of pages \<open>R\<close> are described by the table found at each path of
  indices (\<open>tbl\<close>); \<open>pt_wf\<close> says that these tables are distinct aligned pages and that the upper levels
  hold only pointers to tables.  The abstract
  view of one tree is \<open>leaf\<close>, the page-table entry of each virtual page number.  The lemmas show
  that \<open>walk\<close> changes no entry, that \<open>mappages\<close> is a function update, and which pages each
  operation takes from the allocator.
\<close>

section \<open>Tables and entries\<close>

definition pte_at :: "addr \<Rightarrow> nat \<Rightarrow> addr" where
  "pte_at t i = t + 8 * of_nat i"

definition entry :: "memory \<Rightarrow> addr \<Rightarrow> nat \<Rightarrow> addr option" where
  "entry m t i = (let e = load64 m (pte_at t i) in if e AND PTE_V \<noteq> 0 then Some (PTE2PA e) else None)"

fun tbl :: "memory \<Rightarrow> addr \<Rightarrow> nat list \<Rightarrow> addr option" where
  "tbl m r [] = Some r"
| "tbl m r (i # is) = Option.bind (entry m r i) (\<lambda>t. tbl m t is)"

definition paths :: "nat list set" where
  "paths = {p. length p \<le> 2 \<and> set p \<subseteq> {..<512}}"

definition tables :: "memory \<Rightarrow> addr set \<Rightarrow> addr set" where
  "tables m R = {t. \<exists>r\<in>R. \<exists>p\<in>paths. tbl m r p = Some t}"

text \<open>An entry of an upper-level table: unused, or a pointer to the next level (no R, W or X bit).\<close>

definition dir_entry :: "uint64 \<Rightarrow> bool" where
  "dir_entry e \<longleftrightarrow> e AND PTE_V = 0 \<or> e AND (PTE_R OR PTE_W OR PTE_X) = 0"

definition pt_wf :: "memory \<Rightarrow> addr set \<Rightarrow> bool" where
  "pt_wf m R \<longleftrightarrow> (\<forall>t\<in>tables m R. page_aligned t \<and> t \<noteq> 0) \<and>
     (\<forall>r\<in>R. \<forall>r'\<in>R. \<forall>p\<in>paths. \<forall>p'\<in>paths. \<forall>t.
        tbl m r p = Some t \<longrightarrow> tbl m r' p' = Some t \<longrightarrow> r = r' \<and> p = p') \<and>
     (\<forall>r\<in>R. \<forall>p i t. p @ [i] \<in> paths \<longrightarrow> tbl m r p = Some t \<longrightarrow> dir_entry (load64 m (pte_at t i)))"

text \<open>The path of a virtual page number and its entry.\<close>

definition vpath :: "nat \<Rightarrow> nat list" where
  "vpath n = [n div 2 ^ 18 mod 512, n div 2 ^ 9 mod 512]"

definition leaf :: "memory \<Rightarrow> addr \<Rightarrow> nat \<Rightarrow> uint64" where
  "leaf m r n =
     (case tbl m r (vpath n) of None \<Rightarrow> 0 | Some t \<Rightarrow> load64 m (pte_at t (n mod 512)))"

definition vpn :: "uint64 \<Rightarrow> nat" where
  "vpn va = unat va div 4096"

lemma paths_Nil [simp]: "[] \<in> paths"
  by (simp add: paths_def)

lemma paths_snoc: "p @ [i] \<in> paths \<longleftrightarrow> length p < 2 \<and> p \<in> paths \<and> i < 512"
  by (auto simp: paths_def)

lemma vpath_paths [simp]: "vpath n \<in> paths"
  by (simp add: vpath_def paths_def)

lemma length_vpath [simp]: "length (vpath n) = 2"
  by (simp add: vpath_def)

lemma tbl_append: "tbl m r (p @ q) = Option.bind (tbl m r p) (\<lambda>t. tbl m t q)"
  by (induction p arbitrary: r) (auto split: bind_splits)

lemma tbl_snoc: "tbl m r (p @ [i]) = Option.bind (tbl m r p) (\<lambda>t. entry m t i)"
  by (simp add: tbl_append)

lemma vpn_split_inject:
  assumes "n < 2 ^ 27" "n' < 2 ^ 27" "vpath n = vpath n'" "n mod 512 = n' mod 512"
  shows "n = n'"
proof -
  have *: "k = k div 2 ^ 18 mod 512 * 2 ^ 18 + k div 2 ^ 9 mod 512 * 2 ^ 9 + k mod 512"
    if "k < 2 ^ 27" for k :: nat
  proof -
    have top: "k div 2 ^ 18 mod 512 = k div 2 ^ 18"
      using that by (intro mod_less less_mult_imp_div_less) simp
    have "k = k div 2 ^ 18 * 2 ^ 18 + k mod 2 ^ 18"
      by (rule div_mult_mod_eq[symmetric])
    also have "k mod 2 ^ 18 = 2 ^ 9 * (k div 2 ^ 9 mod 2 ^ 9) + k mod 2 ^ 9"
      using mod_mult2_eq[of k "2 ^ 9" "2 ^ 9"] by simp
    finally show ?thesis using top by simp
  qed
  have "n div 2 ^ 18 mod 512 = n' div 2 ^ 18 mod 512" "n div 2 ^ 9 mod 512 = n' div 2 ^ 9 mod 512"
    using assms(3) by (simp_all add: vpath_def)
  then show ?thesis
    using *[OF assms(1)] *[OF assms(2)] assms(4) by metis
qed

lemma PX_vpn: "PX 2 va = of_nat (vpn va div 2 ^ 18 mod 512)"
  "PX (Suc 0) va = of_nat (vpn va div 2 ^ 9 mod 512)" "PX 0 va = of_nat (vpn va mod 512)"
  by (simp_all add: word_unat_eq_iff unat_PX unat_of_nat vpn_def div_mult2_eq[symmetric])

lemma tablesI: "r \<in> R \<Longrightarrow> p \<in> paths \<Longrightarrow> tbl m r p = Some t \<Longrightarrow> t \<in> tables m R"
  by (auto simp: tables_def)

lemma pt_wf_page: "pt_wf m R \<Longrightarrow> r \<in> R \<Longrightarrow> p \<in> paths \<Longrightarrow> tbl m r p = Some t \<Longrightarrow> page_aligned t \<and> t \<noteq> 0"
  by (auto simp: pt_wf_def tables_def)

lemma pt_wf_inj: "pt_wf m R \<Longrightarrow> r \<in> R \<Longrightarrow> r' \<in> R \<Longrightarrow> p \<in> paths \<Longrightarrow> p' \<in> paths \<Longrightarrow>
    tbl m r p = Some t \<Longrightarrow> tbl m r' p' = Some t \<Longrightarrow> r = r' \<and> p = p'"
  unfolding pt_wf_def by blast

lemma pte_at_region: "page_aligned t \<Longrightarrow> i < 512 \<Longrightarrow> x \<in> region (pte_at t i) 8 \<Longrightarrow> PGROUNDDOWN x = t"
  using region_page_sub[of t "8 * i" 8 x] by (simp add: pte_at_def)

lemma pte_at_nonzero: "page_aligned t \<Longrightarrow> t \<noteq> 0 \<Longrightarrow> i < 512 \<Longrightarrow> pte_at t i \<noteq> 0"
  using PGROUNDDOWN_offset[of t "8 * i"] by (auto simp: pte_at_def PGROUNDDOWN_alt)

lemma pte_at_disjoint:
  assumes "page_aligned t" "i < 512" "j < 512" "i \<noteq> j"
  shows "region (pte_at t i) 8 \<inter> region (pte_at t j) 8 = {}"
proof -
  have "8 * i + a = 8 * j + b \<Longrightarrow> a < 8 \<Longrightarrow> b < 8 \<Longrightarrow> False" for a b
    using assms(4) by arith
  moreover have "t + of_nat (8 * i + a) = t + of_nat (8 * j + b) \<longleftrightarrow> 8 * i + a = 8 * j + b"
    if "a < 8" "b < 8" for a b
    using assms that by (simp only: add_left_cancel) (rule of_nat_u64_inj; simp)
  ultimately show ?thesis
    by (fastforce simp: region_def pte_at_def add.assoc)
qed

lemma load64_page_cong:
  "page_aligned t \<Longrightarrow> i < 512 \<Longrightarrow> (\<And>x. PGROUNDDOWN x = t \<Longrightarrow> m x = m' x) \<Longrightarrow>
   load64 m (pte_at t i) = load64 m' (pte_at t i)"
  by (rule load64_cong) (use pte_at_region in blast)

lemma entry_cong:
  "load64 m (pte_at t i) = load64 m' (pte_at t i) \<Longrightarrow> entry m t i = entry m' t i"
  by (simp add: entry_def)

section \<open>Writes outside the tables\<close>

lemma tbl_frame:
  assumes "pt_wf m R" and "\<And>x. PGROUNDDOWN x \<in> tables m R \<Longrightarrow> m' x = m x" and "r \<in> R" and "p \<in> paths"
  shows "tbl m' r p = tbl m r p"
  using assms(4)
proof (induction p rule: rev_induct)
  case (snoc i p)
  then have p: "p \<in> paths" "length p < 2" "i < 512" and IH: "tbl m' r p = tbl m r p"
    by (simp_all add: paths_snoc)
  show ?case
  proof (cases "tbl m r p")
    case (Some t)
    then have "page_aligned t"
      using pt_wf_page[OF assms(1,3) p(1)] by blast
    then have "load64 m' (pte_at t i) = load64 m (pte_at t i)"
      using assms(2) tablesI[OF assms(3) p(1) Some] p(3) by (intro load64_page_cong) auto
    then show ?thesis by (simp add: tbl_snoc IH Some entry_def)
  qed (simp add: tbl_snoc IH)
qed simp

lemma leaf_frame:
  assumes "pt_wf m R" and "\<And>x. PGROUNDDOWN x \<in> tables m R \<Longrightarrow> m' x = m x" and "r \<in> R"
  shows "leaf m' r n = leaf m r n"
proof (cases "tbl m r (vpath n)")
  case (Some t)
  then have "page_aligned t" "t \<in> tables m R"
    using pt_wf_page[OF assms(1,3) vpath_paths] tablesI[OF assms(3) vpath_paths] by simp_all
  then have "load64 m' (pte_at t (n mod 512)) = load64 m (pte_at t (n mod 512))"
    using assms(2) by (intro load64_page_cong) auto
  then show ?thesis by (simp add: leaf_def tbl_frame[OF assms] Some)
qed (simp add: leaf_def tbl_frame[OF assms])

lemma tables_cong: "(\<And>r p. r \<in> R \<Longrightarrow> p \<in> paths \<Longrightarrow> tbl m' r p = tbl m r p) \<Longrightarrow> tables m' R = tables m R"
  by (auto simp: tables_def)

lemma pt_wf_cong:
  assumes wf: "pt_wf m R" and tbl: "\<And>r p. r \<in> R \<Longrightarrow> p \<in> paths \<Longrightarrow> tbl m' r p = tbl m r p"
    and dir: "\<And>r p i t. r \<in> R \<Longrightarrow> p @ [i] \<in> paths \<Longrightarrow> tbl m r p = Some t \<Longrightarrow>
      load64 m' (pte_at t i) = load64 m (pte_at t i)"
  shows "pt_wf m' R"
proof -
  have tables: "tables m' R = tables m R"
    using tbl by (rule tables_cong)
  show ?thesis
    unfolding pt_wf_def tables
  proof (intro conjI ballI allI impI)
    fix r p i t assume *: "r \<in> R" "p @ [i] \<in> paths" "tbl m' r p = Some t"
    then have "tbl m r p = Some t"
      using tbl by (simp add: paths_snoc)
    with * show "dir_entry (load64 m' (pte_at t i))"
      using dir wf by (auto simp: pt_wf_def)
  qed (use wf tbl in \<open>auto simp: pt_wf_def\<close>)
qed

lemma pt_wf_frame:
  assumes wf: "pt_wf m R" and same: "\<And>x. PGROUNDDOWN x \<in> tables m R \<Longrightarrow> m' x = m x"
  shows "pt_wf m' R"
proof (rule pt_wf_cong[OF wf])
  show "tbl m' r p = tbl m r p" if "r \<in> R" "p \<in> paths" for r p
    using tbl_frame[OF wf same that] by blast
  show "load64 m' (pte_at t i) = load64 m (pte_at t i)"
    if "r \<in> R" "p @ [i] \<in> paths" "tbl m r p = Some t" for r p i t
    using that pt_wf_page[OF wf, of r p t] tablesI[of r R p m t] same
    by (intro load64_page_cong) (auto simp: paths_snoc)
qed

section \<open>Writing a leaf entry\<close>

lemma store_leaf_other_page:
  "page_aligned t \<Longrightarrow> i < 512 \<Longrightarrow> PGROUNDDOWN x \<noteq> t \<Longrightarrow> store64 m (pte_at t i) w x = m x"
  by (rule store64_other) (use pte_at_region in blast)

lemma tbl_store_leaf:
  assumes wf: "pt_wf m R" and r: "r \<in> R" and q: "tbl m r q = Some t" "q \<in> paths" "length q = 2"
    and i: "i < 512" and r': "r' \<in> R" and p: "p \<in> paths"
  shows "tbl (store64 m (pte_at t i) w) r' p = tbl m r' p"
  using p
proof (induction p rule: rev_induct)
  case (snoc j p)
  let ?m = "store64 m (pte_at t i) w"
  from snoc have p: "p \<in> paths" "length p < 2" "j < 512" and IH: "tbl ?m r' p = tbl m r' p"
    by (simp_all add: paths_snoc)
  show ?case
  proof (cases "tbl m r' p")
    case (Some t')
    have pages: "page_aligned t" "page_aligned t'"
      using pt_wf_page[OF wf r q(2,1)] pt_wf_page[OF wf r' p(1) Some] by simp_all
    have "t' \<noteq> t"
      using pt_wf_inj[OF wf r' r p(1) q(2) Some] q p(2) by auto
    then have "load64 ?m (pte_at t' j) = load64 m (pte_at t' j)"
      using pages p(3) i by (intro load64_page_cong) (auto intro: store_leaf_other_page)
    then show ?thesis by (simp add: tbl_snoc IH Some entry_def)
  qed (simp add: tbl_snoc IH)
qed simp

lemma pt_wf_store_leaf:
  assumes "pt_wf m R" "r \<in> R" "tbl m r (vpath n) = Some t"
  shows "pt_wf (store64 m (pte_at t (n mod 512)) w) R"
    and "tables (store64 m (pte_at t (n mod 512)) w) R = tables m R"
proof -
  have *: "tbl (store64 m (pte_at t (n mod 512)) w) r' p = tbl m r' p" if "r' \<in> R" "p \<in> paths" for r' p
    by (rule tbl_store_leaf[OF assms _ _ _ that]) simp_all
  show "pt_wf (store64 m (pte_at t (n mod 512)) w) R"
  proof (rule pt_wf_cong[OF assms(1) *])
    fix r' p i t' assume p: "r' \<in> R" "p @ [i] \<in> paths" "tbl m r' p = Some t'"
    have "t' \<noteq> t"
      using pt_wf_inj[OF assms(1) p(1) assms(2) _ vpath_paths p(3)] p(2) assms(3)
      by (auto simp: paths_snoc)
    then show "load64 (store64 m (pte_at t (n mod 512)) w) (pte_at t' i) = load64 m (pte_at t' i)"
      using p pt_wf_page[OF assms(1) p(1) _ p(3)] pt_wf_page[OF assms(1,2) vpath_paths assms(3)]
      by (intro load64_page_cong) (auto simp: paths_snoc intro!: store_leaf_other_page)
  qed
  show "tables (store64 m (pte_at t (n mod 512)) w) R = tables m R"
    using tables_cong[OF *] by blast
qed

lemma leaf_store_leaf:
  assumes wf: "pt_wf m R" and r: "r \<in> R" "r' \<in> R" and t: "tbl m r (vpath n) = Some t"
    and n: "n < 2 ^ 27" "n' < 2 ^ 27"
  shows "leaf (store64 m (pte_at t (n mod 512)) w) r' n' = (if r' = r \<and> n' = n then w else leaf m r' n')"
proof (cases "r' = r \<and> n' = n")
  case True
  have "tbl (store64 m (pte_at t (n mod 512)) w) r (vpath n) = Some t"
    by (simp add: tbl_store_leaf[OF wf r(1) t _ _ _ r(1)] t)
  with True show ?thesis
    by (simp add: leaf_def)
next
  case False
  let ?m = "store64 m (pte_at t (n mod 512)) w"
  have tbl: "tbl ?m r' (vpath n') = tbl m r' (vpath n')"
    by (simp add: tbl_store_leaf[OF wf r(1) t _ _ _ r(2)])
  have "load64 ?m (pte_at t' (n' mod 512)) = load64 m (pte_at t' (n' mod 512))"
    if t': "tbl m r' (vpath n') = Some t'" for t'
  proof (cases "t' = t")
    case True
    then have "r' = r" "vpath n' = vpath n"
      using pt_wf_inj[OF wf r(2,1) vpath_paths vpath_paths t'] t by simp_all
    then have "n' mod 512 \<noteq> n mod 512"
      using False vpn_split_inject[OF n(2,1)] by blast
    moreover have "page_aligned t"
      using pt_wf_page[OF wf r(1) _ t] by simp
    ultimately show ?thesis
      unfolding True by (intro load64_store64_disjoint pte_at_disjoint) simp_all
  next
    case neq: False
    have "page_aligned t" "page_aligned t'"
      using pt_wf_page[OF wf r(1) _ t] pt_wf_page[OF wf r(2) _ t'] by simp_all
    with neq show ?thesis
      by (intro load64_page_cong) (auto intro: store_leaf_other_page)
  qed
  then have "leaf ?m r' n' = leaf m r' n'"
    by (cases "tbl m r' (vpath n')") (simp_all add: leaf_def tbl)
  with False show ?thesis by auto
qed

section \<open>Adding a table\<close>

lemma load64_zero_page:
  assumes "page_aligned pg" "i < 512"
  shows "load64 (memset m pg 0 4096) (pte_at pg i) = 0"
proof -
  have "load_bytes (memset m pg 0 4096) (pte_at pg i) 8 = replicate 8 0"
  proof (rule nth_equalityI)
    fix j assume j: "j < length (load_bytes (memset m pg 0 4096) (pte_at pg i) 8)"
    then have "pte_at pg i + of_nat j \<in> region (pte_at pg i) 8"
      by (auto simp: region_def)
    then have "pte_at pg i + of_nat j \<in> region pg 4096"
      using assms pte_at_region region_page by blast
    then show "load_bytes (memset m pg 0 4096) (pte_at pg i) 8 ! j = replicate 8 0 ! j"
      using j by (simp add: memset_apply)
  qed simp
  moreover have "le_word (replicate 8 0) = (0 :: uint64)"
    by (simp add: numeral_eq_Suc)
  ultimately show ?thesis by (simp add: load64_def)
qed

lemma PTE_V_bit [simp]: "(e OR 1) AND 1 \<noteq> (0 :: uint64)"
  by (simp add: bit.conj_disj_distrib2)

lemma PA2PTE_V [simp]: "page_aligned pg \<Longrightarrow> PTE2PA (PA2PTE pg OR 1) = pg"
  by (rule PTE2PA_PA2PTE) simp_all

lemma dir_entry_link [simp]: "dir_entry (PA2PTE pg OR 1)" "dir_entry 0"
proof -
  have "(PA2PTE pg OR PTE_V) AND (PTE_R OR PTE_W OR PTE_X) = 0"
    by (rule bit_word_eqI) (simp only: PA2PTE_def bit_and_iff bit_or_iff bit_push_bit_iff bit_1_iff, auto)
  then show "dir_entry (PA2PTE pg OR 1)" "dir_entry 0"
    by (simp_all add: dir_entry_def)
qed

lemma entry_link:
  assumes "page_aligned t" "page_aligned pg" "pg \<noteq> t" "i < 512" "j < 512"
    and m': "m' = store64 (memset m pg 0 4096) (pte_at t i) (PA2PTE pg OR PTE_V)"
  shows "page_aligned t' \<Longrightarrow> t' \<noteq> pg \<Longrightarrow> t' \<noteq> t \<or> j \<noteq> i \<Longrightarrow>
      load64 m' (pte_at t' j) = load64 m (pte_at t' j)"
    and "load64 m' (pte_at t i) = PA2PTE pg OR PTE_V"
    and "load64 m' (pte_at pg j) = 0"
proof -
  have memset: "memset m pg 0 4096 x = m x" if "PGROUNDDOWN x \<noteq> pg" for x
    using that assms(2) region_page by (intro memset_other) auto
  show "load64 m' (pte_at t' j) = load64 m (pte_at t' j)"
    if t': "page_aligned t'" "t' \<noteq> pg" "t' \<noteq> t \<or> j \<noteq> i"
  proof -
    have "load64 m' (pte_at t' j) = load64 (memset m pg 0 4096) (pte_at t' j)"
    proof (cases "t' = t")
      case True
      then show ?thesis
        unfolding m' using assms(1,4,5) t' by (simp add: load64_store64_disjoint pte_at_disjoint)
    next
      case False
      then show ?thesis
        unfolding m' using assms(1,4,5) t'(1)
        by (intro load64_page_cong) (auto intro: store_leaf_other_page)
    qed
    also have "\<dots> = load64 m (pte_at t' j)"
      using t' assms(5) memset by (intro load64_page_cong) auto
    finally show ?thesis .
  qed
  show "load64 m' (pte_at t i) = PA2PTE pg OR PTE_V"
    by (simp add: m')
  have "load64 m' (pte_at pg j) = load64 (memset m pg 0 4096) (pte_at pg j)"
    unfolding m' using assms(1-5)
    by (intro load64_page_cong) (auto intro: store_leaf_other_page)
  then show "load64 m' (pte_at pg j) = 0"
    using assms by (simp add: load64_zero_page)
qed

lemma tbl_link:
  assumes wf: "pt_wf m R" and r: "r \<in> R" and q: "tbl m r q = Some t" "q @ [i] \<in> paths"
    and none: "entry m t i = None" and pg: "page_aligned pg" "pg \<notin> tables m R"
    and m': "m' = store64 (memset m pg 0 4096) (pte_at t i) (PA2PTE pg OR PTE_V)"
    and r': "r' \<in> R" and p: "p \<in> paths"
  shows "tbl m' r' p = (if r' = r \<and> p = q @ [i] then Some pg else tbl m r' p)"
  using p
proof (induction p rule: rev_induct)
  case (snoc j p)
  have qp: "q \<in> paths" "i < 512"
    using q(2) by (simp_all add: paths_snoc)
  have t: "page_aligned t" "pg \<noteq> t"
    using pt_wf_page[OF wf r qp(1) q(1)] tablesI[OF r qp(1) q(1)] pg by auto
  from snoc have p: "p \<in> paths" "length p < 2" "j < 512"
    and IH: "tbl m' r' p = (if r' = r \<and> p = q @ [i] then Some pg else tbl m r' p)"
    by (simp_all add: paths_snoc)
  note link = entry_link[OF t(1) pg(1) t(2) qp(2) p(3) m']
  consider (new) "r' = r" "p = q @ [i]" | (gone) "\<not> (r' = r \<and> p = q @ [i])" "tbl m r' p = None"
    | (old) t' where "\<not> (r' = r \<and> p = q @ [i])" "tbl m r' p = Some t'" by blast
  then show ?case
  proof cases
    case new
    then have *: "tbl m r' p = None" "tbl m' r' p = Some pg" "p @ [j] \<noteq> q @ [i]"
      using none IH by (simp_all add: tbl_snoc[of _ _ q] q(1))
    moreover have "entry m' pg j = None"
      using link(3) by (simp add: entry_def)
    ultimately show ?thesis
      by (simp add: tbl_snoc)
  next
    case gone
    then show ?thesis using q(1) by (auto simp: IH tbl_snoc)
  next
    case old
    have t': "page_aligned t'" "t' \<noteq> pg"
      using pt_wf_page[OF wf r' p(1) old(2)] tablesI[OF r' p(1) old(2)] pg by auto
    have p': "tbl m' r' p = Some t'"
      using old by (auto simp: IH)
    show ?thesis
    proof (cases "t' = t \<and> j = i")
      case True
      then have "r' = r" "p = q"
        using pt_wf_inj[OF wf r' r p(1) qp(1) old(2)] q(1) by auto
      moreover have "entry m' t i = Some pg"
        using link(2) pg(1) by (simp add: entry_def)
      ultimately show ?thesis
        using p' True by (simp add: tbl_snoc)
    next
      case False
      then have "entry m' t' j = entry m t' j"
        using link(1)[OF t'] by (intro entry_cong) blast
      moreover have "\<not> (r' = r \<and> p = q \<and> j = i)"
        using False old q(1) by auto
      ultimately show ?thesis
        using old p' by (auto simp: tbl_snoc)
    qed
  qed
qed simp

lemma link_frame:
  assumes "page_aligned t" "page_aligned pg" "i < 512" "PGROUNDDOWN x \<noteq> t" "PGROUNDDOWN x \<noteq> pg"
  shows "store64 (memset m pg 0 4096) (pte_at t i) w x = m x"
proof -
  have "memset m pg 0 4096 x = m x"
    using assms(2,5) region_page by (intro memset_other) auto
  with assms show ?thesis
    by (simp add: store_leaf_other_page)
qed

lemma link_wf:
  assumes wf: "pt_wf m R" and r: "r \<in> R" and q: "tbl m r q = Some t" "q @ [i] \<in> paths"
    and none: "entry m t i = None" and pg: "page_aligned pg" "pg \<notin> tables m R" and pg0: "pg \<noteq> 0"
    and m': "m' = store64 (memset m pg 0 4096) (pte_at t i) (PA2PTE pg OR PTE_V)"
  shows "tables m' R = insert pg (tables m R)" and "pt_wf m' R"
    and "\<And>r' n. r' \<in> R \<Longrightarrow> leaf m' r' n = leaf m r' n"
proof -
  note tbl' = tbl_link[OF wf r q none pg m']
  have qi: "q \<in> paths" "i < 512" "length q < 2"
    using q(2) by (simp_all add: paths_snoc)
  have t: "page_aligned t" "pg \<noteq> t"
    using pt_wf_page[OF wf r qi(1) q(1)] tablesI[OF r qi(1) q(1)] pg by auto
  have gone: "tbl m r (q @ [i]) = None"
    by (simp add: tbl_snoc q(1) none)
  show tables: "tables m' R = insert pg (tables m R)"
  proof (intro equalityI subsetI)
    fix u assume "u \<in> tables m' R"
    then obtain r' p where "r' \<in> R" "p \<in> paths" "tbl m' r' p = Some u"
      by (auto simp: tables_def)
    then show "u \<in> insert pg (tables m R)"
      by (auto simp: tbl' tables_def split: if_splits)
  next
    fix u assume "u \<in> insert pg (tables m R)"
    then obtain r' p where "r' \<in> R" "p \<in> paths" "tbl m' r' p = Some u"
    proof (rule insertE)
      assume "u \<in> tables m R"
      then obtain r' p where p: "r' \<in> R" "p \<in> paths" "tbl m r' p = Some u"
        by (auto simp: tables_def)
      then have "\<not> (r' = r \<and> p = q @ [i])"
        using gone by auto
      with p show ?thesis by (intro that) (auto simp: tbl')
    qed (use r q(2) tbl' in \<open>auto intro: that\<close>)
    then show "u \<in> tables m' R" by (auto intro: tablesI)
  qed
  show "pt_wf m' R"
    unfolding pt_wf_def tables
  proof (intro conjI ballI allI impI)
    fix t assume "t \<in> insert pg (tables m R)"
    then show "page_aligned t" "t \<noteq> 0"
      using wf pg(1) pg0 by (auto simp: pt_wf_def)
  next
    fix r1 r2 p1 p2 u
    assume *: "r1 \<in> R" "r2 \<in> R" "p1 \<in> paths" "p2 \<in> paths" "tbl m' r1 p1 = Some u" "tbl m' r2 p2 = Some u"
    have "r1 = r2 \<and> p1 = p2"
      using * tablesI[OF *(1,3), of m] tablesI[OF *(2,4), of m] pt_wf_inj[OF wf *(1-4), of u] pg(2)
      by (auto simp: tbl' split: if_splits)
    then show "r1 = r2" "p1 = p2" by auto
  next
    fix r' p j u assume *: "r' \<in> R" "p @ [j] \<in> paths" "tbl m' r' p = Some u"
    then have j: "j < 512" and p: "p \<in> paths"
      by (simp_all add: paths_snoc)
    note link = entry_link[OF t(1) pg(1) t(2) qi(2) j m']
    have "u = pg \<or> tbl m r' p = Some u"
      using tbl'[OF *(1) p] *(3) by (cases "r' = r \<and> p = q @ [i]") simp_all
    then consider "u = pg" | "u = t" "j = i" | (old) "tbl m r' p = Some u" "u \<noteq> t \<or> j \<noteq> i" "u \<noteq> pg"
      by blast
    then show "dir_entry (load64 m' (pte_at u j))"
    proof cases
      case old
      have "page_aligned u"
        using pt_wf_page[OF wf *(1) p old(1)] by simp
      then have "load64 m' (pte_at u j) = load64 m (pte_at u j)"
        using link(1) old by blast
      then show ?thesis
        using wf * old(1) by (auto simp: pt_wf_def)
    qed (simp_all add: link)
  qed
  fix r' n assume r': "r' \<in> R"
  note link = entry_link[OF t(1) pg(1) t(2) qi(2) _ m', of "n mod 512"]
  show "leaf m' r' n = leaf m r' n"
  proof (cases "r' = r \<and> vpath n = q @ [i]")
    case True
    then show ?thesis using link(3) gone r q(2) by (simp add: leaf_def tbl')
  next
    case False
    then have same: "tbl m' r' (vpath n) = tbl m r' (vpath n)"
      using r' by (auto simp: tbl')
    show ?thesis
    proof (cases "tbl m r' (vpath n)")
      case (Some u)
      have "u \<noteq> t"
        using pt_wf_inj[OF wf r' r vpath_paths qi(1) Some] q(1) qi(3) by fastforce
      moreover have "page_aligned u" "u \<noteq> pg"
        using pt_wf_page[OF wf r' vpath_paths Some] tablesI[OF r' vpath_paths Some] pg by auto
      ultimately show ?thesis
        using link(1)[of u] by (simp add: leaf_def same Some)
    qed (simp add: leaf_def same)
  qed
qed

section \<open>Walking\<close>

text \<open>The pages the allocator still has, and the tables, are disjoint.\<close>

definition vm_ok :: "'a phys_scheme \<Rightarrow> addr set \<Rightarrow> addr list \<Rightarrow> bool" where
  "vm_ok s R ps \<longleftrightarrow> free_pages s ps \<and> pt_wf (mem s) R \<and> tables (mem s) R \<inter> set ps = {}"

text \<open>From \<open>s\<close> to \<open>s'\<close> the pages \<open>qs\<close> were taken from the free list; only tables and these
  pages were written.\<close>

definition vm_take :: "addr set \<Rightarrow> 'a phys_scheme \<Rightarrow> addr list \<Rightarrow> 'a phys_scheme \<Rightarrow> bool" where
  "vm_take R s qs s' \<longleftrightarrow> tables (mem s') R \<subseteq> tables (mem s) R \<union> set qs \<and>
     tables (mem s) R \<subseteq> tables (mem s') R \<and> phys.more s' = phys.more s \<and>
     (\<forall>x. PGROUNDDOWN x \<notin> tables (mem s) R \<union> set qs \<longrightarrow> mem s' x = mem s x)"

lemma vm_take_refl [simp]: "vm_take R s [] s"
  by (simp add: vm_take_def)

lemma vm_take_trans:
  assumes "vm_take R s qs s1" and "vm_take R s1 qs' s2"
  shows "vm_take R s (qs @ qs') s2"
proof -
  let ?t = "\<lambda>s. tables (mem s) R"
  have sub: "?t s1 \<subseteq> ?t s \<union> set qs" "?t s \<subseteq> ?t s1" "?t s2 \<subseteq> ?t s1 \<union> set qs'" "?t s1 \<subseteq> ?t s2"
    and frame: "\<And>x. PGROUNDDOWN x \<notin> ?t s \<union> set qs \<Longrightarrow> mem s1 x = mem s x"
      "\<And>x. PGROUNDDOWN x \<notin> ?t s1 \<union> set qs' \<Longrightarrow> mem s2 x = mem s1 x"
    and more: "phys.more s2 = phys.more s"
    using assms by (auto simp: vm_take_def)
  have "mem s2 x = mem s x" if x: "PGROUNDDOWN x \<notin> ?t s \<union> set (qs @ qs')" for x
  proof -
    have "PGROUNDDOWN x \<notin> ?t s \<union> set qs" "PGROUNDDOWN x \<notin> ?t s1 \<union> set qs'"
      using x sub(1) by auto
    with frame show ?thesis by simp
  qed
  with sub more show ?thesis
    unfolding vm_take_def by auto
qed

text \<open>\<open>walk\<close> without allocation only looks up.\<close>

lemma walk_from_lookup:
  "walk_from 2 False r va s =
     (case tbl (mem s) r (vpath (vpn va)) of None \<Rightarrow> 0 | Some t \<Rightarrow> pte_at t (vpn va mod 512), s)"
  by (simp add: numeral_2_eq_2 vpath_def entry_def Let_def pte_at_def PX_vpn
      PX_vpn(1)[unfolded numeral_2_eq_2] split: option.split)

lemma walk_lookup:
  assumes "pt_wf (mem s) R" "r \<in> R" "walk r va False s = (pte, s1)"
  shows "s1 = s" and "pte = 0 \<Longrightarrow> leaf (mem s) r (vpn va) = 0"
    and "pte \<noteq> 0 \<Longrightarrow> tbl (mem s) r (vpath (vpn va)) = Some (pte - 8 * of_nat (vpn va mod 512)) \<and>
      load64 (mem s) pte = leaf (mem s) r (vpn va)"
proof -
  have "pte_at t (vpn va mod 512) \<noteq> 0" if "tbl (mem s) r (vpath (vpn va)) = Some t" for t
    using pt_wf_page[OF assms(1,2) vpath_paths that] by (simp add: pte_at_nonzero)
  then show "s1 = s" and "pte = 0 \<Longrightarrow> leaf (mem s) r (vpn va) = 0"
    and "pte \<noteq> 0 \<Longrightarrow> tbl (mem s) r (vpath (vpn va)) = Some (pte - 8 * of_nat (vpn va mod 512)) \<and>
      load64 (mem s) pte = leaf (mem s) r (vpn va)"
    using assms(3) by (auto simp: walk_def walk_from_lookup leaf_def pte_at_def split: option.splits)
qed

lemma walkaddr_leaf:
  assumes "pt_wf (mem s) R" "r \<in> R"
  shows "walkaddr r va s = (let e = leaf (mem s) r (vpn va) in
    if e AND PTE_V = 0 \<or> e AND PTE_U = 0 then 0 else PTE2PA e)"
proof -
  obtain pte s1 where w: "walk r va False s = (pte, s1)" by fastforce
  show ?thesis
    using walk_lookup[OF assms w] by (cases "pte = 0") (auto simp: walkaddr_def w Let_def)
qed

lemma kalloc_cases:
  assumes "free_pages s ps"
  obtains (none) "ps = []" "kalloc s = (0, s)"
  | (some) p qs where "ps = p # qs" "kalloc s = (p, s\<lparr>klist_next := load64 (mem s) p\<rparr>)"
      "free_pages (s\<lparr>klist_next := load64 (mem s) p\<rparr>) qs" "p \<noteq> 0" "page_aligned p" "p \<notin> set qs"
proof (cases ps)
  case Nil
  with assms none show ?thesis by (simp add: free_pages_def kalloc_def)
next
  case (Cons p qs)
  moreover have "p \<notin> set qs"
    using klist.avail_distinct[OF assms] Cons by simp
  ultimately show ?thesis
    using assms by (intro some) (auto simp: free_pages_def kalloc_def)
qed

text \<open>A missing table is one allocated page, linked in zeroed.\<close>

lemma vm_ok_link:
  assumes ok: "vm_ok s R (p # ps)" and r: "r \<in> R" and q: "tbl (mem s) r q = Some t" "q @ [i] \<in> paths"
    and none: "entry (mem s) t i = None"
    and s': "s' = s\<lparr>klist_next := load64 (mem s) p,
      mem := store64 (memset (mem s) p 0 4096) (pte_at t i) (PA2PTE p OR PTE_V)\<rparr>"
  shows "vm_ok s' R ps" "vm_take R s [p] s'" "tbl (mem s') r (q @ [i]) = Some p"
    "\<And>r' n. r' \<in> R \<Longrightarrow> leaf (mem s') r' n = leaf (mem s) r' n"
proof -
  have wf: "pt_wf (mem s) R" and free: "free_pages s (p # ps)"
    and disj: "tables (mem s) R \<inter> set (p # ps) = {}"
    using ok by (simp_all add: vm_ok_def)
  then have p: "page_aligned p" "p \<noteq> 0" "p \<notin> tables (mem s) R" "p \<notin> set ps"
    using klist.avail_page[OF free, of p] klist.avail_distinct[OF free] by auto
  have m': "mem s' = store64 (memset (mem s) p 0 4096) (pte_at t i) (PA2PTE p OR PTE_V)"
    by (simp add: s')
  note link = link_wf[OF wf r q none p(1,3,2) m']
  show leaf: "leaf (mem s') r' n = leaf (mem s) r' n" if "r' \<in> R" for r' n
    using link(3) that by blast
  show "tbl (mem s') r (q @ [i]) = Some p"
    using tbl_link[OF wf r q none p(1,3) m' r q(2)] by simp
  have qi: "q \<in> paths" "i < 512"
    using q(2) by (simp_all add: paths_snoc)
  have t: "page_aligned t" "t \<in> tables (mem s) R"
    using pt_wf_page[OF wf r qi(1) q(1)] tablesI[OF r qi(1) q(1)] by auto
  have frame: "mem s' x = mem s x" if "PGROUNDDOWN x \<notin> tables (mem s) R \<union> {p}" for x
    unfolding m' using that t p qi by (intro link_frame) auto
  have next': "klist_next s' = load64 (mem s) p" and fl: "free_list (mem s) (load64 (mem s) p) ps"
    using free by (auto simp: free_pages_def s')
  have "(tables (mem s) R \<union> {p}) \<inter> set ps = {}"
    using disj p(4) by auto
  then have "free_list (mem s') (klist_next s') ps"
    unfolding next' by (rule free_list_frame[OF fl, rotated]) (rule frame[symmetric])
  then show "vm_ok s' R ps"
    using link(1,2) disj p(4) by (auto simp: vm_ok_def free_pages_def)
  show "vm_take R s [p] s'"
    unfolding vm_take_def using link(1) frame s' by simp blast
qed

lemma PX_vpath: "l < 2 \<Longrightarrow> PX (Suc l) va = of_nat (vpath (vpn va) ! (1 - l))"
  by (cases l) (auto simp: vpath_def PX_vpn numeral_2_eq_2 PX_vpn(1)[unfolded numeral_2_eq_2] less_Suc_eq)

lemma walk_from_alloc:
  assumes "vm_ok s R ps" and r: "r \<in> R" and "l \<le> 2"
    and "tbl (mem s) r (take (2 - l) (vpath (vpn va))) = Some t"
    and "walk_from l True t va s = (pte, s1)"
  shows "\<exists>qs ps'. ps = qs @ ps' \<and> length qs \<le> l \<and> vm_ok s1 R ps' \<and> vm_take R s qs s1 \<and>
    (\<forall>r'\<in>R. \<forall>n. leaf (mem s1) r' n = leaf (mem s) r' n) \<and>
    (if pte = 0 then ps' = []
     else \<exists>u. tbl (mem s1) r (vpath (vpn va)) = Some u \<and> pte = pte_at u (vpn va mod 512))"
  using assms(1,3-)
proof (induction l arbitrary: s ps t)
  case 0
  have "page_aligned t" "t \<noteq> 0"
    using 0 pt_wf_page[of "mem s" R r "vpath (vpn va)" t] r by (simp_all add: vm_ok_def)
  with 0 show ?case
    by (intro exI[of _ "[]"] exI[of _ ps]) (auto simp: PX_vpn pte_at_def[symmetric] pte_at_nonzero)
next
  case (Suc l)
  let ?v = "vpath (vpn va)" and ?i = "vpath (vpn va) ! (1 - l)"
  have take: "take (2 - l) ?v = take (2 - Suc l) ?v @ [?i]"
    using Suc.prems(2) by (cases l) (simp_all add: vpath_def numeral_2_eq_2)
  have path: "take (2 - Suc l) ?v @ [?i] \<in> paths"
    unfolding take[symmetric] using vpath_paths[of "vpn va"] by (auto simp: paths_def dest: in_set_takeD)
  have PX: "t + 8 * PX (Suc l) va = pte_at t ?i"
    using Suc.prems(2) by (simp add: PX_vpath pte_at_def)
  let ?e = "load64 (mem s) (pte_at t ?i)"
  show ?case
  proof (cases "?e AND PTE_V = 0")
    case False
    then have "entry (mem s) t ?i = Some (PTE2PA ?e)"
      by (simp add: entry_def)
    then have "tbl (mem s) r (take (2 - l) ?v) = Some (PTE2PA ?e)"
      unfolding take using Suc.prems(3) by (simp add: tbl_snoc)
    then obtain qs ps' where "ps = qs @ ps'" "length qs \<le> l" "vm_ok s1 R ps'" "vm_take R s qs s1"
      "\<forall>r'\<in>R. \<forall>n. leaf (mem s1) r' n = leaf (mem s) r' n"
      "if pte = 0 then ps' = []
       else \<exists>u. tbl (mem s1) r ?v = Some u \<and> pte = pte_at u (vpn va mod 512)"
      using Suc.IH[OF Suc.prems(1)] Suc.prems False by (auto simp: PX)
    then show ?thesis
      using le_SucI by blast
  next
    case True
    then have none: "entry (mem s) t ?i = None"
      by (simp add: entry_def)
    have "free_pages s ps"
      using Suc.prems(1) by (simp add: vm_ok_def)
    then show ?thesis
    proof (cases rule: kalloc_cases)
      case none
      then show ?thesis
        using Suc.prems(1,4) True by (intro exI[of _ "[]"]) (simp add: PX)
    next
      case (some p qs)
      define s' where s': "s' = s\<lparr>klist_next := load64 (mem s) p,
        mem := store64 (memset (mem s) p 0 4096) (pte_at t ?i) (PA2PTE p OR PTE_V)\<rparr>"
      note link = vm_ok_link[OF Suc.prems(1)[unfolded some(1)] r Suc.prems(3) path none s']
      have "walk_from l True p va s' = (pte, s1)"
        using Suc.prems(4) True some by (simp add: PX s')
      then obtain qs' ps' where *: "qs = qs' @ ps'" "vm_ok s1 R ps'" "vm_take R s' qs' s1"
        "\<forall>r'\<in>R. \<forall>n. leaf (mem s1) r' n = leaf (mem s') r' n" "length qs' \<le> l"
        "if pte = 0 then ps' = []
         else \<exists>u. tbl (mem s1) r ?v = Some u \<and> pte = pte_at u (vpn va mod 512)"
        using Suc.IH[OF link(1) _ link(3)[folded take]] Suc.prems(2) by auto
      have "vm_take R s (p # qs') s1"
        using vm_take_trans[OF link(2) *(3)] by simp
      then show ?thesis
        using * link(4) some(1) by (intro exI[of _ "p # qs'"] exI[of _ ps']) simp
    qed
  qed
qed

lemma walk_alloc:
  assumes "vm_ok s R ps" and "r \<in> R" and "walk r va True s = (pte, s1)"
  obtains qs ps' where "ps = qs @ ps'" "length qs \<le> 2" "vm_ok s1 R ps'" "vm_take R s qs s1"
    "\<And>r' n. r' \<in> R \<Longrightarrow> leaf (mem s1) r' n = leaf (mem s) r' n" "pte = 0 \<Longrightarrow> ps' = []"
    "pte \<noteq> 0 \<Longrightarrow> \<exists>u. tbl (mem s1) r (vpath (vpn va)) = Some u \<and> pte = pte_at u (vpn va mod 512)"
  using walk_from_alloc[OF assms(1,2), of 2 va r pte s1] assms(3) unfolding walk_def
  by (auto split: if_splits)

section \<open>Mapping\<close>

lemma vm_ok_store_leaf:
  assumes ok: "vm_ok s R ps" and r: "r \<in> R" and t: "tbl (mem s) r (vpath n) = Some t" and n: "n < 2 ^ 27"
    and s': "s' = s\<lparr>mem := store64 (mem s) (pte_at t (n mod 512)) w\<rparr>"
  shows "vm_ok s' R ps" "vm_take R s [] s'" "tables (mem s') R = tables (mem s) R"
    and "\<And>r' n'. r' \<in> R \<Longrightarrow> n' < 2 ^ 27 \<Longrightarrow>
      leaf (mem s') r' n' = (if r' = r \<and> n' = n then w else leaf (mem s) r' n')"
proof -
  have wf: "pt_wf (mem s) R" and free: "free_list (mem s) (klist_next s) ps"
    and disj: "tables (mem s) R \<inter> set ps = {}"
    using ok by (simp_all add: vm_ok_def free_pages_def)
  have page: "page_aligned t" "t \<in> tables (mem s) R"
    using pt_wf_page[OF wf r vpath_paths t] tablesI[OF r vpath_paths t] by simp_all
  have m': "mem s' = store64 (mem s) (pte_at t (n mod 512)) w"
    and s'_other: "klist_next s' = klist_next s" "phys.more s' = phys.more s"
    by (simp_all add: s')
  note wf' = pt_wf_store_leaf[OF wf r t, of w]
  show tables: "tables (mem s') R = tables (mem s) R"
    unfolding m' by (rule wf'(2))
  have frame: "mem s x = mem s' x" if "PGROUNDDOWN x \<notin> tables (mem s) R" for x
    unfolding m' using page that by (subst store_leaf_other_page) auto
  have "free_list (mem s') (klist_next s') ps"
    unfolding s'_other by (rule free_list_frame[OF free frame disj])
  then show "vm_ok s' R ps"
    using wf'(1) disj by (simp add: vm_ok_def free_pages_def tables flip: m')
  show "vm_take R s [] s'"
    using frame by (simp add: vm_take_def tables s'_other)
  show "leaf (mem s') r' n' = (if r' = r \<and> n' = n then w else leaf (mem s) r' n')"
    if "r' \<in> R" "n' < 2 ^ 27" for r' n'
    unfolding m' by (rule leaf_store_leaf[OF wf r that(1) t n that(2)])
qed

text \<open>The entry \<^verbatim>\<open>mappages(pt, va, sz, pa, perm)\<close> writes for page number \<open>n\<close>.\<close>

definition map_pte :: "uint64 \<Rightarrow> uint64 \<Rightarrow> uint64 \<Rightarrow> nat \<Rightarrow> uint64" where
  "map_pte va pa perm n =
     PA2PTE (PGROUNDDOWN pa + of_nat (4096 * n) - PGROUNDDOWN va) OR perm OR PTE_V"

lemma mappages_loop_spec:
  assumes "vm_ok s R ps" and r: "r \<in> R" and "unat v = 4096 * n0" "unat lim = 4096 * (n0 + k)"
    "n0 + k \<le> 2 ^ 27" and "\<And>n. n0 \<le> n \<Longrightarrow> n < n0 + k \<Longrightarrow> leaf (mem s) r n AND PTE_V = 0"
  shows "\<exists>res s1 qs ps' j. mappages_loop r va lim pa perm v s = Some (Inr (res, s1)) \<and>
    ps = qs @ ps' \<and> length qs \<le> 2 * k \<and> vm_ok s1 R ps' \<and> vm_take R s qs s1 \<and> j \<le> k \<and>
    (\<forall>r'\<in>R. \<forall>n<2 ^ 27. leaf (mem s1) r' n =
       (if r' = r \<and> n0 \<le> n \<and> n < n0 + j then map_pte va pa perm n else leaf (mem s) r' n)) \<and>
    (res = 0 \<and> j = k \<or> res = -1 \<and> j < k \<and> ps' = [])"
  using assms(1,3-)
proof (induction k arbitrary: v n0 s ps)
  case 0
  have "\<not> v + 4096 \<le> lim"
    using 0 by (simp add: word_le_nat_alt unat_word_ariths)
  with 0(1) show ?case
    by (subst mappages_loop.simps, intro exI[of _ 0] exI[of _ s] exI[of _ "[]"] exI[of _ ps]) auto
next
  case (Suc k)
  have v4: "unat (v + 4096) = 4096 * Suc n0"
    using Suc.prems(2,4) by (simp add: unat_word_ariths)
  then have le: "v + 4096 \<le> lim"
    using Suc.prems(3) by (simp add: word_le_nat_alt)
  have n0: "vpn v = n0" "n0 < 2 ^ 27"
    using Suc.prems(2,4) by (simp_all add: vpn_def)
  have v_n0: "of_nat (4096 * n0) = v"
    unfolding Suc.prems(2)[symmetric] by simp
  obtain pte s1 where w: "walk r v True s = (pte, s1)" by fastforce
  obtain qs ps' where walk: "ps = qs @ ps'" "vm_ok s1 R ps'" "vm_take R s qs s1" and len: "length qs \<le> 2"
    and leaf: "\<And>r' n. r' \<in> R \<Longrightarrow> leaf (mem s1) r' n = leaf (mem s) r' n"
    and pte: "pte = 0 \<Longrightarrow> ps' = []"
      "pte \<noteq> 0 \<Longrightarrow> \<exists>u. tbl (mem s1) r (vpath n0) = Some u \<and> pte = pte_at u (n0 mod 512)"
    by (rule walk_alloc[OF Suc.prems(1) r w, unfolded n0(1)]) blast
  show ?case
  proof (cases "pte = 0")
    case True
    then have "mappages_loop r va lim pa perm v s = Some (Inr (-1, s1))"
      using w le by (subst mappages_loop.simps) simp
    moreover have "\<forall>r'\<in>R. \<forall>n<2 ^ 27. leaf (mem s1) r' n =
        (if r' = r \<and> n0 \<le> n \<and> n < n0 + 0 then map_pte va pa perm n else leaf (mem s) r' n)"
      using leaf by auto
    moreover have "length qs \<le> 2 * Suc k" "0 < Suc k" "0 \<le> Suc k"
      using len by simp_all
    ultimately show ?thesis
      using walk pte(1)[OF True] by blast
  next
    case False
    then obtain u where u: "tbl (mem s1) r (vpath n0) = Some u" "pte = pte_at u (n0 mod 512)"
      using pte by auto
    have "load64 (mem s1) pte = leaf (mem s) r n0"
      unfolding u(2) using u(1) leaf r by (metis leaf_def option.simps(5))
    then have inval: "load64 (mem s1) pte AND PTE_V = 0"
      using Suc.prems(5)[of n0] by simp
    define s2 where s2: "s2 = s1\<lparr>mem := store64 (mem s1) (pte_at u (n0 mod 512)) (map_pte va pa perm n0)\<rparr>"
    note st = vm_ok_store_leaf[OF walk(2) r u(1) n0(2) s2]
    have step: "mappages_loop r va lim pa perm v s = mappages_loop r va lim pa perm (v + 4096) s2"
      using w le False inval by (subst mappages_loop.simps) (simp only: s2 u(2) map_pte_def v_n0 Let_def split_conv if_True if_False simp_thms)
    have inv2: "leaf (mem s2) r n AND PTE_V = 0" if "Suc n0 \<le> n" "n < Suc n0 + k" for n
      using Suc.prems(4,5) that leaf r by (simp add: st(4))
    have lim: "unat lim = 4096 * (Suc n0 + k)" "Suc n0 + k \<le> 2 ^ 27"
      using Suc.prems(3,4) by simp_all
    obtain res s3 qs2 ps3 j where
      IH: "mappages_loop r va lim pa perm (v + 4096) s2 = Some (Inr (res, s3))"
        "ps' = qs2 @ ps3" "length qs2 \<le> 2 * k" "vm_ok s3 R ps3" "vm_take R s2 qs2 s3" "j \<le> k"
        "\<forall>r'\<in>R. \<forall>n<2 ^ 27. leaf (mem s3) r' n =
           (if r' = r \<and> Suc n0 \<le> n \<and> n < Suc n0 + j then map_pte va pa perm n else leaf (mem s2) r' n)"
        "res = 0 \<and> j = k \<or> res = -1 \<and> j < k \<and> ps3 = []"
      using Suc.IH[OF st(1) v4 lim inv2] by blast
    have "vm_take R s (qs @ qs2) s3"
      using vm_take_trans[OF vm_take_trans[OF walk(3) st(2)] IH(5)] by simp
    moreover have "\<forall>r'\<in>R. \<forall>n<2 ^ 27. leaf (mem s3) r' n =
        (if r' = r \<and> n0 \<le> n \<and> n < n0 + Suc j then map_pte va pa perm n else leaf (mem s) r' n)"
    proof (intro ballI allI impI)
      fix r' n assume r': "r' \<in> R" and n: "n < (2 ^ 27 :: nat)"
      have "leaf (mem s3) r' n = (if r' = r \<and> Suc n0 \<le> n \<and> n < Suc n0 + j then map_pte va pa perm n
          else if r' = r \<and> n = n0 then map_pte va pa perm n0 else leaf (mem s) r' n)"
        by (simp only: IH(7)[rule_format, OF r' n] st(4)[OF r' n] leaf[OF r'])
      then show "leaf (mem s3) r' n = (if r' = r \<and> n0 \<le> n \<and> n < n0 + Suc j
          then map_pte va pa perm n else leaf (mem s) r' n)"
        by auto
    qed
    moreover have "Suc j \<le> Suc k" "res = 0 \<and> Suc j = Suc k \<or> res = -1 \<and> Suc j < Suc k \<and> ps3 = []"
      using IH(6,8) by auto
    moreover have "length (qs @ qs2) \<le> 2 * Suc k"
      using len IH(3) by simp
    moreover have "mappages_loop r va lim pa perm v s = Some (Inr (res, s3))" "ps = (qs @ qs2) @ ps3"
      using step IH(1,2) walk(1) by simp_all
    ultimately show ?thesis
      using IH(4) by blast
  qed
qed

end
