(* ===== verification/Xv6_Umem.thy ===== *)
theory Xv6_Umem
  imports Xv6_Pagetable
begin

text \<open>
  User memory as the kernel sees it through a page table: \<open>umem m r\<close> maps each user virtual
  address to its byte, or to \<open>None\<close> where no user page is mapped.  The copies of
  \<^verbatim>\<open>kernel/vm.c\<close> are reads and updates of this map.
\<close>

definition user_page :: "memory \<Rightarrow> addr \<Rightarrow> nat \<Rightarrow> addr" where
  "user_page m r n = (let e = leaf m r n in
     if e AND PTE_V = 0 \<or> e AND PTE_U = 0 then 0 else PTE2PA e)"

definition umem :: "memory \<Rightarrow> addr \<Rightarrow> uint64 \<Rightarrow> uint8 option" where
  "umem m r va = (let p = user_page m r (vpn va) in
     if p = 0 then None else Some (m (p + (va - PGROUNDDOWN va))))"

definition urange :: "memory \<Rightarrow> addr \<Rightarrow> uint64 \<Rightarrow> nat \<Rightarrow> uint8 option list" where
  "urange m r va n = map (\<lambda>i. umem m r (va + of_nat i)) [0..<n]"

lemma walkaddr_user_page:
  "pt_wf (mem s) R \<Longrightarrow> r \<in> R \<Longrightarrow> walkaddr r va s = user_page (mem s) r (vpn va)"
  by (simp add: walkaddr_leaf user_page_def)

lemma vpn_PGROUNDDOWN [simp]: "vpn (PGROUNDDOWN va) = vpn va"
  by (simp add: vpn_def unat_PGROUNDDOWN)

lemma page_aligned_user_page [simp]: "page_aligned (user_page m r n)"
  by (simp add: user_page_def Let_def) (simp add: page_aligned_def)

lemma length_urange [simp]: "length (urange m r va n) = n"
  by (simp add: urange_def)

lemma urange_append: "urange m r va (n + k) = urange m r va n @ urange m r (va + of_nat n) k"
  by (rule nth_equalityI) (auto simp: urange_def nth_append ac_simps)

text \<open>Within one page: the offsets up to the end of the page of \<open>va\<close>.\<close>

lemma page_split:
  fixes va :: uint64
  obtains "va = PGROUNDDOWN va + of_nat (unat va mod 4096)"
    "va - PGROUNDDOWN va = of_nat (unat va mod 4096)"
proof -
  have "va = PGROUNDDOWN va + of_nat (unat va mod 4096)"
    using unat_page_offset[of "PGROUNDDOWN va" "unat va mod 4096"] div_mult_mod_eq[of "unat va" 4096]
    by (simp add: word_unat_eq_iff unat_PGROUNDDOWN)
  then show ?thesis
    using that by (metis add_diff_cancel_left')
qed

lemma in_page:
  assumes "i < 4096 - unat va mod 4096"
  shows "PGROUNDDOWN (va + of_nat i) = PGROUNDDOWN va"
    and "va + of_nat i - PGROUNDDOWN va = (va - PGROUNDDOWN va) + of_nat i"
    and "vpn (va + of_nat i) = vpn va"
proof -
  show *: "PGROUNDDOWN (va + of_nat i) = PGROUNDDOWN va"
  proof (rule page_split[of va])
    assume "va = PGROUNDDOWN va + of_nat (unat va mod 4096)"
    then have "va + of_nat i = PGROUNDDOWN va + of_nat (unat va mod 4096 + i)"
      by (simp add: add.assoc)
    moreover have "unat va mod 4096 + i < 4096"
      using assms by simp
    ultimately show ?thesis
      by (metis PGROUNDDOWN_offset page_aligned_PGROUNDDOWN)
  qed
  show "va + of_nat i - PGROUNDDOWN va = (va - PGROUNDDOWN va) + of_nat i"
    by simp
  show "vpn (va + of_nat i) = vpn va"
    by (metis * vpn_PGROUNDDOWN)
qed

lemma urange_page:
  assumes "n \<le> 4096 - unat va mod 4096"
  shows "urange m r va n = (let p = user_page m r (vpn va) in
    if p = 0 then replicate n None else map Some (load_bytes m (p + (va - PGROUNDDOWN va)) n))"
proof (rule nth_equalityI)
  fix i assume "i < length (urange m r va n)"
  then have "i < n" "i < 4096 - unat va mod 4096"
    using assms by simp_all
  with in_page[of i va] show "urange m r va n ! i = (let p = user_page m r (vpn va) in
    if p = 0 then replicate n None else map Some (load_bytes m (p + (va - PGROUNDDOWN va)) n)) ! i"
    by (simp add: urange_def umem_def Let_def algebra_simps)
qed (simp add: Let_def)

lemma chunk_next: "0 < unat len - unat (chunk va len) \<Longrightarrow> va + chunk va len = PGROUNDDOWN va + 4096"
proof (rule page_split[of va])
  assume off: "va - PGROUNDDOWN va = of_nat (unat va mod 4096)" and "0 < unat len - unat (chunk va len)"
  then have "unat (chunk va len) = 4096 - unat va mod 4096"
    by (simp add: unat_chunk min_def split: if_splits)
  then have "unat va mod 4096 + unat (chunk va len) = 4096"
    by (simp add: less_imp_le)
  then have "of_nat (unat va mod 4096) + of_nat (unat (chunk va len)) = (4096 :: uint64)"
    by (metis of_nat_add of_nat_numeral)
  then have "va - PGROUNDDOWN va + chunk va len = 4096"
    unfolding off by simp
  then show ?thesis
    by (simp only: diff_add_eq diff_eq_eq) (simp only: add.commute)
qed

lemma urange_chunk:
  "urange m r va (unat len) = urange m r va (unat (chunk va len))
     @ urange m r (PGROUNDDOWN va + 4096) (unat (len - chunk va len))"
proof -
  let ?n = "chunk va len"
  have n: "unat len = unat ?n + unat (len - ?n)"
    using chunk_bounds(2)[of va len] by (simp add: unat_sub word_le_nat_alt)
  have rest: "urange m r (va + ?n) (unat (len - ?n)) = urange m r (PGROUNDDOWN va + 4096) (unat (len - ?n))"
    using chunk_next[of len va] n by (cases "unat (len - ?n) = 0") (simp_all add: urange_def)
  show ?thesis
    by (subst n) (simp add: urange_append rest)
qed

lemma urange_chunk_page:
  "urange m r va (unat (chunk va len)) = (let p = user_page m r (vpn va) in
     if p = 0 then replicate (unat (chunk va len)) None
     else map Some (load_bytes m (p + (va - PGROUNDDOWN va)) (unat (chunk va len))))"
  by (rule urange_page) (simp add: unat_chunk)

lemma chunk_unmapped:
  fixes len :: uint64
  assumes "len \<noteq> 0" "user_page m r (vpn va) = 0"
  shows "\<exists>us. urange m r va (unat len) = None # us"
proof -
  obtain k where "unat (chunk va len) = Suc k"
    using chunk_bounds(1)[of len va] assms(1)
    by (cases "unat (chunk va len)") (auto simp: word_less_nat_alt unat_gt_0)
  then have "urange m r va (unat (chunk va len)) = None # replicate k None"
    unfolding urange_chunk_page using assms(2) by simp
  then show ?thesis
    by (simp add: urange_chunk[of m r va len])
qed

text \<open>\<open>copyin\<close> reads the mapped prefix of the range.\<close>

lemma copyin_urange:
  assumes "pt_wf (mem s) R" "r \<in> R"
  shows "copyin r va len s = (let us = urange (mem s) r va (unat len) in
    (if None \<in> set us then -1 else 0, map the (takeWhile (\<lambda>u. u \<noteq> None) us)))"
  using assms
proof (induction r va len s rule: copyin.induct)
  case (1 r va len s)
  let ?n = "chunk va len" and ?p = "user_page (mem s) r (vpn va)"
  note wa = walkaddr_user_page[OF 1(2,3)]
  let ?us' = "urange (mem s) r (PGROUNDDOWN va + 4096) (unat (len - ?n))"
  consider "len = 0" | "len \<noteq> 0" "?p = 0" | (more) "len \<noteq> 0" "?p \<noteq> 0" by blast
  then show ?case
  proof cases
    case more
    have "copyin r (PGROUNDDOWN va + 4096) (len - ?n) s =
        (if None \<in> set ?us' then -1 else 0, map the (takeWhile (\<lambda>u. u \<noteq> None) ?us'))"
      using 1(1)[OF _ refl refl _ refl 1(2,3)] more by (simp add: wa Let_def)
    with more have "copyin r va len s = (if None \<in> set ?us' then -1 else 0,
        load_bytes (mem s) (?p + (va - PGROUNDDOWN va)) (unat ?n) @ map the (takeWhile (\<lambda>u. u \<noteq> None) ?us'))"
      by (subst copyin.simps) (simp add: wa Let_def add_diff_eq)
    with more show ?thesis
      by (simp add: urange_chunk[of _ _ va len] urange_chunk_page Let_def comp_def takeWhile_append)
  qed (auto simp: copyin.simps[of r va] wa urange_def[of _ _ _ 0] dest: chunk_unmapped)
qed

text \<open>\<open>copyinstr\<close> copies up to and including the first NUL, if it is mapped and within \<open>max\<close> bytes.\<close>

fun ustring :: "uint8 option list \<Rightarrow> int \<times> uint8 list" where
  "ustring (Some c # us) = (if c = 0 then (0, [0]) else let (r, cs) = ustring us in (r, c # cs))"
| "ustring us = (-1, [])"

lemma copyinstr_page_spec:
  "copyinstr_page m p n = (let bs = load_bytes m p n in
     if 0 \<in> set bs then (True, takeWhile (\<lambda>b. b \<noteq> 0) bs @ [0]) else (False, bs))"
  by (induction n arbitrary: p) (auto simp: load_bytes_0 load_bytes_Cons Let_def)

lemma ustring_append:
  "ustring (map Some bs @ us) = (if 0 \<in> set bs then (0, takeWhile (\<lambda>b. b \<noteq> 0) bs @ [0])
     else let (r, cs) = ustring us in (r, bs @ cs))"
  by (induction bs) (auto split: prod.splits)

lemma copyinstr_ustring:
  assumes "pt_wf (mem s) R" "r \<in> R"
  shows "copyinstr r va len s = ustring (urange (mem s) r va (unat len))"
  using assms
proof (induction r va len s rule: copyinstr.induct)
  case (1 r va len s)
  let ?n = "chunk va len" and ?p = "user_page (mem s) r (vpn va)"
  note wa = walkaddr_user_page[OF 1(2,3)]
  let ?us' = "urange (mem s) r (PGROUNDDOWN va + 4096) (unat (len - ?n))"
  consider "len = 0" | "len \<noteq> 0" "?p = 0" | (more) "len \<noteq> 0" "?p \<noteq> 0" by blast
  then show ?case
  proof cases
    case more
    let ?bs = "load_bytes (mem s) (?p + (va - PGROUNDDOWN va)) (unat ?n)"
    have us: "urange (mem s) r va (unat len) = map Some ?bs @ ?us'"
      using more by (subst urange_chunk) (simp add: urange_chunk_page)
    show ?thesis
    proof (cases "0 \<in> set ?bs")
      case True
      with more show ?thesis
        unfolding us by (subst copyinstr.simps) (simp add: wa copyinstr_page_spec Let_def ustring_append)
    next
      case False
      have "copyinstr r (PGROUNDDOWN va + 4096) (len - ?n) s = ustring ?us'"
        using 1(1)[OF _ refl refl _ refl _ refl _ 1(2,3)] more False
        by (simp add: wa copyinstr_page_spec Let_def)
      with more False show ?thesis
        unfolding us by (subst copyinstr.simps) (simp add: wa copyinstr_page_spec Let_def ustring_append)
    qed
  qed (auto simp: copyinstr.simps[of r va] wa urange_def[of _ _ _ 0] dest: chunk_unmapped)
qed

section \<open>Writing user memory\<close>

text \<open>User pages of \<open>r\<close> are no tables, and two virtual pages never share one.\<close>

definition upages_ok :: "memory \<Rightarrow> addr set \<Rightarrow> addr \<Rightarrow> bool" where
  "upages_ok m R r \<longleftrightarrow> (\<forall>n<2 ^ 27. user_page m r n \<noteq> 0 \<longrightarrow> user_page m r n \<notin> tables m R \<and>
     (\<forall>n'<2 ^ 27. user_page m r n' = user_page m r n \<longrightarrow> n' = n))"

definition uwrite :: "(uint64 \<Rightarrow> uint8 option) \<Rightarrow> uint64 \<Rightarrow> uint8 list \<Rightarrow> uint64 \<Rightarrow> uint8 option" where
  "uwrite f va bs a = (if unat va \<le> unat a \<and> unat a < unat va + length bs
     then Some (bs ! (unat a - unat va)) else f a)"

lemma vpn_less: "unat a < 2 ^ 39 \<Longrightarrow> vpn a < 2 ^ 27"
  unfolding vpn_def by (rule less_mult_imp_div_less) simp

lemma user_page_frame:
  assumes "pt_wf m R" "r \<in> R" and "\<And>x. PGROUNDDOWN x \<in> tables m R \<Longrightarrow> m' x = m x"
  shows "user_page m' r n = user_page m r n" "tables m' R = tables m R" "pt_wf m' R"
    and "upages_ok m' R r = upages_ok m R r"
proof -
  have tbl: "tbl m' r p = tbl m r p" if "r \<in> R" "p \<in> paths" for r p
    using tbl_frame[OF assms(1) assms(3) that] by blast
  have leaf: "leaf m' r n = leaf m r n" for n
    using leaf_frame[OF assms(1) assms(3) assms(2)] by blast
  show page: "user_page m' r n = user_page m r n" for n
    by (simp add: user_page_def leaf)
  show tables: "tables m' R = tables m R"
    using tables_cong[OF tbl] by blast
  show "pt_wf m' R"
    using pt_wf_frame[OF assms(1,3)] by blast
  show "upages_ok m' R r = upages_ok m R r"
    by (simp add: upages_ok_def page tables)
qed

lemma page_off: "va - PGROUNDDOWN va = of_nat (unat va mod 4096)" for va :: uint64
  by (rule page_split)

lemma umem_store_page:
  assumes wf: "pt_wf m R" "r \<in> R" and ok: "upages_ok m R r" and p: "user_page m r (vpn va) \<noteq> 0"
    and va: "unat va < 2 ^ 39" and len: "length bs \<le> 4096 - unat va mod 4096"
    and m': "m' = store_bytes m (user_page m r (vpn va) + (va - PGROUNDDOWN va)) bs"
  shows "PGROUNDDOWN x \<noteq> user_page m r (vpn va) \<Longrightarrow> m' x = m x"
    and "PGROUNDDOWN x \<in> tables m R \<Longrightarrow> m' x = m x"
    and "unat a < 2 ^ 39 \<Longrightarrow> umem m' r a = uwrite (umem m r) va bs a"
proof -
  let ?p = "user_page m r (vpn va)" and ?o = "\<lambda>a :: uint64. unat a mod 4096"
  have m'': "m' = store_bytes m (?p + of_nat (?o va)) bs"
    by (simp add: m' page_off)
  have lens: "?o va + length bs \<le> 4096"
    using len mod_less_divisor[of 4096 "unat va"] by linarith
  show other: "m' x = m x" if "PGROUNDDOWN x \<noteq> ?p" for x
    unfolding m'' using that region_page_sub[OF page_aligned_user_page lens] by (intro store_bytes_other) blast
  have notbl: "?p \<notin> tables m R"
    using ok p vpn_less[OF va] by (auto simp: upages_ok_def)
  show tables: "m' x = m x" if "PGROUNDDOWN x \<in> tables m R" for x
    using other that notbl by metis
  assume a: "unat a < 2 ^ 39"
  note page = user_page_frame(1)[OF wf tables]
  have split: "unat a = vpn a * 4096 + ?o a" "unat va = vpn va * 4096 + ?o va"
    by (simp_all add: vpn_def)
  show "umem m' r a = uwrite (umem m r) va bs a"
  proof (cases "vpn a = vpn va")
    case True
    show ?thesis
    proof (cases "?o va \<le> ?o a \<and> ?o a < ?o va + length bs")
      case in_range: True
      then have "m' (?p + of_nat (?o va) + of_nat (?o a - ?o va)) = bs ! (?o a - ?o va)"
        unfolding m'' using lens by (intro store_bytes_nth) auto
      moreover have "?p + of_nat (?o va) + of_nat (?o a - ?o va) = ?p + of_nat (?o a)"
        using in_range by (simp add: add.assoc flip: of_nat_add)
      moreover have "unat a - unat va = ?o a - ?o va"
        using split True by simp
      ultimately show ?thesis
        using in_range split True p by (simp add: umem_def uwrite_def page page_off Let_def)
    next
      case False
      have "?p + of_nat (?o a) \<notin> region (?p + of_nat (?o va)) (length bs)"
      proof
        assume "?p + of_nat (?o a) \<in> region (?p + of_nat (?o va)) (length bs)"
        then obtain i where i: "i < length bs" and "?p + of_nat (?o a) = ?p + of_nat (?o va) + of_nat i"
          by (auto simp: region_def)
        then have "(of_nat (?o a) :: uint64) = of_nat (?o va + i)"
          by (simp add: add.assoc)
        then have "?o a = ?o va + i"
          using i lens by (subst (asm) of_nat_u64_inj) auto
        with False i show False by simp
      qed
      then have "m' (?p + of_nat (?o a)) = m (?p + of_nat (?o a))"
        unfolding m'' by (rule store_bytes_other)
      moreover have "\<not> (unat va \<le> unat a \<and> unat a < unat va + length bs)"
        using False split[unfolded True] by linarith
      ultimately show ?thesis
        using True p by (auto simp: umem_def uwrite_def page page_off Let_def)
    qed
  next
    case False
    then have "\<not> (unat va \<le> unat a \<and> unat a < unat va + length bs)"
    proof -
      have "vpn va * 4096 + ?o va \<le> vpn a * 4096 + ?o a \<Longrightarrow>
          vpn a * 4096 + ?o a < vpn va * 4096 + 4096 \<Longrightarrow> vpn a = vpn va"
        using mod_less_divisor[of 4096 "unat a"] by linarith
      with False split lens show ?thesis by linarith
    qed
    moreover have "m' (user_page m r (vpn a) + of_nat (?o a)) = m (user_page m r (vpn a) + of_nat (?o a))"
      if "user_page m r (vpn a) \<noteq> 0"
    proof (rule other)
      have "PGROUNDDOWN (user_page m r (vpn a) + of_nat (?o a)) = user_page m r (vpn a)"
        by (rule PGROUNDDOWN_offset) simp_all
      moreover have "user_page m r (vpn a) \<noteq> ?p"
        using ok p False vpn_less[OF va] vpn_less[OF a] unfolding upages_ok_def by metis
      ultimately show "PGROUNDDOWN (user_page m r (vpn a) + of_nat (?o a)) \<noteq> ?p" by simp
    qed
    ultimately show ?thesis
      by (auto simp: umem_def uwrite_def page page_off Let_def)
  qed
qed


lemma takeWhile_mapped:
  "takeWhile (\<lambda>u. u \<noteq> None) (map Some xs @ us) = map Some xs @ takeWhile (\<lambda>u. u \<noteq> None) us"
  by (induction xs) auto

lemma uwrite_append:
  "uwrite (uwrite f va bs) va' cs = uwrite f va (bs @ cs)" if "unat va' = unat va + length bs"
  using that by (fastforce simp: uwrite_def nth_append)

lemma uwrite_Nil [simp]: "uwrite f va [] = f"
  by (rule ext) (auto simp: uwrite_def)

text \<open>\<open>copyout\<close> writes the mapped prefix of the range.\<close>

lemma copyout_uwrite:
  assumes "pt_wf (mem s) R" "r \<in> R" "upages_ok (mem s) R r" "unat va + unat len \<le> 2 ^ 39" "length src = unat len"
    and "us = urange (mem s) r va (unat len)" "copyout r va src len s = (res, s')"
  shows "res = (if None \<in> set us then -1 else 0) \<and> s' = s\<lparr>mem := mem s'\<rparr> \<and>
    (\<forall>x. PGROUNDDOWN x \<notin> user_page (mem s) r ` {..<2 ^ 27} \<longrightarrow> mem s' x = mem s x) \<and>
    (\<forall>a. unat a < 2 ^ 39 \<longrightarrow> umem (mem s') r a =
       uwrite (umem (mem s) r) va (take (length (takeWhile (\<lambda>u. u \<noteq> None) us)) src) a)"
  using assms
proof (induction r va src len s arbitrary: us rule: copyout.induct)
  case (1 r va src len s)
  let ?n = "chunk va len" and ?p = "user_page (mem s) r (vpn va)"
  note wa = walkaddr_user_page[OF 1(2,3)]
  consider "len = 0" | "len \<noteq> 0" "?p = 0" | (more) "len \<noteq> 0" "?p \<noteq> 0" by blast
  then show ?case
  proof cases
    case more
    define s1 where s1: "s1 = s\<lparr>mem := store_bytes (mem s) (?p + (va - PGROUNDDOWN va)) (take (unat ?n) src)\<rparr>"
    let ?va' = "PGROUNDDOWN va + 4096" and ?len' = "len - ?n"
    have n: "unat ?n \<le> unat len" "unat ?len' = unat len - unat ?n" "unat ?n \<le> 4096 - unat va mod 4096"
      using chunk_bounds(2)[of va len] by (simp_all add: unat_sub word_le_nat_alt unat_chunk)
    have va: "unat va < 2 ^ 39"
      using 1(5) more(1) unat_gt_0[of len] by linarith
    have m1: "mem s1 = store_bytes (mem s) (?p + (va - PGROUNDDOWN va)) (take (unat ?n) src)"
      by (simp add: s1)
    have lens: "length (take (unat ?n) src) \<le> 4096 - unat va mod 4096"
      using n by simp
    note st = umem_store_page[OF 1(2-4) more(2) va lens m1]
    note fr = user_page_frame[OF 1(2,3) st(2)]
    have run: "copyout r ?va' (drop (unat ?n) src) ?len' s1 = (res, s')"
      using 1(8) more by (subst (asm) copyout.simps) (simp add: wa s1 Let_def)
    let ?us' = "urange (mem s) r ?va' (unat ?len')"
    have us: "us = map Some (load_bytes (mem s) (?p + (va - PGROUNDDOWN va)) (unat ?n)) @ ?us'"
      unfolding 1(7) using more by (subst urange_chunk) (simp add: urange_chunk_page)
    have pre: "length (takeWhile (\<lambda>u. u \<noteq> None) us) = unat ?n + length (takeWhile (\<lambda>u. u \<noteq> None) ?us')"
      and res: "None \<in> set us \<longleftrightarrow> None \<in> set ?us'"
      unfolding us takeWhile_mapped by auto
    have frame1: "mem s1 x = mem s x" if "PGROUNDDOWN x \<notin> user_page (mem s) r ` {..<2 ^ 27}" for x
      using that vpn_less[OF va] by (intro st(1)) auto
    show ?thesis
    proof (cases "?len' = 0")
      case True
      then have *: "s' = s1" "res = 0" "unat ?n = unat len" "?us' = []"
        using run n by (auto simp: copyout.simps urange_def)
      have "take (unat ?n) src = src"
        using *(3) 1(6) by simp
      with * show ?thesis
        using st(3) frame1 pre res 1(6) by (simp add: s1)
    next
      case False
      then have "?va' = va + ?n"
        using chunk_next[of len va] n(2) unat_gt_0[of ?len'] by simp
      moreover have "unat (va + ?n) = unat va + unat ?n"
        using n(1) 1(5) by (simp add: unat_word_ariths)
      ultimately have va': "unat ?va' = unat va + unat ?n" by simp
      have len': "unat ?va' + unat ?len' \<le> 2 ^ 39"
        using va' n 1(5) by simp
      have us1: "urange (mem s1) r ?va' (unat ?len') = ?us'"
        unfolding urange_def
      proof (rule map_cong[OF refl])
        fix i assume "i \<in> set [0..<unat ?len']"
        then have "i < unat ?len'" by simp
        then have "unat (?va' + of_nat i) = unat va + unat ?n + i"
          using len' va' by (simp add: unat_word_ariths unat_of_nat)
        with \<open>i < _\<close> st(3)[of "?va' + of_nat i"] va' len' show "umem (mem s1) r (?va' + of_nat i) = umem (mem s) r (?va' + of_nat i)"
          by (simp add: uwrite_def)
      qed
      have "\<And>n. user_page (mem s1) r n = user_page (mem s) r n"
        by (rule fr(1))
      then have IH: "res = (if None \<in> set ?us' then -1 else 0) \<and> s' = s1\<lparr>mem := mem s'\<rparr> \<and>
        (\<forall>x. PGROUNDDOWN x \<notin> user_page (mem s) r ` {..<2 ^ 27} \<longrightarrow> mem s' x = mem s1 x) \<and>
        (\<forall>a. unat a < 2 ^ 39 \<longrightarrow> umem (mem s') r a = uwrite (umem (mem s1) r) ?va'
           (take (length (takeWhile (\<lambda>u. u \<noteq> None) ?us')) (drop (unat ?n) src)) a)"
        using 1(1)[OF more(1) refl refl _ refl] run fr(3,4) 1(3,4,6) n len' more us1
        by (simp add: wa s1)
      let ?k = "length (takeWhile (\<lambda>u. u \<noteq> None) ?us')"
      have lens': "unat ?va' = unat va + length (take (unat ?n) src)"
        using va' n 1(6) by simp
      have umem': "umem (mem s') r a = uwrite (umem (mem s) r) va (take (unat ?n + ?k) src) a"
        if a: "unat a < 2 ^ 39" for a
      proof -
        have "umem (mem s') r a = uwrite (umem (mem s1) r) ?va' (take ?k (drop (unat ?n) src)) a"
          using IH a by blast
        also have "\<dots> = uwrite (uwrite (umem (mem s) r) va (take (unat ?n) src)) ?va' (take ?k (drop (unat ?n) src)) a"
          using st(3)[OF a] by (simp add: uwrite_def[of _ ?va'])
        also have "\<dots> = uwrite (umem (mem s) r) va (take (unat ?n + ?k) src) a"
          by (simp only: uwrite_append[OF lens'] take_add)
        finally show ?thesis .
      qed
      have frame': "mem s' x = mem s x" if "PGROUNDDOWN x \<notin> user_page (mem s) r ` {..<2 ^ 27}" for x
        using IH frame1[OF that] that by simp
      have "s' = s\<lparr>mem := mem s'\<rparr>"
        using IH unfolding s1 by simp
      with IH umem' frame' show ?thesis
        unfolding pre res by blast
    qed
  qed (use 1 in \<open>auto simp: copyout.simps[of r va] wa urange_def[of _ _ _ 0] dest: chunk_unmapped\<close>)
qed

end
