(* ===== verification/Xv6_Uvm.thy ===== *)
theory Xv6_Uvm
  imports Xv6_Umem
begin

text \<open>
  Address spaces of \<^verbatim>\<open>kernel/vm.c\<close> with the pages they own.  \<open>W\<close> is the set of pairs of a root
  and a page number whose physical page belongs to that address space: it was taken from
  the allocator by \<^verbatim>\<open>uvmalloc\<close> or \<^verbatim>\<open>uvmcopy\<close> and goes back to it in \<^verbatim>\<open>uvmunmap\<close>.  \<open>uvm_ok\<close> says that owned
  pages, page tables and free pages are all distinct, and that every user-accessible page is owned.
\<close>

section \<open>The invariant\<close>

definition opage :: "memory \<Rightarrow> addr \<times> nat \<Rightarrow> addr" where
  "opage m rn = PTE2PA (leaf m (fst rn) (snd rn))"

definition uvm_ok :: "'a phys_scheme \<Rightarrow> addr set \<Rightarrow> (addr \<times> nat) set \<Rightarrow> addr list \<Rightarrow> bool" where
  "uvm_ok s R W ps \<longleftrightarrow> vm_ok s R ps \<and> W \<subseteq> R \<times> {..<2 ^ 27} \<and>
     (\<forall>(r, n)\<in>W. leaf (mem s) r n AND PTE_V \<noteq> 0 \<and> PTE_FLAGS (leaf (mem s) r n) \<noteq> PTE_V) \<and>
     inj_on (opage (mem s)) W \<and> 0 \<notin> opage (mem s) ` W \<and>
     opage (mem s) ` W \<inter> (tables (mem s) R \<union> set ps) = {} \<and>
     (\<forall>r\<in>R. \<forall>n<2 ^ 27. user_page (mem s) r n \<noteq> 0 \<longrightarrow> (r, n) \<in> W)"

text \<open>A page in nobody's hands: allocated, but not yet mapped.\<close>

definition spare :: "'a phys_scheme \<Rightarrow> addr set \<Rightarrow> (addr \<times> nat) set \<Rightarrow> addr list \<Rightarrow> addr \<Rightarrow> bool" where
  "spare s R W ps pa \<longleftrightarrow> page_aligned pa \<and> pa \<noteq> 0 \<and>
     pa \<notin> tables (mem s) R \<union> set ps \<union> opage (mem s) ` W"

lemma uvm_okD:
  assumes "uvm_ok s R W ps"
  shows "vm_ok s R ps" "pt_wf (mem s) R" "free_pages s ps" "W \<subseteq> R \<times> {..<2 ^ 27}"
    "inj_on (opage (mem s)) W" "opage (mem s) ` W \<inter> (tables (mem s) R \<union> set ps) = {}"
    "0 \<notin> opage (mem s) ` W" "tables (mem s) R \<inter> set ps = {}"
  using assms by (auto simp: uvm_ok_def vm_ok_def)

lemma user_page_opage: "user_page m r n \<noteq> 0 \<Longrightarrow> user_page m r n = opage m (r, n)"
  by (auto simp: user_page_def opage_def Let_def split: if_splits)

lemma uvm_ok_user: "uvm_ok s R W ps \<Longrightarrow> r \<in> R \<Longrightarrow> n < 2 ^ 27 \<Longrightarrow> user_page (mem s) r n \<noteq> 0 \<Longrightarrow> (r, n) \<in> W"
  by (auto simp: uvm_ok_def)

lemma uvm_ok_upages_ok:
  assumes "uvm_ok s R W ps" "r \<in> R"
  shows "upages_ok (mem s) R r"
  unfolding upages_ok_def
proof (intro allI impI conjI)
  fix n assume n: "n < (2 :: nat) ^ 27" "user_page (mem s) r n \<noteq> 0"
  then have rn: "(r, n) \<in> W" "user_page (mem s) r n = opage (mem s) (r, n)"
    using uvm_ok_user[OF assms] user_page_opage by auto
  then show "user_page (mem s) r n \<notin> tables (mem s) R"
    using uvm_okD(6)[OF assms(1)] by auto
  fix n' assume n': "n' < (2 :: nat) ^ 27" "user_page (mem s) r n' = user_page (mem s) r n"
  then have "(r, n') \<in> W" "user_page (mem s) r n' = opage (mem s) (r, n')"
    using uvm_ok_user[OF assms] user_page_opage n(2) by auto
  then show "n' = n"
    using rn n'(2) inj_onD[OF uvm_okD(5)[OF assms(1)]] by fastforce
qed

lemma uvm_ok_frame:
  assumes ok: "uvm_ok s R W ps" and vm: "vm_ok s' R ps'"
    and leaf: "\<And>r n. r \<in> R \<Longrightarrow> n < 2 ^ 27 \<Longrightarrow> leaf (mem s') r n = leaf (mem s) r n"
    and disj: "opage (mem s) ` W \<inter> (tables (mem s') R \<union> set ps') = {}"
  shows "uvm_ok s' R W ps'" "\<And>rn. rn \<in> W \<Longrightarrow> opage (mem s') rn = opage (mem s) rn"
proof -
  have Wb: "r \<in> R \<and> n < 2 ^ 27" if "(r, n) \<in> W" for r n
    using uvm_okD(4)[OF ok] that by auto
  show opage: "opage (mem s') rn = opage (mem s) rn" if "rn \<in> W" for rn
    using Wb[of "fst rn" "snd rn"] that leaf by (simp add: opage_def)
  have user: "user_page (mem s') r n = user_page (mem s) r n" if "r \<in> R" "n < 2 ^ 27" for r n
    using leaf[OF that] by (simp add: user_page_def)
  have img: "opage (mem s') ` W = opage (mem s) ` W"
    using opage by (rule image_cong[OF refl])
  have "inj_on (opage (mem s')) W"
    using uvm_okD(5)[OF ok] by (simp add: inj_on_cong[OF opage])
  moreover have "\<forall>(r, n)\<in>W. leaf (mem s') r n AND PTE_V \<noteq> 0 \<and> PTE_FLAGS (leaf (mem s') r n) \<noteq> PTE_V"
  proof safe
    fix r n assume "(r, n) \<in> W"
    moreover then have "leaf (mem s') r n = leaf (mem s) r n"
      using Wb leaf by blast
    ultimately show "leaf (mem s') r n AND PTE_V = 0 \<Longrightarrow> False" "PTE_FLAGS (leaf (mem s') r n) = PTE_V \<Longrightarrow> False"
      using ok by (auto simp: uvm_ok_def)
  qed
  moreover have "\<forall>r\<in>R. \<forall>n<2 ^ 27. user_page (mem s') r n \<noteq> 0 \<longrightarrow> (r, n) \<in> W"
    using uvm_ok_user[OF ok] user by simp
  ultimately show "uvm_ok s' R W ps'"
    unfolding uvm_ok_def img using vm disj uvm_okD(4,7)[OF ok] by blast
qed

lemma umem_same:
  assumes ok: "uvm_ok s R W ps" and leaf: "leaf (mem s') r (vpn a) = leaf (mem s) r (vpn a)"
    and r: "r \<in> R" and a: "unat a < 2 ^ 39"
    and same: "\<And>x. (r, vpn a) \<in> W \<Longrightarrow> PGROUNDDOWN x = opage (mem s) (r, vpn a) \<Longrightarrow> mem s' x = mem s x"
  shows "umem (mem s') r a = umem (mem s) r a"
proof (cases "user_page (mem s) r (vpn a) = 0")
  case True
  with leaf show ?thesis by (simp add: umem_def user_page_def Let_def split: if_splits)
next
  case False
  have user: "user_page (mem s') r (vpn a) = user_page (mem s) r (vpn a)"
    using leaf by (simp add: user_page_def)
  have "PGROUNDDOWN (user_page (mem s) r (vpn a) + of_nat (unat a mod 4096)) = user_page (mem s) r (vpn a)"
    by (rule PGROUNDDOWN_offset) simp_all
  then have "mem s' (user_page (mem s) r (vpn a) + of_nat (unat a mod 4096))
      = mem s (user_page (mem s) r (vpn a) + of_nat (unat a mod 4096))"
    using uvm_ok_user[OF ok r vpn_less[OF a] False] user_page_opage[OF False] by (intro same) auto
  with False show ?thesis
    by (simp add: umem_def user page_off Let_def)
qed

lemma umem_frame:
  assumes "uvm_ok s R W ps" and "\<And>r n. r \<in> R \<Longrightarrow> n < 2 ^ 27 \<Longrightarrow> leaf (mem s') r n = leaf (mem s) r n"
    and "\<And>x. PGROUNDDOWN x \<in> opage (mem s) ` W \<Longrightarrow> mem s' x = mem s x" and "r \<in> R" and "unat a < 2 ^ 39"
  shows "umem (mem s') r a = umem (mem s) r a"
  using assms(2,3,4,5) vpn_less[OF assms(5)] by (intro umem_same[OF assms(1)]) auto

section \<open>One page at a time\<close>

lemma kalloc_spare:
  assumes ok: "uvm_ok s R W (pa # ps)" and k: "kalloc s = (p, s1)"
  shows "p = pa" "mem s1 = mem s" "phys.more s1 = phys.more s" "uvm_ok s1 R W ps" "spare s1 R W ps pa"
proof -
  have free: "free_pages s (pa # ps)"
    using uvm_okD(3)[OF ok] .
  then show p: "p = pa" and m: "mem s1 = mem s" "phys.more s1 = phys.more s"
    using k by (auto simp: kalloc_def free_pages_def Let_def)
  have pa: "pa \<notin> set ps" "page_aligned pa \<and> pa \<noteq> 0"
    using klist.avail_distinct[OF free] klist.avail_page[OF free, of pa] by auto
  have "free_pages s1 ps"
    using kalloc_free_pages[OF free] k by simp
  then have "vm_ok s1 R ps"
    using uvm_okD(2,8)[OF ok] by (auto simp: vm_ok_def m)
  then show "uvm_ok s1 R W ps"
    using uvm_okD(6)[OF ok] by (intro uvm_ok_frame[OF ok]) (auto simp: m)
  show "spare s1 R W ps pa"
    using pa uvm_okD(6,8)[OF ok] by (auto simp: spare_def m)
qed

lemma kalloc_empty:
  assumes "uvm_ok s R W []"
  shows "kalloc s = (0, s)"
  using uvm_okD(3)[OF assms] by (simp add: free_pages_def kalloc_def)

text \<open>Filling a spare page changes nothing else.\<close>

lemma spare_write:
  assumes ok: "uvm_ok s R W ps" and sp: "spare s R W ps pa"
    and diff: "\<forall>x. PGROUNDDOWN x \<noteq> pa \<longrightarrow> m' x = mem s x"
  shows "uvm_ok (s\<lparr>mem := m'\<rparr>) R W ps" "spare (s\<lparr>mem := m'\<rparr>) R W ps pa"
    "r \<in> R \<Longrightarrow> leaf m' r n = leaf (mem s) r n"
    "r \<in> R \<Longrightarrow> unat a < 2 ^ 39 \<Longrightarrow> umem m' r a = umem (mem s) r a"
    "tables m' R = tables (mem s) R"
proof -
  note m' = diff[rule_format]
  let ?s = "s\<lparr>mem := m'\<rparr>"
  have pa: "pa \<notin> tables (mem s) R" "pa \<notin> set ps" "pa \<notin> opage (mem s) ` W"
    using sp by (auto simp: spare_def)
  have tb: "m' x = mem s x" if "PGROUNDDOWN x \<in> tables (mem s) R" for x
    using that pa m' by metis
  note wf = uvm_okD(2)[OF ok]
  show leaf: "leaf m' r n = leaf (mem s) r n" if "r \<in> R" for r n
    using leaf_frame[OF wf tb that] by blast
  show tables: "tables m' R = tables (mem s) R"
    using tables_cong[OF tbl_frame[OF wf tb]] by blast
  have wf': "pt_wf m' R"
    using pt_wf_frame[OF wf tb] by blast
  have "free_list m' (klist_next s) ps"
    by (rule free_list_frame[where T = "{pa}", OF _ m'[symmetric]])
      (use uvm_okD(3)[OF ok] pa in \<open>auto simp: free_pages_def\<close>)
  then have "vm_ok ?s R ps"
    using wf' uvm_okD(8)[OF ok] by (simp add: vm_ok_def free_pages_def tables)
  then show "uvm_ok ?s R W ps"
    using leaf tables uvm_okD(6)[OF ok] by (intro uvm_ok_frame[OF ok]) auto
  have "opage m' ` W = opage (mem s) ` W"
    using leaf uvm_okD(4)[OF ok] by (intro image_cong) (auto simp: opage_def)
  then show "spare ?s R W ps pa"
    using sp by (simp add: spare_def tables)
  show "umem m' r a = umem (mem s) r a" if "r \<in> R" "unat a < 2 ^ 39"
  proof -
    have "umem (mem ?s) r a = umem (mem s) r a"
    proof (rule umem_frame[OF ok _ _ that])
      fix x assume "PGROUNDDOWN x \<in> opage (mem s) ` W"
      then have "PGROUNDDOWN x \<noteq> pa" using pa(3) by auto
      then show "mem ?s x = mem s x" using m' by simp
    qed (simp add: leaf)
    then show ?thesis by simp
  qed
qed

text \<open>Giving a spare page back.\<close>

lemma kfree_spare:
  assumes ok: "uvm_ok s R W ps" and sp: "spare s R W ps pa"
  obtains s' where "kfree pa s = Inr s'" "uvm_ok s' R W (pa # ps)" "phys.more s' = phys.more s"
    "\<And>r n. r \<in> R \<Longrightarrow> leaf (mem s') r n = leaf (mem s) r n"
    "\<And>x. PGROUNDDOWN x \<noteq> pa \<Longrightarrow> mem s' x = mem s x"
    "\<And>r a. r \<in> R \<Longrightarrow> unat a < 2 ^ 39 \<Longrightarrow> umem (mem s') r a = umem (mem s) r a"
proof -
  have pa: "page_aligned pa" "pa \<noteq> 0" "pa \<notin> set ps" "pa \<notin> tables (mem s) R" "pa \<notin> opage (mem s) ` W"
    using sp by (auto simp: spare_def)
  let ?m = "store64 (mem s) pa (klist_next s)"
  have frame: "\<forall>x. PGROUNDDOWN x \<noteq> pa \<longrightarrow> ?m x = mem s x"
    using store_leaf_other_page[of pa 0] pa(1) by (simp add: pte_at_def)
  note w = spare_write[OF ok sp frame]
  have run: "kfree pa s = Inr (push_free pa s)" and m: "mem (push_free pa s) = ?m"
    using pa(1) by (simp_all add: kfree_def page_aligned_mod push_free_def)
  have free: "free_pages (push_free pa s) (pa # ps)"
    by (rule push_free_list[OF uvm_okD(3)[OF ok] pa(1-3)])
  have "vm_ok (push_free pa s) R (pa # ps)"
    using uvm_okD(2)[OF w(1)] uvm_okD(8)[OF ok] free pa(4) by (simp add: vm_ok_def m w(5))
  then have "uvm_ok (push_free pa s) R W (pa # ps)"
    using w(3) uvm_okD(6)[OF ok] pa(5) by (intro uvm_ok_frame[OF ok]) (auto simp: m w(5))
  then show ?thesis
    using that[OF run] w(3,4) frame by (simp add: m push_free_def)
qed

lemma PGROUNDUP_page:
  assumes "unat v = 4096 * n" "n < 2 ^ 27"
  shows "unat (PGROUNDUP (v + 4096 - 1)) = 4096 * (n + 1)" "PGROUNDDOWN v = v"
proof -
  have "unat (v + 4096 - 1) = 4096 * n + 4095"
    using assms by (simp add: add_diff_eq[symmetric] unat_word_ariths)
  then show "unat (PGROUNDUP (v + 4096 - 1)) = 4096 * (n + 1)"
    using assms(2) by (subst unat_PGROUNDUP) simp_all
  show "PGROUNDDOWN v = v"
    using assms(1) by (simp add: page_aligned_unat)
qed

lemma mappages_one:
  assumes ok: "vm_ok s R ps" and r: "r \<in> R" and v: "unat v = 4096 * n" "n < 2 ^ 27"
    and inv: "leaf (mem s) r n AND PTE_V = 0" and pa: "page_aligned pa"
  obtains (mapped) s1 qs ps' where "mappages r v PGSIZE pa perm s = Inr (0, s1)" "ps = qs @ ps'"
      "length qs \<le> 2" "vm_ok s1 R ps'" "vm_take R s qs s1"
      "\<And>r' n'. r' \<in> R \<Longrightarrow> n' < 2 ^ 27 \<Longrightarrow> leaf (mem s1) r' n' =
         (if r' = r \<and> n' = n then PA2PTE pa OR perm OR PTE_V else leaf (mem s) r' n')"
  | (failed) s1 where "mappages r v PGSIZE pa perm s = Inr (-1, s1)" "length ps \<le> 2"
      "vm_ok s1 R []" "vm_take R s ps s1"
      "\<And>r' n'. r' \<in> R \<Longrightarrow> n' < 2 ^ 27 \<Longrightarrow> leaf (mem s1) r' n' = leaf (mem s) r' n'"
proof -
  note up = PGROUNDUP_page[OF v]
  have "of_nat (4096 * n) = v"
    unfolding v(1)[symmetric] by simp
  then have pte: "map_pte v pa perm n = PA2PTE pa OR perm OR PTE_V"
    unfolding map_pte_def up(2) using pa by simp
  have le: "n + 1 \<le> 2 ^ 27" and inv': "\<And>k. n \<le> k \<Longrightarrow> k < n + 1 \<Longrightarrow> leaf (mem s) r k AND PTE_V = 0"
    using v(2) inv by (simp_all add: less_Suc_eq_le)
  obtain res s1 qs ps' j where
    run: "mappages_loop r v (PGROUNDUP (v + 4096 - 1)) pa perm v s = Some (Inr (res, s1))"
    and st: "ps = qs @ ps'" "vm_ok s1 R ps'" "vm_take R s qs s1" and len: "length qs \<le> 2 * 1"
    and leaf: "\<forall>r'\<in>R. \<forall>n'<2 ^ 27. leaf (mem s1) r' n' =
       (if r' = r \<and> n \<le> n' \<and> n' < n + j then map_pte v pa perm n' else leaf (mem s) r' n')"
    and res: "res = 0 \<and> j = 1 \<or> res = -1 \<and> j < 1 \<and> ps' = []"
    using mappages_loop_spec[OF ok r v(1) up(1) le inv', of v pa perm] by blast
  from run have run': "mappages r v PGSIZE pa perm s = Inr (res, s1)"
    by (simp add: mappages_def up(2) unhang_def)
  from res show ?thesis
  proof
    assume *: "res = 0 \<and> j = 1"
    have "leaf (mem s1) r' n' = (if r' = r \<and> n' = n then PA2PTE pa OR perm OR PTE_V else leaf (mem s) r' n')"
      if "r' \<in> R" "n' < 2 ^ 27" for r' n'
      using leaf[rule_format, OF that] * pte by auto
    then show ?thesis
      using mapped run' st len * by auto
  next
    assume *: "res = -1 \<and> j < 1 \<and> ps' = []"
    have "leaf (mem s1) r' n' = leaf (mem s) r' n'" if "r' \<in> R" "n' < 2 ^ 27" for r' n'
      using leaf[rule_format, OF that] * by auto
    then show ?thesis
      using failed run' st len * by simp
  qed
qed

lemma PTE_flags:
  fixes perm :: uint64
  assumes "page_aligned pa" "perm < 1024"
  shows "PTE2PA (PA2PTE pa OR perm OR PTE_V) = pa" "PTE_FLAGS (PA2PTE pa OR perm OR PTE_V) = perm OR PTE_V"
    "(PA2PTE pa OR perm OR PTE_V) AND PTE_V \<noteq> 0"
proof -
  have "perm OR PTE_V < 1024"
    using assms(2) OR_upper[of "uint perm" 10 1]
    by (simp add: word_less_def uint_or)
  then show "PTE2PA (PA2PTE pa OR perm OR PTE_V) = pa" "PTE_FLAGS (PA2PTE pa OR perm OR PTE_V) = perm OR PTE_V"
    using PTE2PA_PA2PTE[OF assms(1)] PTE_FLAGS_PA2PTE by simp_all
  show "(PA2PTE pa OR perm OR PTE_V) AND PTE_V \<noteq> 0"
    using PTE_V_bit[of "PA2PTE pa OR perm"] by (simp add: or.assoc)
qed

lemma vm_take_spare:
  assumes ok: "uvm_ok s R W ps" and sp: "spare s R W ps pa" and tk: "vm_take R s qs s1" "ps = qs @ ps'"
  shows "pa \<notin> tables (mem s1) R \<union> set ps'" "opage (mem s) ` W \<inter> (tables (mem s1) R \<union> set ps') = {}"
    "\<And>x. PGROUNDDOWN x \<in> insert pa (opage (mem s) ` W) \<Longrightarrow> mem s1 x = mem s x"
proof -
  have sub: "tables (mem s1) R \<subseteq> tables (mem s) R \<union> set qs"
    and fr: "\<And>x. PGROUNDDOWN x \<notin> tables (mem s) R \<union> set qs \<Longrightarrow> mem s1 x = mem s x"
    using tk(1) by (auto simp: vm_take_def)
  show "pa \<notin> tables (mem s1) R \<union> set ps'"
    using sp sub tk(2) by (auto simp: spare_def)
  show "opage (mem s) ` W \<inter> (tables (mem s1) R \<union> set ps') = {}"
    using uvm_okD(6)[OF ok] sub tk(2) by auto
  show "mem s1 x = mem s x" if "PGROUNDDOWN x \<in> insert pa (opage (mem s) ` W)" for x
    using that sp uvm_okD(6)[OF ok] tk(2) by (intro fr) (auto simp: spare_def)
qed

text \<open>Mapping a spare page hands it to the address space.\<close>

lemma map_spare:
  assumes ok: "uvm_ok s R W ps" and sp: "spare s R W ps pa" and r: "r \<in> R"
    and v: "unat v = 4096 * n" "n < 2 ^ 27" and inv: "leaf (mem s) r n AND PTE_V = 0"
    and perm: "perm < 1024" "perm OR PTE_V \<noteq> PTE_V"
  obtains (mapped) s1 qs ps' where "mappages r v PGSIZE pa perm s = Inr (0, s1)" "ps = qs @ ps'"
      "length qs \<le> 2" "uvm_ok s1 R (insert (r, n) W) ps'" "phys.more s1 = phys.more s"
      "\<forall>r'\<in>R. \<forall>n'<2 ^ 27. leaf (mem s1) r' n' =
         (if r' = r \<and> n' = n then PA2PTE pa OR perm OR PTE_V else leaf (mem s) r' n')"
      "\<forall>x. PGROUNDDOWN x \<in> insert pa (opage (mem s) ` W) \<longrightarrow> mem s1 x = mem s x"
  | (failed) s1 where "mappages r v PGSIZE pa perm s = Inr (-1, s1)" "length ps \<le> 2"
      "uvm_ok s1 R W []" "spare s1 R W [] pa" "phys.more s1 = phys.more s"
      "\<And>r' n'. r' \<in> R \<Longrightarrow> n' < 2 ^ 27 \<Longrightarrow> leaf (mem s1) r' n' = leaf (mem s) r' n'"
      "\<And>x. PGROUNDDOWN x \<in> insert pa (opage (mem s) ` W) \<Longrightarrow> mem s1 x = mem s x"
proof -
  have pa: "page_aligned pa" "pa \<noteq> 0" "pa \<notin> opage (mem s) ` W"
    using sp by (auto simp: spare_def)
  show ?thesis
  proof (rule mappages_one[OF uvm_okD(1)[OF ok] r v inv pa(1), of perm])
    fix s1 qs ps'
    assume run: "mappages r v PGSIZE pa perm s = Inr (0, s1)" and ps: "ps = qs @ ps'" and len: "length qs \<le> 2"
      and vm: "vm_ok s1 R ps'" and tk: "vm_take R s qs s1"
      and leaf: "\<And>r' n'. r' \<in> R \<Longrightarrow> n' < 2 ^ 27 \<Longrightarrow> leaf (mem s1) r' n' =
         (if r' = r \<and> n' = n then PA2PTE pa OR perm OR PTE_V else leaf (mem s) r' n')"
    note fr = vm_take_spare[OF ok sp tk ps]
    note fl = PTE_flags[OF pa(1) perm(1)]
    have notin: "(r, n) \<notin> W"
      using inv ok by (auto simp: uvm_ok_def)
    have old: "leaf (mem s1) r' n' = leaf (mem s) r' n'" if "(r', n') \<in> W" for r' n'
      using leaf that notin uvm_okD(4)[OF ok] by auto
    have opage: "opage (mem s1) rn = opage (mem s) rn" if "rn \<in> W" for rn
      using old[of "fst rn" "snd rn"] that by (simp add: opage_def)
    have new: "opage (mem s1) (r, n) = pa"
      using leaf[OF r v(2)] fl(1) by (simp add: opage_def)
    have "opage (mem s1) ` W = opage (mem s) ` W"
      using opage by (rule image_cong[OF refl])
    then have img: "opage (mem s1) ` insert (r, n) W = insert pa (opage (mem s) ` W)"
      unfolding image_insert new by (rule arg_cong)
    have inj: "inj_on (opage (mem s1)) (insert (r, n) W)"
    proof (rule inj_on_insert[THEN iffD2], intro conjI)
      show "inj_on (opage (mem s1)) W"
        using uvm_okD(5)[OF ok] by (simp add: inj_on_cong[OF opage])
      show "opage (mem s1) (r, n) \<notin> opage (mem s1) ` (W - {(r, n)})"
        unfolding new using pa(3) opage by auto
    qed
    have user: "user_page (mem s1) r' n' \<noteq> 0 \<Longrightarrow> (r', n') \<in> insert (r, n) W"
      if "r' \<in> R" "n' < 2 ^ 27" for r' n'
      using uvm_ok_user[OF ok that] leaf[OF that] by (cases "r' = r \<and> n' = n") (auto simp: user_page_def)
    have valid: "leaf (mem s1) r' n' AND PTE_V \<noteq> 0 \<and> PTE_FLAGS (leaf (mem s1) r' n') \<noteq> PTE_V"
      if "(r', n') \<in> insert (r, n) W" for r' n'
    proof (cases "(r', n') = (r, n)")
      case True
      then show ?thesis using leaf[OF r v(2)] fl perm(2) by simp
    next
      case False
      with that have "(r', n') \<in> W" by blast
      with old ok show ?thesis by (auto simp: uvm_ok_def)
    qed
    have "uvm_ok s1 R (insert (r, n) W) ps'"
      unfolding uvm_ok_def img
    proof (intro conjI)
      show "insert (r, n) W \<subseteq> R \<times> {..<2 ^ 27}"
        using uvm_okD(4)[OF ok] r v(2) by auto
      show "0 \<notin> insert pa (opage (mem s) ` W)"
        using pa(2) uvm_okD(7)[OF ok] by auto
      show "insert pa (opage (mem s) ` W) \<inter> (tables (mem s1) R \<union> set ps') = {}"
        using fr(1,2) by blast
    qed (use vm inj user valid in blast)+
    then show ?thesis
      using mapped[OF run ps len] leaf fr(3) tk by (simp add: vm_take_def)
  next
    fix s1
    assume run: "mappages r v PGSIZE pa perm s = Inr (-1, s1)" and len: "length ps \<le> 2" and vm: "vm_ok s1 R []"
      and tk: "vm_take R s ps s1"
      and leaf: "\<And>r' n'. r' \<in> R \<Longrightarrow> n' < 2 ^ 27 \<Longrightarrow> leaf (mem s1) r' n' = leaf (mem s) r' n'"
    have ps: "ps = ps @ []" by simp
    note fr = vm_take_spare[OF ok sp tk ps]
    note uvm = uvm_ok_frame[OF ok vm leaf fr(2)]
    have "opage (mem s1) ` W = opage (mem s) ` W"
      using uvm(2) by (rule image_cong[OF refl])
    then have "spare s1 R W [] pa"
      using pa fr(1) by (simp add: spare_def)
    then show ?thesis
      using failed[OF run len uvm(1) _ _ leaf fr(3)] tk by (simp add: vm_take_def)
  qed
qed

text \<open>Unmapping with \<open>dofree\<close> gives an owned page back to the allocator.\<close>

lemma walk_leaf_pte:
  assumes ok: "uvm_ok s R W ps" and r: "r \<in> R" and v: "vpn v = n" and val: "leaf (mem s) r n AND PTE_V \<noteq> 0"
  obtains pte t where "walk r v False s = (pte, s)" "pte \<noteq> 0" "pte = pte_at t (n mod 512)"
    "tbl (mem s) r (vpath n) = Some t" "load64 (mem s) pte = leaf (mem s) r n"
proof -
  obtain pte s1 where w: "walk r v False s = (pte, s1)" by fastforce
  note wl = walk_lookup[OF uvm_okD(2)[OF ok] r w, unfolded v]
  have "pte \<noteq> 0"
    using wl(2) val by auto
  then show ?thesis
    using wl(1) wl(3) w by (intro that[of pte "pte - 8 * of_nat (n mod 512)"]) (auto simp: pte_at_def)
qed

lemma vm_ok_push:
  assumes ok: "vm_ok s R ps" and p: "page_aligned p" "p \<noteq> 0" "p \<notin> set ps" "p \<notin> tables (mem s) R"
  shows "vm_ok (push_free p s) R (p # ps)" "tables (mem (push_free p s)) R = tables (mem s) R"
    "\<And>r n. r \<in> R \<Longrightarrow> leaf (mem (push_free p s)) r n = leaf (mem s) r n"
    "\<And>r q. r \<in> R \<Longrightarrow> q \<in> paths \<Longrightarrow> tbl (mem (push_free p s)) r q = tbl (mem s) r q"
    "\<And>x. PGROUNDDOWN x \<noteq> p \<Longrightarrow> mem (push_free p s) x = mem s x"
proof -
  let ?s = "push_free p s"
  have wf: "pt_wf (mem s) R" and free: "free_pages s ps" and disj: "tables (mem s) R \<inter> set ps = {}"
    using ok by (simp_all add: vm_ok_def)
  show frame: "mem ?s x = mem s x" if "PGROUNDDOWN x \<noteq> p" for x
    using that store_leaf_other_page[of p 0 x] p(1) by (simp add: pte_at_def push_free_def)
  have tb: "mem ?s x = mem s x" if "PGROUNDDOWN x \<in> tables (mem s) R" for x
    using that p(4) by (intro frame) auto
  show tbl: "tbl (mem ?s) r q = tbl (mem s) r q" if "r \<in> R" "q \<in> paths" for r q
    using tbl_frame[OF wf tb that] by blast
  show "leaf (mem ?s) r n = leaf (mem s) r n" if "r \<in> R" for r n
    using leaf_frame[OF wf tb that] by blast
  show tables: "tables (mem ?s) R = tables (mem s) R"
    using tables_cong[OF tbl] by blast
  have "pt_wf (mem ?s) R"
    using pt_wf_frame[OF wf tb] by blast
  then show "vm_ok ?s R (p # ps)"
    using push_free_list[OF free p(1-3)] disj p(4) by (simp add: vm_ok_def tables)
qed

lemma unmap_owned:
  assumes ok: "uvm_ok s R W ps" and W: "(r, n) \<in> W" and v: "vpn v = n"
  obtains s' where "uvmunmap_loop r (Suc k) True v s = uvmunmap_loop r k True (v + PGSIZE) s'"
    "uvm_ok s' R (W - {(r, n)}) (opage (mem s) (r, n) # ps)" "phys.more s' = phys.more s"
    "\<And>r' n'. r' \<in> R \<Longrightarrow> n' < 2 ^ 27 \<Longrightarrow>
       leaf (mem s') r' n' = (if r' = r \<and> n' = n then 0 else leaf (mem s) r' n')"
    "\<And>x. PGROUNDDOWN x \<in> opage (mem s) ` (W - {(r, n)}) \<Longrightarrow> mem s' x = mem s x"
    "\<And>r' q. r' \<in> R \<Longrightarrow> q \<in> paths \<Longrightarrow> tbl (mem s') r' q = tbl (mem s) r' q"
proof -
  let ?p = "opage (mem s) (r, n)" and ?W = "W - {(r, n)}"
  have rn: "r \<in> R" "n < 2 ^ 27"
    using W uvm_okD(4)[OF ok] by auto
  have e: "leaf (mem s) r n AND PTE_V \<noteq> 0" "PTE_FLAGS (leaf (mem s) r n) \<noteq> PTE_V"
    using ok W by (auto simp: uvm_ok_def)
  have p: "page_aligned ?p" "?p \<noteq> 0" "?p \<notin> set ps" "?p \<notin> tables (mem s) R"
    using uvm_okD(6,7)[OF ok] W by (auto simp: opage_def image_iff)
  obtain pte t where w: "walk r v False s = (pte, s)" "pte \<noteq> 0" and pte: "pte = pte_at t (n mod 512)"
    and t: "tbl (mem s) r (vpath n) = Some t" and ld: "load64 (mem s) pte = leaf (mem s) r n"
    by (rule walk_leaf_pte[OF ok rn(1) v e(1)])
  note push = vm_ok_push[OF uvm_okD(1)[OF ok] p]
  have t': "tbl (mem (push_free ?p s)) r (vpath n) = Some t"
    using push(4)[OF rn(1) vpath_paths] t by simp
  define s' where s': "s' = (push_free ?p s)\<lparr>mem := store64 (mem (push_free ?p s)) (pte_at t (n mod 512)) 0\<rparr>"
  note st = vm_ok_store_leaf[OF push(1) rn(1) t' rn(2) s']
  have leaf: "leaf (mem s') r' n' = (if r' = r \<and> n' = n then 0 else leaf (mem s) r' n')"
    if "r' \<in> R" "n' < 2 ^ 27" for r' n'
    using st(4)[OF that] push(3)[OF that(1)] by simp
  have tables: "tables (mem s') R = tables (mem s) R"
    using st(3) push(2) by simp
  have tbl': "tbl (mem s') r' q = tbl (mem s) r' q" if "r' \<in> R" "q \<in> paths" for r' q
  proof -
    have "pt_wf (mem (push_free ?p s)) R"
      using push(1) by (simp add: vm_ok_def)
    then have "tbl (mem s') r' q = tbl (mem (push_free ?p s)) r' q"
      using tbl_store_leaf[OF _ rn(1) t' vpath_paths length_vpath _ that, of "n mod 512" 0] by (simp add: s')
    then show ?thesis using push(4)[OF that] by simp
  qed
  have frame: "mem s' x = mem s x" if "PGROUNDDOWN x \<noteq> ?p" "PGROUNDDOWN x \<notin> tables (mem s) R" for x
    using st(2) push(2,5) that by (simp add: vm_take_def)
  have disj: "opage (mem s) ` ?W \<inter> insert ?p (tables (mem s) R \<union> set ps) = {}"
    using uvm_okD(6)[OF ok] inj_onD[OF uvm_okD(5)[OF ok] _ _ W] by auto
  have opage: "opage (mem s') rn = opage (mem s) rn" if "rn \<in> ?W" for rn
    using leaf[of "fst rn" "snd rn"] that uvm_okD(4)[OF ok] by (cases rn) (auto simp: opage_def)
  have img: "opage (mem s') ` ?W = opage (mem s) ` ?W"
    using opage by (rule image_cong[OF refl])
  have "uvm_ok s' R ?W (?p # ps)"
    unfolding uvm_ok_def img
  proof (intro conjI)
    show "?W \<subseteq> R \<times> {..<2 ^ 27}"
      using uvm_okD(4)[OF ok] by auto
    have "leaf (mem s') r' n' AND PTE_V \<noteq> 0 \<and> PTE_FLAGS (leaf (mem s') r' n') \<noteq> PTE_V"
      if "(r', n') \<in> ?W" for r' n'
    proof -
      have "leaf (mem s') r' n' = leaf (mem s) r' n'"
        using leaf[of r' n'] that uvm_okD(4)[OF ok] by auto
      then show ?thesis
        using that ok by (auto simp: uvm_ok_def)
    qed
    then show "\<forall>(r', n')\<in>?W. leaf (mem s') r' n' AND PTE_V \<noteq> 0 \<and> PTE_FLAGS (leaf (mem s') r' n') \<noteq> PTE_V"
      by blast
    show "inj_on (opage (mem s')) ?W"
    proof (rule inj_onI)
      fix a b assume "a \<in> ?W" "b \<in> ?W" "opage (mem s') a = opage (mem s') b"
      then show "a = b"
        using opage inj_onD[OF uvm_okD(5)[OF ok], of a b] by simp
    qed
    show "0 \<notin> opage (mem s) ` ?W"
      using uvm_okD(7)[OF ok] by auto
    show "opage (mem s) ` ?W \<inter> (tables (mem s') R \<union> set (?p # ps)) = {}"
      unfolding tables using disj by auto
    show "\<forall>r'\<in>R. \<forall>n'<2 ^ 27. user_page (mem s') r' n' \<noteq> 0 \<longrightarrow> (r', n') \<in> ?W"
    proof (intro ballI allI impI)
      fix r' n' assume *: "r' \<in> R" "n' < (2 :: nat) ^ 27" "user_page (mem s') r' n' \<noteq> 0"
      then have "\<not> (r' = r \<and> n' = n)"
        using leaf[OF *(1,2)] by (auto simp: user_page_def)
      moreover have "user_page (mem s) r' n' \<noteq> 0"
        using * leaf[OF *(1,2)] \<open>\<not> (r' = r \<and> n' = n)\<close> by (auto simp: user_page_def)
      ultimately show "(r', n') \<in> ?W"
        using uvm_ok_user[OF ok *(1,2)] by auto
    qed
  qed (rule st(1))
  moreover have "uvmunmap_loop r (Suc k) True v s = uvmunmap_loop r k True (v + PGSIZE) s'"
    using w e ld pte p(1) by (simp add: kfree_def page_aligned_mod s' opage_def[of _ "(r, n)"] Let_def)
  moreover have "phys.more s' = phys.more s"
    by (simp add: s' push_free_def)
  moreover have "mem s' x = mem s x" if "PGROUNDDOWN x \<in> opage (mem s) ` ?W" for x
    using that disj by (intro frame) auto
  ultimately show ?thesis
    using that leaf tbl' by blast
qed

section \<open>Whole ranges\<close>

text \<open>\<open>rows r i j\<close>: the pages \<open>i\<close> up to \<open>j\<close> of address space \<open>r\<close>.\<close>

definition rows :: "addr \<Rightarrow> nat \<Rightarrow> nat \<Rightarrow> (addr \<times> nat) set" where
  "rows r i j = {r} \<times> {i..<j}"

lemma in_rows [simp]: "(r', n) \<in> rows r i j \<longleftrightarrow> r' = r \<and> i \<le> n \<and> n < j"
  by (auto simp: rows_def)

lemma rows_empty [simp]: "rows r i i = {}"
  by (simp add: rows_def)

lemma rows_Suc: "i < j \<Longrightarrow> rows r i j = insert (r, i) (rows r (Suc i) j)"
  by (auto simp: rows_def)

lemma vpn_aligned: "unat v = 4096 * n \<Longrightarrow> vpn v = n"
  by (simp add: vpn_def)

lemma unat_next_page: "unat v = 4096 * n \<Longrightarrow> n < 2 ^ 27 \<Longrightarrow> unat (v + 4096) = 4096 * Suc n" for v :: uint64
  by (simp add: unat_word_ariths)

lemma uvmunmap_loop_owned:
  assumes "uvm_ok s R W ps" and "rows r n (n + k) \<subseteq> W" and "unat v = 4096 * n"
  shows "\<exists>s'. uvmunmap_loop r k True v s = Inr s' \<and>
    uvm_ok s' R (W - rows r n (n + k)) (rev (map (\<lambda>i. opage (mem s) (r, i)) [n..<n + k]) @ ps) \<and>
    phys.more s' = phys.more s \<and>
    (\<forall>r'\<in>R. \<forall>n'<2 ^ 27. leaf (mem s') r' n' = (if (r', n') \<in> rows r n (n + k) then 0 else leaf (mem s) r' n')) \<and>
    (\<forall>x. PGROUNDDOWN x \<in> opage (mem s) ` (W - rows r n (n + k)) \<longrightarrow> mem s' x = mem s x) \<and>
    (\<forall>r'\<in>R. \<forall>q\<in>paths. tbl (mem s') r' q = tbl (mem s) r' q)"
  using assms
proof (induction k arbitrary: n v s W ps)
  case (Suc k)
  have rows: "rows r n (n + Suc k) = insert (r, n) (rows r (Suc n) (Suc n + k))"
    by (simp add: rows_Suc)
  then have rn: "(r, n) \<in> W" "n < 2 ^ 27"
    using Suc.prems(2) uvm_okD(4)[OF Suc.prems(1)] by auto
  obtain s1 where run: "uvmunmap_loop r (Suc k) True v s = uvmunmap_loop r k True (v + PGSIZE) s1"
    and ok: "uvm_ok s1 R (W - {(r, n)}) (opage (mem s) (r, n) # ps)" and more: "phys.more s1 = phys.more s"
    and leaf: "\<And>r' n'. r' \<in> R \<Longrightarrow> n' < 2 ^ 27 \<Longrightarrow>
       leaf (mem s1) r' n' = (if r' = r \<and> n' = n then 0 else leaf (mem s) r' n')"
    and same: "\<And>x. PGROUNDDOWN x \<in> opage (mem s) ` (W - {(r, n)}) \<Longrightarrow> mem s1 x = mem s x"
    and tbl: "\<And>r' q. r' \<in> R \<Longrightarrow> q \<in> paths \<Longrightarrow> tbl (mem s1) r' q = tbl (mem s) r' q"
    using unmap_owned[OF Suc.prems(1) rn(1) vpn_aligned[OF Suc.prems(3)]] by metis
  have sub: "rows r (Suc n) (Suc n + k) \<subseteq> W - {(r, n)}"
    using Suc.prems(2) unfolding rows by auto
  have diff: "W - {(r, n)} - rows r (Suc n) (Suc n + k) = W - rows r n (n + Suc k)"
    unfolding rows by auto
  have opage: "opage (mem s1) rn = opage (mem s) rn" if "rn \<in> W - {(r, n)}" for rn
    using leaf[of "fst rn" "snd rn"] that uvm_okD(4)[OF Suc.prems(1)] by (cases rn) (auto simp: opage_def)
  have pages: "map (\<lambda>i. opage (mem s1) (r, i)) [Suc n..<Suc n + k] = map (\<lambda>i. opage (mem s) (r, i)) [Suc n..<Suc n + k]"
  proof (rule map_cong[OF refl])
    fix i assume "i \<in> set [Suc n..<Suc n + k]"
    then have "(r, i) \<in> rows r (Suc n) (Suc n + k)" by auto
    then show "opage (mem s1) (r, i) = opage (mem s) (r, i)"
      using sub by (intro opage) blast
  qed
  have img: "opage (mem s1) ` (W - rows r n (n + Suc k)) = opage (mem s) ` (W - rows r n (n + Suc k))"
    using opage unfolding rows by (intro image_cong) auto
  obtain s' where IH: "uvmunmap_loop r k True (v + 4096) s1 = Inr s'"
    "uvm_ok s' R (W - rows r n (n + Suc k))
       (rev (map (\<lambda>i. opage (mem s) (r, i)) [Suc n..<Suc n + k]) @ opage (mem s) (r, n) # ps)"
    "phys.more s' = phys.more s1"
    "\<forall>r'\<in>R. \<forall>n'<2 ^ 27. leaf (mem s') r' n' =
       (if (r', n') \<in> rows r (Suc n) (Suc n + k) then 0 else leaf (mem s1) r' n')"
    "\<forall>x. PGROUNDDOWN x \<in> opage (mem s) ` (W - rows r n (n + Suc k)) \<longrightarrow> mem s' x = mem s1 x"
    "\<forall>r'\<in>R. \<forall>q\<in>paths. tbl (mem s') r' q = tbl (mem s1) r' q"
    using Suc.IH[OF ok sub unat_next_page[OF Suc.prems(3) rn(2)]] unfolding pages diff img by blast
  have "[n..<n + Suc k] = n # [Suc n..<Suc n + k]"
    by (simp add: upt_rec)
  then have "uvm_ok s' R (W - rows r n (n + Suc k)) (rev (map (\<lambda>i. opage (mem s) (r, i)) [n..<n + Suc k]) @ ps)"
    using IH(2) by simp
  moreover have "leaf (mem s') r' n' = (if (r', n') \<in> rows r n (n + Suc k) then 0 else leaf (mem s) r' n')"
    if "r' \<in> R" "n' < 2 ^ 27" for r' n'
    by (simp only: IH(4)[rule_format, OF that] leaf[OF that] rows insert_iff prod.inject if_bool_eq_conj) auto
  moreover have "mem s' x = mem s x" if "PGROUNDDOWN x \<in> opage (mem s) ` (W - rows r n (n + Suc k))" for x
    using IH(5) same that unfolding rows by auto
  moreover have "tbl (mem s') r' q = tbl (mem s) r' q" if "r' \<in> R" "q \<in> paths" for r' q
    using IH(6) tbl that by simp
  ultimately show ?case
    using run IH(1,3) more by auto
qed simp

text \<open>Writing an owned page is seen at its own address only.\<close>

lemma owned_write:
  assumes ok: "uvm_ok s R W ps" and W: "(r, n) \<in> W"
    and diff: "\<forall>x. PGROUNDDOWN x \<noteq> opage (mem s) (r, n) \<longrightarrow> m' x = mem s x"
  shows "uvm_ok (s\<lparr>mem := m'\<rparr>) R W ps" "\<And>r' n'. r' \<in> R \<Longrightarrow> leaf m' r' n' = leaf (mem s) r' n'"
    "\<And>r' a. r' \<in> R \<Longrightarrow> unat a < 2 ^ 39 \<Longrightarrow> (r', vpn a) \<noteq> (r, n) \<Longrightarrow> umem m' r' a = umem (mem s) r' a"
proof -
  let ?s = "s\<lparr>mem := m'\<rparr>" and ?p = "opage (mem s) (r, n)"
  have p: "?p \<notin> tables (mem s) R" "?p \<notin> set ps"
    using uvm_okD(6)[OF ok] W by auto
  have tb: "m' x = mem s x" if "PGROUNDDOWN x \<in> tables (mem s) R" for x
    using that p(1) diff by metis
  note wf = uvm_okD(2)[OF ok]
  show leaf: "leaf m' r' n' = leaf (mem s) r' n'" if "r' \<in> R" for r' n'
    using leaf_frame[OF wf tb that] by blast
  have tables: "tables m' R = tables (mem s) R"
    using tables_cong[OF tbl_frame[OF wf tb]] by blast
  have "pt_wf m' R"
    using pt_wf_frame[OF wf tb] by blast
  moreover have "free_list m' (klist_next s) ps"
  proof (rule free_list_frame[where T = "{?p}"])
    show "mem s x = m' x" if "PGROUNDDOWN x \<notin> {?p}" for x
      using diff that by simp
  qed (use uvm_okD(3)[OF ok] p(2) in \<open>auto simp: free_pages_def\<close>)
  ultimately have "vm_ok ?s R ps"
    using uvm_okD(8)[OF ok] by (simp add: vm_ok_def free_pages_def tables)
  then show "uvm_ok ?s R W ps"
    using leaf tables uvm_okD(6)[OF ok] by (intro uvm_ok_frame[OF ok]) auto
  show "umem m' r' a = umem (mem s) r' a" if "r' \<in> R" "unat a < 2 ^ 39" "(r', vpn a) \<noteq> (r, n)" for r' a
  proof -
    have "umem (mem ?s) r' a = umem (mem s) r' a"
    proof (rule umem_same[OF ok _ that(1,2)])
      fix x assume "(r', vpn a) \<in> W" "PGROUNDDOWN x = opage (mem s) (r', vpn a)"
      then have "PGROUNDDOWN x \<noteq> ?p"
        using inj_onD[OF uvm_okD(5)[OF ok] _ _ W] that(3) by auto
      then show "mem ?s x = mem s x" using diff by simp
    qed (simp add: leaf[OF that(1)])
    then show ?thesis by simp
  qed
qed

lemma PTE_V_iff: "e AND 1 = 0 \<longleftrightarrow> \<not> bit e 0" and PTE_U_iff: "e AND 16 = 0 \<longleftrightarrow> \<not> bit e 4"
  for e :: uint64
  using and_exp_eq_0_iff_not_bit[of e 0] and_exp_eq_0_iff_not_bit[of e 4] by simp_all

lemma user_page_perm:
  assumes "leaf m r n = PA2PTE pa OR perm OR PTE_V" "page_aligned pa" "perm < 1024" "bit perm 4"
  shows "user_page m r n = pa"
  using assms PTE_flags[OF assms(2,3)] by (simp add: user_page_def Let_def PTE_U_iff bit_or_iff)

lemma umem_user: "user_page m r (vpn a) = pa \<Longrightarrow> pa \<noteq> 0 \<Longrightarrow> umem m r a = Some (m (pa + of_nat (unat a mod 4096)))"
  by (simp add: umem_def page_off)

lemma of_nat_page: "unat v = 4096 * n \<Longrightarrow> of_nat (4096 * n) = v" for v :: uint64
  by (metis of_nat_unat ucast_id)

lemma uvmalloc_perm:
  fixes xperm :: uint64
  assumes "xperm < 1024"
  shows "PTE_R OR PTE_U OR xperm < 1024" "(PTE_R OR PTE_U OR xperm) OR PTE_V \<noteq> PTE_V"
    "bit (PTE_R OR PTE_U OR xperm) 4"
proof -
  show "PTE_R OR PTE_U OR xperm < 1024"
    using assms OR_upper[of "uint xperm" 10 18]
    by (simp add: word_less_def uint_or or.commute[of _ "uint xperm"] or.assoc or.left_commute[of _ "uint xperm"])
  have "bit ((PTE_R OR PTE_U OR xperm) OR PTE_V) 1" "\<not> bit (PTE_V :: uint64) 1"
    by (simp_all add: bit_or_iff bit_push_bit_iff)
  then show "(PTE_R OR PTE_U OR xperm) OR PTE_V \<noteq> PTE_V"
    by metis
  show "bit (PTE_R OR PTE_U OR xperm) 4"
    by (simp add: bit_or_iff bit_push_bit_iff)
qed

lemma umem_map:
  assumes ok: "uvm_ok s R W ps" and "r' \<in> R" "unat a < 2 ^ 39" "leaf (mem s') r' (vpn a) = leaf (mem s) r' (vpn a)"
    and "\<And>x. PGROUNDDOWN x \<in> insert pa (opage (mem s) ` W) \<Longrightarrow> mem s' x = mem s x"
  shows "umem (mem s') r' a = umem (mem s) r' a"
  using assms(2-) by (intro umem_same[OF ok]) auto

text \<open>The address space after a spare page was mapped, with any contents \<open>m3\<close> of that page.\<close>

lemma mapped_page:
  assumes ok1: "uvm_ok s1 R W ps" and ok2: "uvm_ok s2 R (insert (r, n) W) ps2" and rn: "r \<in> R" "n < 2 ^ 27"
    and leaf: "\<forall>r'\<in>R. \<forall>n'<2 ^ 27. leaf (mem s2) r' n' =
       (if r' = r \<and> n' = n then PA2PTE pa OR perm OR PTE_V else leaf (mem s1) r' n')"
    and same: "\<forall>x. PGROUNDDOWN x \<in> insert pa (opage (mem s1) ` W) \<longrightarrow> mem s2 x = mem s1 x"
    and pa: "pa \<noteq> 0" "page_aligned pa" and perm: "perm < 1024"
    and diff: "\<forall>x. PGROUNDDOWN x \<noteq> pa \<longrightarrow> m3 x = mem s2 x"
  shows "uvm_ok (s2\<lparr>mem := m3\<rparr>) R (insert (r, n) W) ps2"
    and "\<And>r' i. r' \<in> R \<Longrightarrow> i < 2 ^ 27 \<Longrightarrow>
      leaf m3 r' i = (if r' = r \<and> i = n then PA2PTE pa OR perm OR PTE_V else leaf (mem s1) r' i)"
    and "\<And>r' a. r' \<in> R \<Longrightarrow> unat a < 2 ^ 39 \<Longrightarrow> umem m3 r' a = (if r' = r \<and> vpn a = n
      then (if bit perm 4 then Some (m3 (pa + of_nat (unat a mod 4096))) else None) else umem (mem s1) r' a)"
proof -
  note leaf2 = leaf[rule_format] and same2 = same[rule_format]
  note fl = PTE_flags[OF pa(2) perm]
  have new: "leaf (mem s2) r n = PA2PTE pa OR perm OR PTE_V" "opage (mem s2) (r, n) = pa"
    using leaf2[OF rn] fl(1) by (simp_all add: opage_def)
  note w = owned_write[OF ok2 insertI1 diff[folded new(2)]]
  show "uvm_ok (s2\<lparr>mem := m3\<rparr>) R (insert (r, n) W) ps2"
    by (rule w(1))
  show leaf3: "leaf m3 r' i = (if r' = r \<and> i = n then PA2PTE pa OR perm OR PTE_V else leaf (mem s1) r' i)"
    if "r' \<in> R" "i < 2 ^ 27" for r' i
    using w(2)[OF that(1)] leaf2[OF that] by simp
  show "umem m3 r' a = (if r' = r \<and> vpn a = n
      then (if bit perm 4 then Some (m3 (pa + of_nat (unat a mod 4096))) else None) else umem (mem s1) r' a)"
    if "r' \<in> R" "unat a < 2 ^ 39" for r' a
  proof (cases "r' = r \<and> vpn a = n")
    case True
    then have "user_page m3 r n = (if bit perm 4 then pa else 0)"
      using leaf3[OF rn] fl user_page_perm[OF _ pa(2) perm]
      by (simp add: user_page_def Let_def PTE_U_iff bit_or_iff PA2PTE_def bit_push_bit_iff)
    with True pa(1) show ?thesis
      by (simp add: umem_def page_off)
  next
    case False
    then have "umem m3 r' a = umem (mem s2) r' a"
      using w(3)[OF that] by simp
    also have "\<dots> = umem (mem s1) r' a"
      using False leaf2[OF that(1) vpn_less[OF that(2)]] by (intro umem_map[OF ok1 that _ same2]) auto
    finally show ?thesis using False by auto
  qed
qed

lemma uvmalloc_loop_owned:
  assumes "uvm_ok s R W ps" and r: "r \<in> R" and "unat va = 4096 * n" "unat lim = 4096 * (n + k)"
    "n + k \<le> 2 ^ 27" and "\<And>i. n \<le> i \<Longrightarrow> i < n + k \<Longrightarrow> leaf (mem s) r i AND PTE_V = 0"
    and xperm: "xperm < 1024"
  shows "\<exists>s' j ps'. uvmalloc_loop r lim xperm va s = Some (Inr (of_nat (4096 * (n + j)), s')) \<and> j \<le> k \<and>
    uvm_ok s' R (W \<union> rows r n (n + j)) ps' \<and> set ps' \<subseteq> set ps \<and> phys.more s' = phys.more s \<and>
    (\<forall>r'\<in>R. \<forall>a. unat a < 2 ^ 39 \<longrightarrow> umem (mem s') r' a =
       (if (r', vpn a) \<in> rows r n (n + j) then Some 0 else umem (mem s) r' a)) \<and>
    (\<forall>r'\<in>R. \<forall>i<2 ^ 27. (r', i) \<notin> rows r n (n + j) \<longrightarrow> leaf (mem s') r' i = leaf (mem s) r' i) \<and>
    (j < k \<longrightarrow> length ps \<le> 3 * Suc j \<and> length ps' \<le> 1) \<and> length ps \<le> 3 * j + length ps' + 2"
  using assms(1,3-6)
proof (induction k arbitrary: n va s W ps)
  case 0
  have "va = lim"
    using 0 by (simp add: word_unat_eq_iff)
  then show ?case
    using 0(1) of_nat_page[OF 0(2)] by (subst uvmalloc_loop.simps) auto
next
  case (Suc k)
  let ?perm = "PTE_R OR PTE_U OR xperm"
  have lt: "va < lim" and n: "n < 2 ^ 27"
    using Suc.prems(2-4) by (simp_all add: word_less_nat_alt)
  note va = of_nat_page[OF Suc.prems(2)] and perm = uvmalloc_perm[OF xperm]
  have inv: "leaf (mem s) r n AND PTE_V = 0"
    using Suc.prems(5)[of n] by simp
  show ?case
  proof (cases ps)
    case Nil
    then have "kalloc s = (0, s)"
      using kalloc_empty Suc.prems(1) by blast
    with lt have "uvmalloc_loop r lim xperm va s = Some (Inr (of_nat (4096 * (n + 0)), s))"
      using va by (subst uvmalloc_loop.simps) simp
    then show ?thesis
      using Suc.prems(1) Nil by (intro exI[of _ s] exI[of _ 0] exI[of _ "[]"]) auto
  next
    case (Cons pa ps1)
    obtain p s1 where k: "kalloc s = (p, s1)" by fastforce
    note sp = kalloc_spare[OF Suc.prems(1)[unfolded Cons] k]
    have kalloc: "kalloc s = (pa, s1)" and pa: "pa \<noteq> 0" "page_aligned pa"
      using k sp(1,5) by (auto simp: spare_def)
    note inv1 = inv[folded sp(2)]
    show ?thesis
    proof (rule map_spare[OF sp(4,5) r Suc.prems(2) n inv1 perm(1,2)])
      fix s2
      assume run: "mappages r va PGSIZE pa ?perm s1 = Inr (-1, s2)" and len: "length ps1 \<le> 2" and ok2: "uvm_ok s2 R W []"
        and sp2: "spare s2 R W [] pa" and more2: "phys.more s2 = phys.more s1"
        and leaf2: "\<And>r' n'. r' \<in> R \<Longrightarrow> n' < 2 ^ 27 \<Longrightarrow> leaf (mem s2) r' n' = leaf (mem s1) r' n'"
        and same2: "\<And>x. PGROUNDDOWN x \<in> insert pa (opage (mem s1) ` W) \<Longrightarrow> mem s2 x = mem s1 x"
      obtain s3 where fr: "kfree pa s2 = Inr s3" "uvm_ok s3 R W [pa]" "phys.more s3 = phys.more s2"
        and leaf3: "\<And>r n. r \<in> R \<Longrightarrow> leaf (mem s3) r n = leaf (mem s2) r n"
        and umem3: "\<And>r a. r \<in> R \<Longrightarrow> unat a < 2 ^ 39 \<Longrightarrow> umem (mem s3) r a = umem (mem s2) r a"
        by (rule kfree_spare[OF ok2 sp2]) blast
      have "uvmalloc_loop r lim xperm va s = Some (Inr (of_nat (4096 * (n + 0)), s3))"
        using lt kalloc run fr(1) va pa by (subst uvmalloc_loop.simps) simp
      moreover have "umem (mem s3) r' a = umem (mem s) r' a" if "r' \<in> R" "unat a < 2 ^ 39" for r' a
        using umem3[OF that] umem_map[OF sp(4) that leaf2[OF that(1) vpn_less[OF that(2)]] same2] sp(2) by simp
      moreover have "leaf (mem s3) r' i = leaf (mem s) r' i" if "r' \<in> R" "i < 2 ^ 27" for r' i
        using leaf3[OF that(1)] leaf2[OF that] sp(2) by simp
      ultimately show ?thesis
        using fr(2,3) more2 sp(3) Cons len
        by (intro exI[of _ s3] exI[of _ 0] exI[of _ "[pa]"]) simp
    next
      fix s2 qs ps2
      assume run: "mappages r va PGSIZE pa ?perm s1 = Inr (0, s2)" and ps1: "ps1 = qs @ ps2" and len: "length qs \<le> 2"
        and ok2: "uvm_ok s2 R (insert (r, n) W) ps2" and more2: "phys.more s2 = phys.more s1"
        and leaf2: "\<forall>r'\<in>R. \<forall>n'<2 ^ 27. leaf (mem s2) r' n' =
           (if r' = r \<and> n' = n then PA2PTE pa OR ?perm OR PTE_V else leaf (mem s1) r' n')"
        and same2: "\<forall>x. PGROUNDDOWN x \<in> insert pa (opage (mem s1) ` W) \<longrightarrow> mem s2 x = mem s1 x"
      define s3 where s3: "s3 = s2\<lparr>mem := memset (mem s2) pa 0 4096\<rparr>"
      have m3: "memset (mem s2) pa 0 4096 = mem s3"
        by (simp add: s3)
      have "\<forall>x. PGROUNDDOWN x \<noteq> pa \<longrightarrow> memset (mem s2) pa 0 4096 x = mem s2 x"
        using region_page[OF pa(2)] by (simp add: memset_apply)
      note w = mapped_page[OF sp(4) ok2 r n leaf2 same2 pa perm(1) this]
      have zero: "memset (mem s2) pa 0 4096 (pa + of_nat (i mod 4096)) = 0" for i
        using region_page[OF pa(2)] PGROUNDDOWN_offset[OF pa(2)] by (simp add: memset_apply)
      have umem3: "umem (mem s3) r' a = (if r' = r \<and> vpn a = n then Some 0 else umem (mem s) r' a)"
        if "r' \<in> R" "unat a < 2 ^ 39" for r' a
        by (simp only: m3[symmetric] w(3)[OF that] perm(3) if_True zero sp(2))
      have leaf3: "leaf (mem s3) r' i = (if r' = r \<and> i = n then PA2PTE pa OR ?perm OR PTE_V else leaf (mem s) r' i)"
        if "r' \<in> R" "i < 2 ^ 27" for r' i
        using w(2)[OF that] sp(2) by (simp add: m3)
      have step: "uvmalloc_loop r lim xperm va s = uvmalloc_loop r lim xperm (va + 4096) s3"
        using lt kalloc run pa s3 by (subst uvmalloc_loop.simps) simp
      have inv3: "leaf (mem s3) r i AND PTE_V = 0" if "Suc n \<le> i" "i < Suc n + k" for i
        using leaf3[OF r, of i] that Suc.prems(4,5) by simp
      have lim: "unat lim = 4096 * (Suc n + k)" "Suc n + k \<le> 2 ^ 27"
        using Suc.prems(3,4) by simp_all
      obtain s' j ps' where IH: "uvmalloc_loop r lim xperm (va + 4096) s3 = Some (Inr (of_nat (4096 * (Suc n + j)), s'))"
        "j \<le> k" "uvm_ok s' R (insert (r, n) W \<union> rows r (Suc n) (Suc n + j)) ps'" "set ps' \<subseteq> set ps2"
        "phys.more s' = phys.more s3"
        "(j < k \<longrightarrow> length ps2 \<le> 3 * Suc j \<and> length ps' \<le> 1) \<and> length ps2 \<le> 3 * j + length ps' + 2"
        and umem': "\<forall>r'\<in>R. \<forall>a. unat a < 2 ^ 39 \<longrightarrow> umem (mem s') r' a =
          (if (r', vpn a) \<in> rows r (Suc n) (Suc n + j) then Some 0 else umem (mem s3) r' a)"
        and leaf': "\<forall>r'\<in>R. \<forall>i<2 ^ 27. (r', i) \<notin> rows r (Suc n) (Suc n + j) \<longrightarrow> leaf (mem s') r' i = leaf (mem s3) r' i"
        using Suc.IH[OF w(1)[unfolded m3[symmetric], folded s3] unat_next_page[OF Suc.prems(2) n] lim inv3] by blast
      have rows: "rows r n (n + Suc j) = insert (r, n) (rows r (Suc n) (Suc n + j))"
        by (simp add: rows_Suc)
      have W': "insert (r, n) W \<union> rows r (Suc n) (Suc n + j) = W \<union> rows r n (n + Suc j)"
        unfolding rows by auto
      have "umem (mem s') r' a = (if (r', vpn a) \<in> rows r n (n + Suc j) then Some 0 else umem (mem s) r' a)"
        if "r' \<in> R" "unat a < 2 ^ 39" for r' a
        unfolding rows using umem'[rule_format, OF that] umem3[OF that] by auto
      moreover have "leaf (mem s') r' i = leaf (mem s) r' i"
        if "r' \<in> R" "i < 2 ^ 27" "(r', i) \<notin> rows r n (n + Suc j)" for r' i
        using leaf'[rule_format, OF that(1,2)] leaf3[OF that(1,2)] that(3) unfolding rows by auto
      moreover have "set ps' \<subseteq> set ps" "phys.more s' = phys.more s" "Suc j \<le> Suc k"
        "(Suc j < Suc k \<longrightarrow> length ps \<le> 3 * Suc (Suc j) \<and> length ps' \<le> 1) \<and> length ps \<le> 3 * Suc j + length ps' + 2"
        using IH(2,4,5,6) Cons ps1 len more2 sp(3) by (auto simp: s3)
      ultimately show ?thesis
        using IH(1,3) step unfolding W' by (intro exI[of _ s'] exI[of _ "Suc j"] exI[of _ ps']) simp
    qed
  qed
qed

text \<open>The pages of all the other address spaces.\<close>

definition others :: "addr \<Rightarrow> (addr \<times> nat) set \<Rightarrow> (addr \<times> nat) set" where
  "others r W = {w \<in> W. fst w \<noteq> r}"

lemma umem_unowned:
  assumes "uvm_ok s R W ps" "r \<in> R" "unat a < 2 ^ 39" "(r, vpn a) \<notin> W"
  shows "umem (mem s) r a = None"
  using uvm_ok_user[OF assms(1,2) vpn_less[OF assms(3)]] assms(4) by (auto simp: umem_def Let_def)

text \<open>All the pages of one address space are unmapped, from the bottom.\<close>

lemma unmap_all:
  assumes ok: "uvm_ok s R W ps" and own: "W \<inter> {r} \<times> UNIV = rows r 0 n"
  obtains s' where "uvmunmap_loop r n True 0 s = Inr s'" "phys.more s' = phys.more s"
    "uvm_ok s' R (others r W) (rev (map (\<lambda>i. opage (mem s) (r, i)) [0..<n]) @ ps)"
    "\<And>i. r \<in> R \<Longrightarrow> i < 2 ^ 27 \<Longrightarrow> leaf (mem s') r i = (if i < n then 0 else leaf (mem s) r i)"
    "\<And>r' a. r' \<in> R - {r} \<Longrightarrow> unat a < 2 ^ 39 \<Longrightarrow> umem (mem s') r' a = umem (mem s) r' a"
    "\<And>r' q. r' \<in> R \<Longrightarrow> q \<in> paths \<Longrightarrow> tbl (mem s') r' q = tbl (mem s) r' q"
proof -
  have in_own: "(r, i) \<in> W \<longleftrightarrow> i < n" for i
  proof -
    have "(r, i) \<in> W \<inter> {r} \<times> UNIV \<longleftrightarrow> (r, i) \<in> rows r 0 n" by (simp only: own)
    then show ?thesis by simp
  qed
  have sub: "rows r 0 (0 + n) \<subseteq> W"
    by (rule subrelI) (simp add: in_own)
  have "(r', i) \<in> W - rows r 0 (0 + n) \<longleftrightarrow> (r', i) \<in> others r W" for r' i
    using in_own[of i] by (cases "r' = r") (simp_all add: others_def)
  then have W: "W - rows r 0 (0 + n) = others r W"
    by (auto simp only: set_eq_iff split_paired_all)
  have zero: "unat (0 :: uint64) = 4096 * 0" by simp
  obtain s' where run: "uvmunmap_loop r n True 0 s = Inr s'" and more: "phys.more s' = phys.more s"
    and ok': "uvm_ok s' R (others r W) (rev (map (\<lambda>i. opage (mem s) (r, i)) [0..<0 + n]) @ ps)"
    and leaf: "\<forall>r'\<in>R. \<forall>n'<2 ^ 27. leaf (mem s') r' n' = (if (r', n') \<in> rows r 0 (0 + n) then 0 else leaf (mem s) r' n')"
    and same: "\<forall>x. PGROUNDDOWN x \<in> opage (mem s) ` others r W \<longrightarrow> mem s' x = mem s x"
    and tbl: "\<forall>r'\<in>R. \<forall>q\<in>paths. tbl (mem s') r' q = tbl (mem s) r' q"
    using uvmunmap_loop_owned[OF ok sub zero] unfolding W by blast
  have "umem (mem s') r' a = umem (mem s) r' a" if r: "r' \<in> R - {r}" and a: "unat a < 2 ^ 39" for r' a
  proof (rule umem_same[OF ok _ _ a])
    show "leaf (mem s') r' (vpn a) = leaf (mem s) r' (vpn a)"
      using leaf r vpn_less[OF a] by simp
    show "mem s' x = mem s x" if "(r', vpn a) \<in> W" "PGROUNDDOWN x = opage (mem s) (r', vpn a)" for x
      using that r same by (auto simp: others_def)
  qed (use r in auto)
  moreover have "leaf (mem s') r i = (if i < n then 0 else leaf (mem s) r i)" if "r \<in> R" "i < 2 ^ 27" for i
    using leaf that by simp
  ultimately show ?thesis
    using that[OF run more] ok' tbl by simp
qed

lemma uvmcopy_err_owned:
  assumes ok: "uvm_ok s R W ps" and new: "W \<inter> {new} \<times> UNIV = rows new 0 i" and i: "unat v = 4096 * i"
  shows "\<exists>s' ps'. uvmcopy_err new v s = Inr (-1, s') \<and> uvm_ok s' R (others new W) ps' \<and>
    phys.more s' = phys.more s \<and>
    (\<forall>r\<in>R - {new}. \<forall>a. unat a < 2 ^ 39 \<longrightarrow> umem (mem s') r a = umem (mem s) r a)"
proof (rule unmap_all[OF ok new])
  fix s' assume run: "uvmunmap_loop new i True 0 s = Inr s'" and "phys.more s' = phys.more s"
    "uvm_ok s' R (others new W) (rev (map (\<lambda>j. opage (mem s) (new, j)) [0..<i]) @ ps)"
    "\<And>r' a. r' \<in> R - {new} \<Longrightarrow> unat a < 2 ^ 39 \<Longrightarrow> umem (mem s') r' a = umem (mem s) r' a"
  moreover have "uvmcopy_err new v s = Inr (-1, s')"
    using run i by (simp add: uvmcopy_err_def uvmunmap_def unat_div)
  ultimately show ?thesis by blast
qed

lemma PTE_FLAGS_less: "PTE_FLAGS e < 1024"
  using word_and_le1[of e "0x3FF"] by (simp add: PTE_FLAGS_def word_le_nat_alt word_less_nat_alt and.commute)

lemma PTE_FLAGS_V: "e AND PTE_V \<noteq> 0 \<Longrightarrow> PTE_FLAGS e OR PTE_V = PTE_FLAGS e"
  by (rule bit_word_eqI) (auto simp: PTE_FLAGS_def PTE_V_iff bit_simps)

lemma bit_PTE_FLAGS: "bit (PTE_FLAGS e) 4 \<longleftrightarrow> bit e 4"
  by (simp add: PTE_FLAGS_def bit_and_iff)

lemma umem_owned:
  assumes ok: "uvm_ok s R W ps" and W: "(r, vpn a) \<in> W"
  shows "umem (mem s) r a = (if bit (leaf (mem s) r (vpn a)) 4
    then Some (mem s (opage (mem s) (r, vpn a) + of_nat (unat a mod 4096))) else None)"
proof -
  have "leaf (mem s) r (vpn a) AND PTE_V \<noteq> 0" "opage (mem s) (r, vpn a) \<noteq> 0"
    using ok W by (auto simp: uvm_ok_def image_iff)
  then show ?thesis
    by (auto simp: umem_def user_page_def opage_def Let_def page_off PTE_U_iff)
qed

lemma uvmcopy_loop_owned:
  assumes "uvm_ok s R W ps" and r: "old \<in> R" "new \<in> R" "old \<noteq> new"
    and "unat v = 4096 * i" "(unat sz + 4095) div 4096 = i + k" "i + k \<le> 2 ^ 27"
    and "rows old i (i + k) \<subseteq> W" "W \<inter> {new} \<times> UNIV = rows new 0 i"
    and "\<And>j. i \<le> j \<Longrightarrow> j < i + k \<Longrightarrow> leaf (mem s) new j AND PTE_V = 0"
  shows "\<exists>res s' ps'. uvmcopy_loop old new sz v s = Some (Inr (res, s')) \<and> phys.more s' = phys.more s \<and>
    (res = 0 \<and> uvm_ok s' R (W \<union> rows new i (i + k)) ps' \<and>
      (\<forall>r\<in>R. \<forall>a. unat a < 2 ^ 39 \<longrightarrow> umem (mem s') r a =
         umem (mem s) (if (r, vpn a) \<in> rows new i (i + k) then old else r) a) \<or>
     res = -1 \<and> length ps \<le> 3 * k \<and> uvm_ok s' R (others new W) ps' \<and>
      (\<forall>r\<in>R - {new}. \<forall>a. unat a < 2 ^ 39 \<longrightarrow> umem (mem s') r a = umem (mem s) r a))"
  using assms(1,5-)
proof (induction k arbitrary: i v s W ps)
  case 0
  have "\<not> v < sz"
    using 0 by (simp add: word_less_nat_alt)
  then show ?case
    using 0(1) by (subst uvmcopy_loop.simps) auto
next
  case (Suc k)
  have lt: "v < sz"
    using Suc.prems(2,3) div_less_iff_less_mult[of 4096 "unat sz + 4095" "Suc i"]
    by (auto simp: word_less_nat_alt)
  have i: "i < 2 ^ 27" "(old, i) \<in> W"
    using Suc.prems(4,5) by auto
  let ?e = "leaf (mem s) old i" and ?po = "opage (mem s) (old, i)"
  have e: "?e AND PTE_V \<noteq> 0" "PTE_FLAGS ?e \<noteq> PTE_V"
    using Suc.prems(1) i(2) by (auto simp: uvm_ok_def)
  obtain pte where walk: "walk old v False s = (pte, s)" "pte \<noteq> 0" "load64 (mem s) pte = ?e"
    by (rule walk_leaf_pte[OF Suc.prems(1) r(1) vpn_aligned[OF Suc.prems(2)] e(1)]) blast
  have perm: "PTE_FLAGS ?e < 1024" "PTE_FLAGS ?e OR PTE_V \<noteq> PTE_V"
    using PTE_FLAGS_less e(2) unfolding PTE_FLAGS_V[OF e(1)] by simp_all
  show ?case
  proof (cases ps)
    case Nil
    then have "kalloc s = (0, s)"
      using kalloc_empty Suc.prems(1) by blast
    then have "uvmcopy_loop old new sz v s = Some (uvmcopy_err new v s)"
      using lt walk e by (subst uvmcopy_loop.simps) simp
    then show ?thesis
      using uvmcopy_err_owned[OF Suc.prems(1,6,2)] Nil by auto
  next
    case (Cons pg ps1)
    obtain p s1 where k: "kalloc s = (p, s1)" by fastforce
    note sp = kalloc_spare[OF Suc.prems(1)[unfolded Cons] k]
    have kalloc: "kalloc s = (pg, s1)" and pg: "pg \<noteq> 0" "page_aligned pg"
      using k sp(1,5) by (auto simp: spare_def)
    define m2 where m2: "m2 = memmove (mem s) pg ?po 4096"
    have "pg \<noteq> ?po"
      using sp(5) i(2) by (auto simp: spare_def sp(2))
    moreover have "page_aligned ?po"
      by (simp add: opage_def)
    ultimately have copy: "m2 = store_bytes (mem s) pg (load_bytes (mem s) ?po 4096)"
      unfolding m2 using page_region_disjoint[of pg ?po 0 4096 0 4096] pg(2)
      by (subst memmove_disjoint) simp_all
    have diff: "\<forall>x. PGROUNDDOWN x \<noteq> pg \<longrightarrow> m2 x = mem s1 x"
      using region_page[OF pg(2)] by (simp add: copy sp(2) store_bytes_other)
    have m2_pg: "m2 (pg + of_nat (j mod 4096)) = mem s (?po + of_nat (j mod 4096))" for j
      unfolding copy by (subst store_bytes_nth) simp_all
    note w = spare_write[OF sp(4,5) diff]
    let ?s2 = "s1\<lparr>mem := m2\<rparr>"
    have inv: "leaf (mem ?s2) new i AND PTE_V = 0"
      using Suc.prems(7)[of i] w(3)[OF r(2)] by (simp add: sp(2))
    have step: "uvmcopy_loop old new sz v s = (case mappages new v PGSIZE pg (PTE_FLAGS ?e) ?s2 of
        Inl f \<Rightarrow> Some (Inl f)
      | Inr (res, s3) \<Rightarrow> if res \<noteq> 0 then Some (bnd (kfree pg s3) (uvmcopy_err new v))
          else uvmcopy_loop old new sz (v + 4096) s3)"
      using lt walk e kalloc pg(1) by (subst uvmcopy_loop.simps) (simp add: sp(2) m2 opage_def Let_def)
    have umem2: "umem m2 r' a = umem (mem s) r' a" if "r' \<in> R" "unat a < 2 ^ 39" for r' a
      using w(4)[OF that] by (simp add: sp(2))
    show ?thesis
    proof (rule map_spare[OF w(1,2) r(2) Suc.prems(2) i(1) inv perm])
      fix s3
      assume run: "mappages new v PGSIZE pg (PTE_FLAGS ?e) ?s2 = Inr (-1, s3)" and len: "length ps1 \<le> 2" and ok3: "uvm_ok s3 R W []"
        and sp3: "spare s3 R W [] pg" and more3: "phys.more s3 = phys.more ?s2"
        and leaf3: "\<And>r' n'. r' \<in> R \<Longrightarrow> n' < 2 ^ 27 \<Longrightarrow> leaf (mem s3) r' n' = leaf (mem ?s2) r' n'"
        and same3: "\<And>x. PGROUNDDOWN x \<in> insert pg (opage (mem ?s2) ` W) \<Longrightarrow> mem s3 x = mem ?s2 x"
      obtain s4 where fr: "kfree pg s3 = Inr s4" "uvm_ok s4 R W [pg]" "phys.more s4 = phys.more s3"
        and umem4: "\<And>r a. r \<in> R \<Longrightarrow> unat a < 2 ^ 39 \<Longrightarrow> umem (mem s4) r a = umem (mem s3) r a"
        by (rule kfree_spare[OF ok3 sp3]) blast
      have "umem (mem s4) r' a = umem (mem s) r' a" if "r' \<in> R" "unat a < 2 ^ 39" for r' a
        using umem4[OF that] umem_map[OF w(1) that leaf3[OF that(1) vpn_less[OF that(2)]] same3] umem2[OF that]
        by simp
      then show ?thesis
        using uvmcopy_err_owned[OF fr(2) Suc.prems(6,2)] run fr(1,3) more3 sp(3) len Cons by (auto simp: step)
    next
      fix s3 qs ps3
      assume run: "mappages new v PGSIZE pg (PTE_FLAGS ?e) ?s2 = Inr (0, s3)"
        and ps1: "ps1 = qs @ ps3" and len: "length qs \<le> 2"
        and ok3: "uvm_ok s3 R (insert (new, i) W) ps3" and more3: "phys.more s3 = phys.more ?s2"
        and leaf3: "\<forall>r'\<in>R. \<forall>n'<2 ^ 27. leaf (mem s3) r' n' =
           (if r' = new \<and> n' = i then PA2PTE pg OR PTE_FLAGS ?e OR PTE_V else leaf (mem ?s2) r' n')"
        and same3: "\<forall>x. PGROUNDDOWN x \<in> insert pg (opage (mem ?s2) ` W) \<longrightarrow> mem s3 x = mem ?s2 x"
      note mp = mapped_page[OF w(1) ok3 r(2) i(1) leaf3 same3 pg perm(1), of "mem s3"]
      have umem3: "umem (mem s3) r' a = umem (mem s) (if r' = new \<and> vpn a = i then old else r') a"
        if "r' \<in> R" "unat a < 2 ^ 39" for r' a
      proof (cases "r' = new \<and> vpn a = i")
        case True
        have "mem s3 (pg + of_nat (unat a mod 4096)) = mem s (?po + of_nat (unat a mod 4096))"
          using same3 PGROUNDDOWN_offset[OF pg(2), of "unat a mod 4096"] m2_pg by simp
        then show ?thesis
          using mp(3)[OF _ that] umem_owned[OF Suc.prems(1), of old a] i(2) True bit_PTE_FLAGS by simp
      next
        case False
        with mp(3)[OF _ that] umem2[OF that] show ?thesis by auto
      qed
      have rows: "rows r' i (i + Suc k) = insert (r', i) (rows r' (Suc i) (Suc i + k))" for r'
        by (simp add: rows_Suc)
      have inv3: "leaf (mem s3) new j AND PTE_V = 0" if "Suc i \<le> j" "j < Suc i + k" for j
        using leaf3 r(2) that Suc.prems(4,7) w(3)[OF r(2)] by (simp add: sp(2))
      have lim: "(unat sz + 4095) div 4096 = Suc i + k" "Suc i + k \<le> 2 ^ 27"
        using Suc.prems(3,4) by simp_all
      have old_rows: "rows old (Suc i) (Suc i + k) \<subseteq> insert (new, i) W"
        using Suc.prems(5) unfolding rows by auto
      have "insert (new, i) W \<inter> {new} \<times> UNIV = insert (new, i) (rows new 0 i)"
        unfolding Suc.prems(6)[symmetric] by auto
      also have "\<dots> = rows new 0 (Suc i)"
        by (auto simp: rows_def)
      finally have new_rows: "insert (new, i) W \<inter> {new} \<times> UNIV = rows new 0 (Suc i)" .
      obtain res s' ps' where IH: "uvmcopy_loop old new sz (v + 4096) s3 = Some (Inr (res, s'))"
        "phys.more s' = phys.more s3"
        "res = 0 \<and> uvm_ok s' R (insert (new, i) W \<union> rows new (Suc i) (Suc i + k)) ps' \<and>
          (\<forall>r\<in>R. \<forall>a. unat a < 2 ^ 39 \<longrightarrow> umem (mem s') r a =
             umem (mem s3) (if (r, vpn a) \<in> rows new (Suc i) (Suc i + k) then old else r) a) \<or>
         res = -1 \<and> length ps3 \<le> 3 * k \<and> uvm_ok s' R (others new (insert (new, i) W)) ps' \<and>
          (\<forall>r\<in>R - {new}. \<forall>a. unat a < 2 ^ 39 \<longrightarrow> umem (mem s') r a = umem (mem s3) r a)"
        using Suc.IH[OF ok3 unat_next_page[OF Suc.prems(2) i(1)] lim old_rows new_rows inv3] by blast
      have run': "uvmcopy_loop old new sz v s = Some (Inr (res, s'))" "phys.more s' = phys.more s"
        using step run IH(1,2) more3 sp(3) by simp_all
      have W': "insert (new, i) W \<union> rows new (Suc i) (Suc i + k) = W \<union> rows new i (i + Suc k)"
        unfolding rows by auto
      have oth: "others new (insert (new, i) W) = others new W"
        by (auto simp: others_def)
      from IH(3) show ?thesis
      proof (elim disjE conjE)
        assume "res = 0" and ok': "uvm_ok s' R (insert (new, i) W \<union> rows new (Suc i) (Suc i + k)) ps'"
          and umem': "\<forall>r\<in>R. \<forall>a. unat a < 2 ^ 39 \<longrightarrow> umem (mem s') r a =
             umem (mem s3) (if (r, vpn a) \<in> rows new (Suc i) (Suc i + k) then old else r) a"
        have "umem (mem s') r' a = umem (mem s) (if (r', vpn a) \<in> rows new i (i + Suc k) then old else r') a"
          if "r' \<in> R" "unat a < 2 ^ 39" for r' a
          using umem' that umem3[OF r(1) that(2)] umem3[OF that] r(3) unfolding rows by auto
        with \<open>res = 0\<close> ok' run' show ?thesis
          unfolding W' by blast
      next
        assume "res = -1" and "length ps3 \<le> 3 * k"
          and ok': "uvm_ok s' R (others new (insert (new, i) W)) ps'"
          and umem': "\<forall>r\<in>R - {new}. \<forall>a. unat a < 2 ^ 39 \<longrightarrow> umem (mem s') r a = umem (mem s3) r a"
        have "umem (mem s') r' a = umem (mem s) r' a" if "r' \<in> R - {new}" "unat a < 2 ^ 39" for r' a
          using umem' that umem3[of r' a] by simp
        moreover have "length ps \<le> 3 * Suc k"
          using \<open>length ps3 \<le> 3 * k\<close> len ps1 Cons by simp
        ultimately show ?thesis
          using \<open>res = -1\<close> ok' run' unfolding oth by blast
      qed
    qed
  qed
qed


end
