(* ===== verification/Xv6_Root.thy ===== *)
theory Xv6_Root
  imports Xv6_Uvm
begin

text \<open>
  New page tables.  A zeroed page is a page table that maps nothing; the kernel makes one with
  \<^verbatim>\<open>kalloc\<close> and \<^verbatim>\<open>memset\<close> (\<^verbatim>\<open>kvminit\<close>, \<^verbatim>\<open>proc_pagetable\<close>).  Small closed states built with the
  allocator's own operations serve as concrete inputs for the theorems.
\<close>

definition zero_page :: "memory \<Rightarrow> addr \<Rightarrow> bool" where
  "zero_page m r \<longleftrightarrow> page_aligned r \<and> r \<noteq> 0 \<and> (\<forall>x. PGROUNDDOWN x = r \<longrightarrow> m x = 0)"

lemma load64_zero:
  assumes "zero_page m r" "i < 512"
  shows "load64 m (pte_at r i) = 0"
proof -
  have "load64 m (pte_at r i) = load64 (memset m r 0 4096) (pte_at r i)"
    using assms region_page[of r] by (intro load64_page_cong) (auto simp: zero_page_def memset_apply)
  then show ?thesis
    using assms by (simp add: zero_page_def load64_zero_page)
qed

lemma tbl_zero:
  assumes "zero_page m r" "p \<in> paths"
  shows "tbl m r p = (if p = [] then Some r else None)"
  using assms(2) load64_zero[OF assms(1)] by (cases p) (auto simp: paths_def entry_def)

lemma leaf_zero: "zero_page m r \<Longrightarrow> leaf m r n = 0"
proof -
  assume "zero_page m r"
  then have "tbl m r (vpath n) = None"
    using tbl_zero[OF _ vpath_paths, of m r n] by (simp add: vpath_def[of n])
  then show ?thesis by (simp add: leaf_def)
qed

lemma roots_tables: "r \<in> R \<Longrightarrow> r \<in> tables m R"
  by (rule tablesI[of r R "[]"]) simp_all

text \<open>Adding an empty tree to the trees there are.\<close>

lemma pt_wf_insert:
  assumes wf: "pt_wf m R" and z: "zero_page m r" and new: "r \<notin> tables m R"
  shows "pt_wf m (insert r R)" and "tables m (insert r R) = insert r (tables m R)"
proof -
  have notin: "r \<notin> R"
    using new roots_tables by blast
  have tb: "tbl m r p = Some t \<longleftrightarrow> p = [] \<and> t = r" if "p \<in> paths" for p t
    using tbl_zero[OF z that] by auto
  show tables: "tables m (insert r R) = insert r (tables m R)"
    using tb roots_tables[of r "insert r R" m] by (auto simp: tables_def)
  have other: "tbl m r' p \<noteq> Some r" if "r' \<in> R" "p \<in> paths" for r' p
    using new that by (auto simp: tables_def)
  show "pt_wf m (insert r R)"
    unfolding pt_wf_def tables
  proof (intro conjI ballI allI impI)
    fix t assume "t \<in> insert r (tables m R)"
    then show "page_aligned t" "t \<noteq> 0"
      using wf z by (auto simp: pt_wf_def zero_page_def)
  next
    fix r1 r2 p1 p2 t
    assume *: "r1 \<in> insert r R" "r2 \<in> insert r R" "p1 \<in> paths" "p2 \<in> paths"
      "tbl m r1 p1 = Some t" "tbl m r2 p2 = Some t"
    have "r1 = r2 \<and> p1 = p2"
      using * tb[OF *(3)] tb[OF *(4)] other[of r1 p1] other[of r2 p2] pt_wf_inj[OF wf, of r1 r2 p1 p2 t]
      by (cases "r1 = r"; cases "r2 = r") auto
    then show "r1 = r2" "p1 = p2" by auto
  next
    fix r1 p i t assume *: "r1 \<in> insert r R" "p @ [i] \<in> paths" "tbl m r1 p = Some t"
    show "dir_entry (load64 m (pte_at t i))"
    proof (cases "r1 = r")
      case True
      with * tb[of p t] have "t = r" "i < 512" by (auto simp: paths_snoc)
      then show ?thesis using load64_zero[OF z] by simp
    next
      case False
      with * wf show ?thesis by (auto simp: pt_wf_def)
    qed
  qed
qed

lemma uvm_ok_new_root:
  assumes ok: "uvm_ok s R W ps" and sp: "spare s R W ps r" and z: "zero_page (mem s) r"
  shows "uvm_ok s (insert r R) W ps" "(r, n) \<notin> W" "leaf (mem s) r n = 0"
proof -
  have r: "r \<notin> tables (mem s) R" "r \<notin> set ps" "r \<notin> opage (mem s) ` W"
    using sp by (auto simp: spare_def)
  note ins = pt_wf_insert[OF uvm_okD(2)[OF ok] z r(1)]
  show leaf: "leaf (mem s) r n = 0" for n
    by (rule leaf_zero[OF z])
  have "user_page (mem s) r n = 0" for n
    by (simp add: user_page_def leaf)
  then show "uvm_ok s (insert r R) W ps"
    using ok ins r unfolding uvm_ok_def vm_ok_def by auto
  have "r \<notin> R"
    using r(1) roots_tables by blast
  then show "(r, n) \<notin> W"
    using uvm_okD(4)[OF ok] by auto
qed

section \<open>Small concrete states\<close>

text \<open>\<open>fresh ps\<close>: zeroed memory in which the pages \<open>ps\<close> were freed, last one first.\<close>

definition fresh :: "addr list \<Rightarrow> phys" where
  "fresh ps = foldr push_free ps \<lparr>mem = (\<lambda>_. 0), klist_next = 0\<rparr>"

lemma fresh_pages:
  assumes "distinct ps" "\<forall>p\<in>set ps. page_aligned p \<and> p \<noteq> 0"
  shows "free_pages (fresh ps) ps" "PGROUNDDOWN x \<notin> set ps \<Longrightarrow> mem (fresh ps) x = 0"
proof -
  show "free_pages (fresh ps) ps"
    using assms by (induction ps) (auto simp: fresh_def free_pages_def[of _ "[]"] intro!: push_free_list)
  show "mem (fresh ps) x = 0" if "PGROUNDDOWN x \<notin> set ps"
    using assms that
  proof (induction ps)
    case (Cons p ps)
    have "mem (fresh (p # ps)) x = mem (fresh ps) x"
      using Cons.prems store_leaf_other_page[of p 0 x] by (simp add: fresh_def push_free_def pte_at_def)
    with Cons show ?case by simp
  qed (simp add: fresh_def)
qed

lemma uvm_ok_empty: "free_pages s ps \<Longrightarrow> uvm_ok s {} {} ps"
  by (simp add: uvm_ok_def vm_ok_def pt_wf_def tables_def)

lemma fresh_uvm_ok:
  assumes "distinct (rs @ ps)" "\<forall>p\<in>set (rs @ ps). page_aligned p \<and> p \<noteq> 0"
  shows "uvm_ok (fresh ps) (set rs) {} ps \<and> tables (mem (fresh ps)) (set rs) = set rs"
  using assms
proof (induction rs)
  case Nil
  then show ?case using uvm_ok_empty[OF fresh_pages(1)] by (simp add: tables_def)
next
  case (Cons r rs)
  then have ok: "uvm_ok (fresh ps) (set rs) {} ps" and tables: "tables (mem (fresh ps)) (set rs) = set rs"
    by auto
  have z: "zero_page (mem (fresh ps)) r"
    using Cons.prems fresh_pages(2)[of ps] by (auto simp: zero_page_def)
  have sp: "spare (fresh ps) (set rs) {} ps r"
    using Cons.prems tables by (auto simp: spare_def)
  show ?case
    using uvm_ok_new_root(1)[OF ok sp z] pt_wf_insert(2)[OF uvm_okD(2)[OF ok] z] tables Cons.prems by simp
qed

end
