(* ===== verification/Xv6_Freewalk.thy ===== *)
theory Xv6_Freewalk
  imports Xv6_Root
begin

text \<open>
  Taking an address space down: \<^verbatim>\<open>freewalk\<close> returns every table of a tree without leaves to the
  allocator, and \<^verbatim>\<open>uvmfree\<close> every page of the address space.  \<^verbatim>\<open>freewalk\<close> overwrites a child before it
  visits the next entry of its parent, so the proof follows the tree as it was at the start
  (memory \<open>m0\<close>) and keeps the part that is still to be visited unchanged.
\<close>

definition subtables :: "memory \<Rightarrow> addr \<Rightarrow> nat list \<Rightarrow> addr set" where
  "subtables m r q = {u. \<exists>p. q @ p \<in> paths \<and> tbl m r (q @ p) = Some u}"

text \<open>What \<open>freewalk_from t i\<close> frees, for the table \<open>t\<close> at path \<open>q\<close>.\<close>

definition to_free :: "memory \<Rightarrow> addr \<Rightarrow> nat list \<Rightarrow> nat \<Rightarrow> addr set" where
  "to_free m r q i = insert (the (tbl m r q)) (\<Union>j\<in>{i..<512}. subtables m r (q @ [j]))"

lemma subtables_tables: "r \<in> R \<Longrightarrow> subtables m r q \<subseteq> tables m R"
  by (auto simp: subtables_def tables_def)

lemma subtables_empty: "tbl m r q = None \<Longrightarrow> subtables m r q = {}" "2 < length q \<Longrightarrow> subtables m r q = {}"
  by (auto simp: subtables_def tbl_append paths_def)

lemma subtables_split:
  assumes "tbl m r q = Some t" "q \<in> paths"
  shows "subtables m r q = to_free m r q 0"
proof (intro equalityI subsetI)
  fix u assume "u \<in> subtables m r q"
  then obtain p where p: "q @ p \<in> paths" "tbl m r (q @ p) = Some u"
    by (auto simp: subtables_def)
  show "u \<in> to_free m r q 0"
  proof (cases p)
    case Nil
    with p assms show ?thesis by (simp add: to_free_def)
  next
    case (Cons j p')
    with p have "j < 512" "u \<in> subtables m r (q @ [j])"
      by (auto simp: paths_def subtables_def)
    then show ?thesis by (auto simp: to_free_def)
  qed
next
  fix u assume "u \<in> to_free m r q 0"
  then show "u \<in> subtables m r q"
    using assms by (auto simp: to_free_def subtables_def intro: exI[of _ "[]"])
qed

lemma subtables_disjoint:
  assumes "pt_wf m R" "r \<in> R" "i \<noteq> j"
  shows "subtables m r (q @ [i]) \<inter> subtables m r (q @ [j]) = {}"
proof -
  have False if "(q @ [i]) @ p \<in> paths" "tbl m r ((q @ [i]) @ p) = Some u"
    "(q @ [j]) @ p' \<in> paths" "tbl m r ((q @ [j]) @ p') = Some u" for p p' u
    using pt_wf_inj[OF assms(1,2,2) that(1,3,2,4)] assms(3) by simp
  then show ?thesis
    unfolding subtables_def by blast
qed

lemma root_not_sub:
  assumes "pt_wf m R" "r \<in> R" "tbl m r q = Some t" "q \<in> paths"
  shows "t \<notin> subtables m r (q @ [i])"
proof
  assume "t \<in> subtables m r (q @ [i])"
  then obtain p where "(q @ [i]) @ p \<in> paths" "tbl m r ((q @ [i]) @ p) = Some t"
    by (auto simp: subtables_def)
  then have "q = (q @ [i]) @ p"
    using pt_wf_inj[OF assms(1,2,2,4) _ assms(3)] by blast
  then show False by simp
qed

lemma to_free_Suc: "i < 512 \<Longrightarrow> to_free m r q i = to_free m r q (Suc i) \<union> subtables m r (q @ [i])"
proof -
  assume "i < 512"
  then have "{i..<512} = insert i {Suc i..<512}" by auto
  then show ?thesis by (auto simp: to_free_def)
qed

lemma to_free_disjoint:
  assumes "pt_wf m R" "r \<in> R" "tbl m r q = Some t" "q \<in> paths"
  shows "to_free m r q (Suc i) \<inter> subtables m r (q @ [i]) = {}"
proof -
  have "subtables m r (q @ [j]) \<inter> subtables m r (q @ [i]) = {}" if "j \<in> {Suc i..<512}" for j
    using subtables_disjoint[OF assms(1,2)] that by auto
  then have "(\<Union>j\<in>{Suc i..<512}. subtables m r (q @ [j])) \<inter> subtables m r (q @ [i]) = {}"
    by blast
  then show ?thesis
    using root_not_sub[OF assms] assms(3) by (simp add: to_free_def)
qed

text \<open>No leaf is mapped.\<close>

definition no_leaves :: "memory \<Rightarrow> addr \<Rightarrow> bool" where
  "no_leaves m r \<longleftrightarrow> (\<forall>n<2 ^ 27. leaf m r n AND PTE_V = 0)"

lemma no_leaves_entry:
  assumes "no_leaves m r" "q \<in> paths" "length q = 2" "tbl m r q = Some t" "i < 512"
  shows "load64 m (pte_at t i) AND PTE_V = 0"
proof -
  obtain a b where q: "q = [a, b]" "a < 512" "b < 512"
    using assms(2,3) by (auto simp: paths_def length_Suc_conv numeral_2_eq_2)
  define n where "n = a * 2 ^ 18 + b * 2 ^ 9 + i"
  have "n < 2 ^ 27" "n mod 512 = i"
    using q assms(5) by (simp_all add: n_def mod_add_left_eq[symmetric])
  moreover have "n div 2 ^ 9 = a * 512 + b" "n div 2 ^ 18 = a"
    using q assms(5) by (simp_all add: n_def)
  then have "vpath n = q"
    using q by (simp add: vpath_def)
  ultimately show ?thesis
    using assms(1,4) by (auto simp: no_leaves_def leaf_def dest!: spec[of _ n])
qed

section \<open>The recursion\<close>

text \<open>\<open>tree_at m0 r s D\<close>: the pages \<open>D\<close> still hold what they held in \<open>m0\<close>, and none of them is free.\<close>

definition tree_at :: "memory \<Rightarrow> 'a phys_scheme \<Rightarrow> addr list \<Rightarrow> addr set \<Rightarrow> bool" where
  "tree_at m0 s ps D \<longleftrightarrow> free_pages s ps \<and> D \<inter> set ps = {} \<and>
     (\<forall>x. PGROUNDDOWN x \<in> D \<longrightarrow> mem s x = m0 x)"

definition frees :: "'a phys_scheme \<Rightarrow> addr list \<Rightarrow> addr set \<Rightarrow> 'a phys_scheme res option \<Rightarrow> bool" where
  "frees s ps D out \<longleftrightarrow> (\<exists>s' ts. out = Some (Inr s') \<and> free_pages s' (ts @ ps) \<and> set ts = D \<and>
     phys.more s' = phys.more s \<and> (\<forall>x. PGROUNDDOWN x \<notin> D \<longrightarrow> mem s' x = mem s x))"

lemma freewalk_kfree:
  assumes "tree_at m0 s ps {t}" "page_aligned t" "t \<noteq> 0"
  shows "frees s ps {t} (freewalk_from t 512 s)"
proof -
  have "free_pages (push_free t s) ([t] @ ps)"
    using assms push_free_list[of s ps t] by (simp add: tree_at_def)
  moreover have "mem (push_free t s) x = mem s x" if "PGROUNDDOWN x \<noteq> t" for x
    using that store_leaf_other_page[of t 0 x] assms(2) by (simp add: pte_at_def push_free_def)
  moreover have "freewalk_from t 512 s = Some (Inr (push_free t s))"
    using assms(2) by (subst freewalk_from.simps) (simp add: kfree_def page_aligned_mod)
  moreover have "phys.more (push_free t s) = phys.more s"
    by (simp add: push_free_def)
  ultimately show ?thesis
    unfolding frees_def by (metis empty_set insert_iff list.simps(15) singletonD)
qed

lemma tree_at_step:
  assumes tr: "tree_at m0 s ps (D \<union> C)" and disj: "D \<inter> C = {}" and fr: "frees s ps C (Some (Inr s1))"
  obtains ts where "tree_at m0 s1 (ts @ ps) D" "set ts = C" "phys.more s1 = phys.more s"
    "\<And>x. PGROUNDDOWN x \<notin> C \<Longrightarrow> mem s1 x = mem s x"
proof -
  obtain ts where ts: "free_pages s1 (ts @ ps)" "set ts = C" "phys.more s1 = phys.more s"
    "\<forall>x. PGROUNDDOWN x \<notin> C \<longrightarrow> mem s1 x = mem s x"
    using fr by (auto simp: frees_def)
  have "tree_at m0 s1 (ts @ ps) D"
    using tr disj ts unfolding tree_at_def by (auto simp: disjoint_iff)
  with ts show ?thesis using that by blast
qed

lemma frees_trans:
  assumes "frees s1 (ts @ ps) D out" "set ts = C" "phys.more s1 = phys.more s"
    "\<And>x. PGROUNDDOWN x \<notin> C \<Longrightarrow> mem s1 x = mem s x"
  shows "frees s ps (D \<union> C) out"
proof -
  obtain s' us where "out = Some (Inr s')" "free_pages s' (us @ ts @ ps)" "set us = D"
    "phys.more s' = phys.more s1" "\<forall>x. PGROUNDDOWN x \<notin> D \<longrightarrow> mem s' x = mem s1 x"
    using assms(1) by (auto simp: frees_def)
  with assms(2-) show ?thesis
    unfolding frees_def by (intro exI[of _ s'] exI[of _ "us @ ts"]) auto
qed

lemma freewalk_from_frees:
  assumes wf: "pt_wf m0 R" and r: "r \<in> R" and nl: "no_leaves m0 r"
  shows "length q + l = 2 \<Longrightarrow> q \<in> paths \<Longrightarrow> tbl m0 r q = Some t \<Longrightarrow> k \<le> 512 \<Longrightarrow>
    tree_at m0 s ps (to_free m0 r q (512 - k)) \<Longrightarrow>
    frees s ps (to_free m0 r q (512 - k)) (freewalk_from t (512 - k) s)"
proof (induction l arbitrary: q t k s ps)
  case 0
  have t: "page_aligned t" "t \<noteq> 0"
    using pt_wf_page[OF wf r 0(2,3)] by simp_all
  have none: "to_free m0 r q i = {t}" for i
    using 0(1,3) subtables_empty(2)[of "q @ [_]"] by (auto simp: to_free_def)
  have "frees s ps {t} (freewalk_from t (512 - k) s)" if "k \<le> 512"
    using that 0(5)
  proof (induction k)
    case 0
    then show ?case using freewalk_kfree t none by simp
  next
    case (Suc k)
    let ?i = "512 - Suc k"
    have i: "?i < 512" "Suc ?i = 512 - k"
      using Suc.prems(1) by auto
    have "load64 (mem s) (pte_at t ?i) = load64 m0 (pte_at t ?i)"
      using Suc.prems(2) t(1) i(1) none by (intro load64_page_cong) (auto simp: tree_at_def)
    then have "load64 (mem s) (pte_at t ?i) AND PTE_V = 0"
      using no_leaves_entry[OF nl 0(2) _ 0(3) i(1)] 0(1) by simp
    then have "freewalk_from t ?i s = freewalk_from t (Suc ?i) s"
      using i(1) by (subst freewalk_from.simps) (simp add: pte_at_def)
    then show ?case
      using Suc none i(2) by simp
  qed
  then show ?case
    using 0(4) none by simp
next
  case (Suc l)
  have t: "page_aligned t" "t \<noteq> 0" "the (tbl m0 r q) = t"
    using pt_wf_page[OF wf r Suc.prems(2,3)] Suc.prems(3) by simp_all
  show ?case
    using Suc.prems(4,5)
  proof (induction k arbitrary: s ps)
    case 0
    then show ?case using freewalk_kfree[OF _ t(1,2)] t(3) by (simp add: to_free_def)
  next
    case inner: (Suc k)
    let ?i = "512 - Suc k"
    let ?D = "to_free m0 r q (512 - k)" and ?C = "subtables m0 r (q @ [?i])"
    have i: "?i < 512" "Suc ?i = 512 - k"
      using inner.prems(1) by auto
    have path: "q @ [?i] \<in> paths"
      using Suc.prems(1,2) i(1) by (simp add: paths_snoc)
    have split: "to_free m0 r q ?i = ?D \<union> ?C" and disj: "?D \<inter> ?C = {}"
      using to_free_Suc[OF i(1)] to_free_disjoint[OF wf r Suc.prems(3,2)] i(2) by metis+
    note tr = inner.prems(2)[unfolded split]
    let ?e = "load64 m0 (pte_at t ?i)"
    have ld: "load64 (mem s) (t + 8 * of_nat ?i) = ?e"
      using tr t i(1) unfolding pte_at_def[symmetric]
      by (intro load64_page_cong) (auto simp: tree_at_def to_free_def)
    have dir: "dir_entry ?e"
      using wf r path Suc.prems(3) by (auto simp: pt_wf_def)
    show ?case
    proof (cases "?e AND PTE_V = 0")
      case True
      then have "tbl m0 r (q @ [?i]) = None"
        by (simp add: tbl_snoc Suc.prems(3) entry_def)
      then have none: "?C = {}" by (rule subtables_empty)
      have "freewalk_from t ?i s = freewalk_from t (512 - k) s"
        using i True ld by (subst freewalk_from.simps) simp
      then show ?thesis
        using inner tr unfolding split none by simp
    next
      case False
      let ?c = "PTE2PA ?e"
      have c: "tbl m0 r (q @ [?i]) = Some ?c"
        using False by (simp add: tbl_snoc Suc.prems(3) entry_def)
      have C: "?C = to_free m0 r (q @ [?i]) (512 - 512)"
        using subtables_split[OF c path] by simp
      have "frees s ps ?C (freewalk_from ?c (512 - 512) s)"
        unfolding C using Suc.IH[OF _ path c, of 512] Suc.prems(1) tr[unfolded C]
        by (auto simp: tree_at_def)
      then have child: "frees s ps ?C (freewalk_from ?c 0 s)" by simp
      then obtain s1 where s1: "freewalk_from ?c 0 s = Some (Inr s1)"
        by (auto simp: frees_def)
      obtain ts where ts: "tree_at m0 s1 (ts @ ps) ?D" "set ts = ?C" "phys.more s1 = phys.more s"
        "\<And>x. PGROUNDDOWN x \<notin> ?C \<Longrightarrow> mem s1 x = mem s x"
        using tree_at_step[OF tr disj child[unfolded s1]] by blast
      have "freewalk_from t ?i s = freewalk_from t (512 - k) s1"
        using i False ld dir s1 by (subst freewalk_from.simps) (simp add: dir_entry_def)
      moreover have "frees s1 (ts @ ps) ?D (freewalk_from t (512 - k) s1)"
        using inner.IH[OF _ ts(1)] inner.prems(1) by simp
      ultimately show ?thesis
        unfolding split using frees_trans[OF _ ts(2-4)] by simp
    qed
  qed
qed

text \<open>A tree without leaves goes back to the allocator entirely.\<close>

lemma freewalk_frees:
  assumes ok: "vm_ok s R ps" and r: "r \<in> R" and nl: "no_leaves (mem s) r"
  obtains s' ts where "freewalk r s = Inr s'" "free_pages s' (ts @ ps)" "set ts = tables (mem s) {r}"
    "phys.more s' = phys.more s" "\<And>x. PGROUNDDOWN x \<notin> tables (mem s) {r} \<Longrightarrow> mem s' x = mem s x"
proof -
  have D: "to_free (mem s) r [] 0 = tables (mem s) {r}"
    using subtables_split[of "mem s" r "[]" r] by (auto simp: subtables_def tables_def)
  have "tree_at (mem s) s ps (tables (mem s) {r})"
    using ok r by (auto simp: tree_at_def vm_ok_def tables_def)
  then have "frees s ps (tables (mem s) {r}) (freewalk_from r 0 s)"
    using freewalk_from_frees[OF _ r nl, of "[]" 2 r 512 s ps] ok D by (simp add: vm_ok_def)
  then show ?thesis
    using that by (auto simp: frees_def freewalk_def unhang_def)
qed

section \<open>Freeing an address space\<close>

lemma tables_mono: "Q \<subseteq> R \<Longrightarrow> tables m Q \<subseteq> tables m R"
  by (auto simp: tables_def)

lemma pt_wf_mono: "pt_wf m R \<Longrightarrow> Q \<subseteq> R \<Longrightarrow> pt_wf m Q"
  unfolding pt_wf_def using tables_mono[of Q R m] by (meson subsetD)

lemma uvm_ok_mono:
  assumes "uvm_ok s R W ps" "Q \<subseteq> R" "W \<subseteq> Q \<times> UNIV"
  shows "uvm_ok s Q W ps"
  using assms tables_mono[OF assms(2), of "mem s"] pt_wf_mono[OF _ assms(2), of "mem s"]
  unfolding uvm_ok_def vm_ok_def by fast

lemma tables_split:
  assumes "pt_wf m R" "r \<in> R"
  shows "tables m (R - {r}) \<inter> tables m {r} = {}"
  using assms pt_wf_inj by (fastforce simp: tables_def)

lemma uvm_ok_freewalk:
  assumes ok: "uvm_ok s R W ps" and r: "r \<in> R" and nl: "no_leaves (mem s) r"
  obtains s' ts where "freewalk r s = Inr s'" "uvm_ok s' (R - {r}) W (ts @ ps)"
    "set ts = tables (mem s) {r}" "phys.more s' = phys.more s"
    "\<And>r' a. r' \<in> R - {r} \<Longrightarrow> unat a < 2 ^ 39 \<Longrightarrow> umem (mem s') r' a = umem (mem s) r' a"
proof -
  let ?Q = "R - {r}" and ?T = "tables (mem s) {r}"
  have "(r, n) \<notin> W" for n
    using ok nl by (auto simp: uvm_ok_def no_leaves_def)
  then have "W \<subseteq> ?Q \<times> UNIV"
    using uvm_okD(4)[OF ok] by auto
  then have okQ: "uvm_ok s ?Q W ps"
    by (intro uvm_ok_mono[OF ok]) auto
  obtain s' ts where run: "freewalk r s = Inr s'" and free: "free_pages s' (ts @ ps)" and ts: "set ts = ?T"
    and more: "phys.more s' = phys.more s" and frame: "\<And>x. PGROUNDDOWN x \<notin> ?T \<Longrightarrow> mem s' x = mem s x"
    using freewalk_frees[OF uvm_okD(1)[OF ok] r nl] by metis
  have disj: "tables (mem s) ?Q \<inter> ?T = {}"
    by (rule tables_split[OF uvm_okD(2)[OF ok] r])
  have sub: "?T \<subseteq> tables (mem s) R"
    using r by (intro tables_mono) auto
  have tb: "mem s' x = mem s x" if "PGROUNDDOWN x \<in> tables (mem s) ?Q" for x
    using that disj by (intro frame) auto
  note wf = uvm_okD(2)[OF okQ]
  have tables: "tables (mem s') ?Q = tables (mem s) ?Q"
    using tables_cong[OF tbl_frame[OF wf tb]] by blast
  have leaf: "leaf (mem s') r' n = leaf (mem s) r' n" if "r' \<in> ?Q" for r' n
    using leaf_frame[OF wf tb that] by blast
  have "vm_ok s' ?Q (ts @ ps)"
    using free pt_wf_frame[OF wf tb] disj uvm_okD(8)[OF okQ] ts by (auto simp: vm_ok_def tables)
  moreover have "opage (mem s) ` W \<inter> (tables (mem s') ?Q \<union> set (ts @ ps)) = {}"
    using uvm_okD(6)[OF ok] uvm_okD(6)[OF okQ] sub by (auto simp: tables ts)
  ultimately have ok': "uvm_ok s' ?Q W (ts @ ps)"
    using leaf by (intro uvm_ok_frame[OF okQ]) auto
  have "umem (mem s') r' a = umem (mem s) r' a" if "r' \<in> ?Q" "unat a < 2 ^ 39" for r' a
  proof (rule umem_frame[OF okQ _ _ that])
    fix x assume "PGROUNDDOWN x \<in> opage (mem s) ` W"
    then show "mem s' x = mem s x"
      using uvm_okD(6)[OF ok] sub by (intro frame) auto
  qed (rule leaf)
  then show ?thesis
    using that[OF run ok' ts more] by blast
qed

lemma npages_PGROUNDUP:
  assumes "unat sz \<le> 2 ^ 39"
  shows "unat (PGROUNDUP sz div PGSIZE) = (unat sz + 4095) div 4096"
  using assms unat_PGROUNDUP[of sz] by (simp add: unat_div)

end
