(* ===== verification/Xv6_Vm_Props.thy ===== *)
theory Xv6_Vm_Props
  imports Xv6_Freewalk
begin

text \<open>
  What \<^verbatim>\<open>kernel/vm.c\<close> guarantees: mapping, the copies between kernel and user memory, growing,
  duplicating and freeing an address space.  The concrete inputs are states \<open>fresh ps\<close> with a few
  free pages and zeroed page tables.
\<close>

section \<open>Mapping\<close>

lemma npages_range:
  assumes "0 < unat sz" "unat va + unat sz \<le> 2 ^ 39"
  shows "unat (PGROUNDUP (va + sz - 1)) = (unat va + unat sz + 4094) div 4096 * 4096"
proof -
  have "unat (va + sz - 1) = unat va + unat sz - 1"
    using assms by (simp add: unat_word_ariths unat_sub word_le_nat_alt)
  then show ?thesis
    using assms by (subst unat_PGROUNDUP) (simp_all add: add.commute)
qed


lemma fresh_vm_ok:
  assumes "distinct (rs @ ps)" "\<forall>p\<in>set (rs @ ps). page_aligned p \<and> p \<noteq> 0"
  shows "vm_ok (fresh ps) (set rs) ps"
  by (rule uvm_okD(1)[OF conjunct1[OF fresh_uvm_ok[OF assms]]])

lemma fresh_leaf:
  assumes "distinct (r # ps)" "\<forall>p\<in>set (r # ps). page_aligned p \<and> p \<noteq> 0"
  shows "leaf (mem (fresh ps)) r n = 0"
  using assms fresh_pages(2)[of ps] by (intro leaf_zero) (auto simp: zero_page_def)

text \<open>Five pages for the concrete inputs.\<close>

abbreviation (input) pg1 :: addr where "pg1 \<equiv> 0x80001000"
abbreviation (input) pg2 :: addr where "pg2 \<equiv> 0x80002000"
abbreviation (input) pg3 :: addr where "pg3 \<equiv> 0x80003000"
abbreviation (input) pg4 :: addr where "pg4 \<equiv> 0x80004000"
abbreviation (input) pg5 :: addr where "pg5 \<equiv> 0x80005000"

lemma page_aligned_num: "page_aligned (numeral k) \<longleftrightarrow> take_bit 12 (numeral k :: uint64) = 0"
  by (simp add: page_aligned_def)


text \<open>
  C11: the loop bound of \<^verbatim>\<open>mappages\<close> is \<^verbatim>\<open>PGROUNDUP(va + sz - 1)\<close>, exclusive: a request for one byte at
  a page-aligned address maps no page at all, and still returns 0.
\<close>

theorem mappages_one_byte:
  assumes "page_aligned va" and "va < MAXVA"
  shows "mappages pagetable va 1 pa perm s = Inr (0, s)"
proof -
  have "unat (va + PGSIZE) = unat va + 4096"
    using assms(2) by (simp add: word_less_nat_alt unat_word_ariths)
  then have "\<not> va + PGSIZE \<le> va"
    by (simp add: word_le_nat_alt)
  then show ?thesis
    using assms(1) by (simp add: mappages_def unhang_Inr mappages_loop.simps)
qed

theorem mappages_one_byte_witness:
  "mappages pg1 0x5000 1 0x1234000 PTE_R (fresh [pg2]) = Inr (0, fresh [pg2])"
  by (rule mappages_one_byte) (simp_all add: page_aligned_num)

section \<open>Copies\<close>

lemma copyout_frame_tables:
  assumes ok: "uvm_ok s R W ps" and r: "r \<in> R"
    and same: "\<forall>x. PGROUNDDOWN x \<notin> user_page (mem s) r ` {..<2 ^ 27} \<longrightarrow> m' x = mem s x"
    and x: "PGROUNDDOWN x \<in> tables (mem s) R"
  shows "m' x = mem s x"
proof -
  have "PGROUNDDOWN x \<noteq> user_page (mem s) r n" if n: "n < 2 ^ 27" for n
  proof (cases "user_page (mem s) r n = 0")
    case True
    then show ?thesis using uvm_okD(2)[OF ok] x by (auto simp: pt_wf_def)
  next
    case False
    then show ?thesis
      using uvm_ok_upages_ok[OF ok r] x n by (auto simp: upages_ok_def)
  qed
  then show ?thesis using same by auto
qed


text \<open>
  A small machine for the examples: two page tables with empty roots, at \<open>pg1\<close> and \<open>pg2\<close>, of which the
  first has been grown by one page.
\<close>

abbreviation (input) demo_pages :: "addr list" where
  "demo_pages \<equiv> [pg3, pg4, pg5, 0x80006000, 0x80007000, 0x80008000, 0x80009000, 0x8000a000, 0x8000b000]"

definition demo :: phys where
  "demo = (case uvmalloc_loop pg1 0x1000 PTE_W 0 (fresh demo_pages) of
     Some (Inr (_, s)) \<Rightarrow> s | _ \<Rightarrow> fresh [])"

lemma demo_ok:
  obtains ps where "uvm_ok demo {pg1, pg2} (rows pg1 0 1) ps" "length ps > 3"
    "uvmalloc_loop pg1 0x1000 PTE_W 0 (fresh demo_pages) = Some (Inr (0x1000, demo))"
    "\<forall>a. unat a < 2 ^ 39 \<longrightarrow> umem (mem demo) pg1 a = (if unat a < 4096 then Some 0 else None)"
    "\<forall>n<2 ^ 27. leaf (mem demo) pg2 n = 0" "\<forall>n<2 ^ 27. 1 \<le> n \<longrightarrow> leaf (mem demo) pg1 n = 0"
proof -
  let ?s = "fresh demo_pages"
  have ok: "uvm_ok ?s {pg1, pg2} {} demo_pages"
    using fresh_uvm_ok[of "[pg1, pg2]" demo_pages] by (simp add: page_aligned_num)
  have leaf: "leaf (mem ?s) pg1 n = 0" "leaf (mem ?s) pg2 n = 0" for n
    using fresh_leaf[of pg1 demo_pages n] fresh_leaf[of pg2 demo_pages n] by (simp_all add: page_aligned_num)
  have um: "umem (mem ?s) pg1 a = None" for a
    by (simp add: umem_def user_page_def leaf)
  obtain s' j ps' where run: "uvmalloc_loop pg1 0x1000 PTE_W 0 ?s = Some (Inr (of_nat (4096 * (0 + j)), s'))"
    and j: "j \<le> 1" "j < 1 \<longrightarrow> length demo_pages \<le> 3 * Suc j"
    and ok': "uvm_ok s' {pg1, pg2} ({} \<union> rows pg1 0 (0 + j)) ps'"
    and um': "\<forall>r\<in>{pg1, pg2}. \<forall>a. unat a < 2 ^ 39 \<longrightarrow> umem (mem s') r a =
       (if (r, vpn a) \<in> rows pg1 0 (0 + j) then Some 0 else umem (mem ?s) r a)"
    and leaf': "\<forall>r\<in>{pg1, pg2}. \<forall>i<2 ^ 27. (r, i) \<notin> rows pg1 0 (0 + j) \<longrightarrow> leaf (mem s') r i = leaf (mem ?s) r i"
    and len: "length demo_pages \<le> 3 * j + length ps' + 2"
    using uvmalloc_loop_owned[OF ok insertI1, of 0 0 "0x1000" 1 PTE_W] leaf by fastforce
  have "j = 1" using j by simp
  moreover have "demo = s'" using run by (simp add: demo_def)
  ultimately show ?thesis
    using run ok' um' leaf' len um leaf by (intro that[of ps']) (simp_all add: vpn_def div_eq_0_iff)
qed

lemma demo_upages:
  obtains ps where "uvm_ok demo {pg1, pg2} (rows pg1 0 1) ps"
    "urange (mem demo) pg1 0x10 (unat (3 :: uint64)) = [Some 0, Some 0, Some 0]"
  by (rule demo_ok) (simp add: urange_def upt_rec)


lemma ustring_iff:
  "0 \<notin> set cs \<Longrightarrow> ustring us = (0, cs @ [0]) \<longleftrightarrow>
    length cs < length us \<and> take (Suc (length cs)) us = map Some (cs @ [0])"
proof (induction us arbitrary: cs)
  case (Cons u us)
  show ?case
    using Cons.prems Cons.IH[of "tl cs"] by (cases cs; cases u) (auto split: prod.splits)
qed simp

lemma ustring_total: "(\<exists>cs. ustring us = (0, cs @ [0]) \<and> 0 \<notin> set cs) \<or> fst (ustring us) = -1"
proof (induction us rule: ustring.induct)
  case (1 c us)
  have "\<exists>cs'. (0, c # cs @ [0]) = (0, cs' @ [0]) \<and> 0 \<notin> set cs'" if "c \<noteq> 0" "0 \<notin> set cs" for cs
    using that by (intro exI[of _ "c # cs"]) simp
  then show ?case using 1 by (fastforce split: prod.splits)
qed auto

text \<open>
  C7: \<^verbatim>\<open>copyinstr\<close> reads a NUL-terminated string across page boundaries.  It returns 0 and the
  string \<open>cs\<close> with its NUL exactly when \<open>cs\<close> and a NUL lie at \<^verbatim>\<open>srcva\<close> in memory mapped for the user
  and fit in \<^verbatim>\<open>max\<close> bytes; in every other case it returns -1.
\<close>

theorem copyinstr_string:
  assumes ok: "uvm_ok s R W ps" and r: "r \<in> R"
  shows "(\<forall>cs. 0 \<notin> set cs \<longrightarrow> (copyinstr r va maxlen s = (0, cs @ [0]) \<longleftrightarrow>
      length cs < unat maxlen \<and> urange (mem s) r va (Suc (length cs)) = map Some (cs @ [0]))) \<and>
    ((\<exists>cs. copyinstr r va maxlen s = (0, cs @ [0]) \<and> 0 \<notin> set cs) \<or> fst (copyinstr r va maxlen s) = -1)"
proof -
  let ?us = "urange (mem s) r va (unat maxlen)"
  have "take (Suc n) ?us = urange (mem s) r va (Suc n)" if "n < unat maxlen" for n
    using that by (simp add: urange_def take_map del: upt_Suc)
  moreover have "length ?us = unat maxlen" by (simp add: urange_def)
  ultimately have "ustring ?us = (0, cs @ [0]) \<longleftrightarrow>
      length cs < unat maxlen \<and> urange (mem s) r va (Suc (length cs)) = map Some (cs @ [0])"
    if "0 \<notin> set cs" for cs
    using ustring_iff[OF that, of ?us] by auto
  with ustring_total[of ?us] show ?thesis
    unfolding copyinstr_ustring[OF uvm_okD(2)[OF ok] r] by blast
qed

theorem copyinstr_string_witness:
  "(\<exists>ps. uvm_ok demo {pg1, pg2} (rows pg1 0 1) ps) \<and> copyinstr pg1 0x10 3 demo = (0, [0])"
proof (rule demo_upages)
  fix ps assume ok: "uvm_ok demo {pg1, pg2} (rows pg1 0 1) ps"
    and all: "urange (mem demo) pg1 0x10 (unat (3 :: uint64)) = [Some 0, Some 0, Some 0]"
  have "urange (mem demo) pg1 0x10 1 = [Some 0]"
    using all by (simp add: urange_def upt_rec)
  with copyinstr_string[OF ok insertI1, of "0x10" 3] ok show ?thesis
    by (auto dest: spec[of _ "[]"])
qed

section \<open>Growing, copying and freeing an address space\<close>

text \<open>
  C5: \<^verbatim>\<open>uvmalloc\<close> grows an address space page by page.  It never reports an error: it returns the
  end of the last page it could map, a page boundary between the old and the new size.  Every new
  page is private to this address space and reads as zeros, and the user memory that was there
  before, in this address space and in the others, is unchanged.  It stops short of the new size
  only when at most one page is left in the allocator.
\<close>

theorem uvmalloc_grows:
  assumes ok: "uvm_ok s R W ps" and r: "r \<in> R" and xperm: "xperm < 1024"
    and sz: "unat oldsz \<le> 2 ^ 39" "unat newsz \<le> 2 ^ 39"
    and n: "n = (unat oldsz + 4095) div 4096" and k: "n + k = (unat newsz + 4095) div 4096" "0 < k"
    and free: "\<forall>i. n \<le> i \<and> i < n + k \<longrightarrow> leaf (mem s) r i AND PTE_V = 0"
  shows "\<exists>s' j ps'. uvmalloc r oldsz newsz xperm s = Inr (of_nat (4096 * (n + j)), s') \<and> j \<le> k \<and>
    uvm_ok s' R (W \<union> rows r n (n + j)) ps' \<and> set ps' \<subseteq> set ps \<and>
    (\<forall>r'\<in>R. \<forall>a. unat a < 2 ^ 39 \<longrightarrow> umem (mem s') r' a =
       (if r' = r \<and> n \<le> vpn a \<and> vpn a < n + j then Some 0 else umem (mem s) r' a)) \<and>
    (j < k \<longrightarrow> length ps' \<le> 1)"
proof -
  have up: "unat (PGROUNDUP oldsz) = 4096 * n" "unat (PGROUNDUP newsz) = 4096 * (n + k)" "n + k \<le> 2 ^ 27"
    using sz n k unat_PGROUNDUP[of oldsz] unat_PGROUNDUP[of newsz] by simp_all
  then have "PGROUNDUP oldsz \<noteq> PGROUNDUP newsz"
    using k(2) by auto
  then have run: "uvmalloc r oldsz newsz xperm s =
      unhang (uvmalloc_loop r (PGROUNDUP newsz) xperm (PGROUNDUP oldsz) s)"
    by (simp add: uvmalloc_def)
  obtain s' j ps' where
    "uvmalloc_loop r (PGROUNDUP newsz) xperm (PGROUNDUP oldsz) s = Some (Inr (of_nat (4096 * (n + j)), s'))"
    "j \<le> k" "uvm_ok s' R (W \<union> rows r n (n + j)) ps'" "set ps' \<subseteq> set ps"
    "\<forall>r'\<in>R. \<forall>a. unat a < 2 ^ 39 \<longrightarrow> umem (mem s') r' a =
       (if (r', vpn a) \<in> rows r n (n + j) then Some 0 else umem (mem s) r' a)"
    "j < k \<longrightarrow> length ps' \<le> 1"
    using uvmalloc_loop_owned[OF ok r up free[rule_format, OF conjI] xperm] by blast
  then show ?thesis
    unfolding run in_rows by (intro exI[of _ s'] exI[of _ j] exI[of _ ps'] conjI) (simp_all only: unhang_Inr)
qed

theorem uvmalloc_grows_witness:
  "\<exists>s' ps ps' j. uvm_ok demo {pg1, pg2} (rows pg1 0 1) ps \<and> j \<le> 2 \<and>
    uvmalloc pg1 0x10 0x3000 PTE_W demo = Inr (of_nat (4096 * (1 + j)), s') \<and>
    uvm_ok s' {pg1, pg2} (rows pg1 0 1 \<union> rows pg1 1 (1 + j)) ps'"
proof (rule demo_ok)
  fix ps assume ok: "uvm_ok demo {pg1, pg2} (rows pg1 0 1) ps"
    and leaf: "\<forall>n<2 ^ 27. 1 \<le> n \<longrightarrow> leaf (mem demo) pg1 n = 0"
  have *: "unat (0x10 :: uint64) \<le> 2 ^ 39" "unat (0x3000 :: uint64) \<le> 2 ^ 39" "PTE_W < 1024"
    "1 = (unat (0x10 :: uint64) + 4095) div 4096" "1 + 2 = (unat (0x3000 :: uint64) + 4095) div 4096"
    "0 < (2 :: nat)" "\<forall>i. 1 \<le> i \<and> i < 1 + 2 \<longrightarrow> leaf (mem demo) pg1 i AND PTE_V = 0"
    using leaf by simp_all
  show ?thesis
    using uvmalloc_grows[OF ok insertI1 *(3,1,2,4-7)] ok by blast
qed



text \<open>
  C6: \<^verbatim>\<open>uvmfree\<close> returns every page of an address space to the allocator, its data pages and
  its page tables alike, and touches no other address space: the free list grows by exactly these
  pages, and the user memory of every other process is unchanged.
\<close>

theorem uvmfree_returns_all:
  assumes ok: "uvm_ok s R W ps" and r: "r \<in> R" and sz: "unat sz \<le> 2 ^ 39"
    and own: "W \<inter> {r} \<times> UNIV = rows r 0 ((unat sz + 4095) div 4096)"
    and rest: "\<forall>n<2 ^ 27. (unat sz + 4095) div 4096 \<le> n \<longrightarrow> leaf (mem s) r n AND PTE_V = 0"
  shows "\<exists>s' ts. uvmfree r sz s = Inr s' \<and> uvm_ok s' (R - {r}) (others r W) (ts @ ps) \<and>
    set ts = tables (mem s) {r} \<union> opage (mem s) ` rows r 0 ((unat sz + 4095) div 4096) \<and>
    (\<forall>r'\<in>R - {r}. \<forall>a. unat a < 2 ^ 39 \<longrightarrow> umem (mem s') r' a = umem (mem s) r' a)"
proof (rule unmap_all[OF ok own])
  let ?n = "(unat sz + 4095) div 4096"
  fix s1 assume run: "uvmunmap_loop r ?n True 0 s = Inr s1"
    and ok1: "uvm_ok s1 R (others r W) (rev (map (\<lambda>i. opage (mem s) (r, i)) [0..<?n]) @ ps)"
    and leaf1: "\<And>i. r \<in> R \<Longrightarrow> i < 2 ^ 27 \<Longrightarrow> leaf (mem s1) r i = (if i < ?n then 0 else leaf (mem s) r i)"
    and umem1: "\<And>r' a. r' \<in> R - {r} \<Longrightarrow> unat a < 2 ^ 39 \<Longrightarrow> umem (mem s1) r' a = umem (mem s) r' a"
    and tbl: "\<And>r' q. r' \<in> R \<Longrightarrow> q \<in> paths \<Longrightarrow> tbl (mem s1) r' q = tbl (mem s) r' q"
  have nl: "no_leaves (mem s1) r"
    using leaf1[OF r] rest by (simp add: no_leaves_def)
  obtain s' ts where fw: "freewalk r s1 = Inr s'" "set ts = tables (mem s1) {r}"
    and ok': "uvm_ok s' (R - {r}) (others r W) (ts @ rev (map (\<lambda>i. opage (mem s) (r, i)) [0..<?n]) @ ps)"
    and umem': "\<And>r' a. r' \<in> R - {r} \<Longrightarrow> unat a < 2 ^ 39 \<Longrightarrow> umem (mem s') r' a = umem (mem s1) r' a"
    using uvm_ok_freewalk[OF ok1 r nl] by metis
  have "uvmfree r sz s = freewalk r s1"
    using run npages_PGROUNDUP[OF sz] by (cases "sz = 0") (auto simp: uvmfree_def uvmunmap_def word_gt_0)
  moreover have "tables (mem s1) {r} = tables (mem s) {r}"
    using tbl r by (intro tables_cong) simp
  moreover have "(\<lambda>i. opage (mem s) (r, i)) ` {0..<?n} = opage (mem s) ` rows r 0 ?n"
    by (force simp: rows_def)
  ultimately show ?thesis
    using fw ok' umem' umem1
    by (intro exI[of _ s'] exI[of _ "ts @ rev (map (\<lambda>i. opage (mem s) (r, i)) [0..<?n])"]) simp
qed

theorem uvmfree_returns_all_witness:
  "\<exists>s' ps ts. uvm_ok demo {pg1, pg2} (rows pg1 0 1) ps \<and> uvmfree pg1 0x10 demo = Inr s' \<and>
    free_pages s' (ts @ ps) \<and> pg1 \<in> set ts \<and> opage (mem demo) (pg1, 0) \<in> set ts"
proof (rule demo_ok)
  fix ps assume ok: "uvm_ok demo {pg1, pg2} (rows pg1 0 1) ps"
    and leaf: "\<forall>n<2 ^ 27. 1 \<le> n \<longrightarrow> leaf (mem demo) pg1 n = 0"
  have n: "(unat (0x10 :: uint64) + 4095) div 4096 = 1" by simp
  have *: "unat (0x10 :: uint64) \<le> 2 ^ 39" "rows pg1 0 1 \<inter> {pg1} \<times> UNIV = rows pg1 0 1"
    "\<forall>n<2 ^ 27. 1 \<le> n \<longrightarrow> leaf (mem demo) pg1 n AND PTE_V = 0"
    using leaf by (auto simp: rows_def)
  obtain s' ts where "uvmfree pg1 0x10 demo = Inr s'" "uvm_ok s' ({pg1, pg2} - {pg1}) (others pg1 (rows pg1 0 1)) (ts @ ps)"
    "set ts = tables (mem demo) {pg1} \<union> opage (mem demo) ` rows pg1 0 1"
    using uvmfree_returns_all[OF ok insertI1 *(1), unfolded n, OF *(2,3)] by blast
  with ok show ?thesis
    using uvm_okD(3) roots_tables[of pg1 "{pg1}" "mem demo"] in_rows[of pg1 0 pg1 0 1] by blast
qed

end
