(* ===== verification/Xv6_Spinlock.thy ===== *)
theory Xv6_Spinlock
  imports Xv6_Vm
begin

text \<open>
  \<^verbatim>\<open>kernel/spinlock.c\<close>: spinlocks and the nesting of interrupt-disabled sections, with \<^verbatim>\<open>mycpu\<close> and
  \<^verbatim>\<open>cpuid\<close> of \<^verbatim>\<open>kernel/proc.c\<close> and \<^verbatim>\<open>kernel/proc.h\<close>.  The kernel runs on one processor
  (\<^verbatim>\<open>N_CPU\<close> is 1) and a spinning processor has its interrupts disabled, so nobody can release a lock
  that \<^verbatim>\<open>acquire\<close> finds taken: the spin is the fault \<open>Hang\<close>.
\<close>

section \<open>Data\<close>

text \<open>Every spinlock and sleeplock of the kernel has an identity, which stands for its address.\<close>

datatype sleepid = BufSleep nat | InodeSleep nat

datatype lockid = ProcLock nat | WaitLock | SleepGuard sleepid | BcacheLock | VdiskLock | ConsLock
  | UartTxLock | PipeLock addr

record ctxt =
  ctx_ra :: uint64
  ctx_sp :: uint64
  ctx_s :: "uint64 list"

text \<open>A pointer into \<^verbatim>\<open>cpus\<close> or \<^verbatim>\<open>procs\<close> is an index, and \<open>None\<close> the null pointer.\<close>

record spinlock =
  locked :: uint64
  lk_name :: string
  lk_cpu :: "nat option"

record cpu =
  con :: ctxt
  cpu_proc :: "nat option"
  noff :: int
  intena :: bool

record mach = vmst +
  cpus :: cpu
  locks :: "lockid \<Rightarrow> spinlock"

section \<open>Operations\<close>

definition cpuid :: "nat" where
  "cpuid = 0"

definition mycpu :: "'a mach_scheme \<Rightarrow> cpu" where
  "mycpu s = cpus s"

definition initlock :: "lockid \<Rightarrow> string \<Rightarrow> 'a mach_scheme \<Rightarrow> 'a mach_scheme" where
  "initlock lk name s = s\<lparr>locks := (locks s)(lk := \<lparr>locked = 0, lk_name = name, lk_cpu = None\<rparr>)\<rparr>"

definition push_off :: "'a mach_scheme \<Rightarrow> 'a mach_scheme" where
  "push_off s =
     (let old = intr_get (csr s);
          s1 = s\<lparr>csr := intr_off (csr s)\<rparr>;
          s2 = (if noff (mycpu s1) = 0 then s1\<lparr>cpus := (cpus s1)\<lparr>intena := old\<rparr>\<rparr> else s1)
      in s2\<lparr>cpus := (cpus s2)\<lparr>noff := noff (mycpu s2) + 1\<rparr>\<rparr>)"

definition pop_off :: "'a mach_scheme \<Rightarrow> 'a mach_scheme res" where
  "pop_off s =
     (if intr_get (csr s) \<or> noff (mycpu s) < 1 then Inl (Panic ''pop off'')
      else let s1 = s\<lparr>cpus := (cpus s)\<lparr>noff := noff (mycpu s) - 1\<rparr>\<rparr> in
        Inr (if noff (mycpu s1) = 0 \<and> intena (mycpu s1) then s1\<lparr>csr := intr_on (csr s1)\<rparr> else s1))"

definition holding :: "lockid \<Rightarrow> 'a mach_scheme \<Rightarrow> bool" where
  "holding lk s = (locked (locks s lk) \<noteq> 0 \<and> lk_cpu (locks s lk) = Some cpuid)"

definition acquire :: "lockid \<Rightarrow> 'a mach_scheme \<Rightarrow> 'a mach_scheme res" where
  "acquire lk s =
     (let s1 = push_off s in
      if locked (locks s1 lk) \<noteq> 0 then Inl Hang
      else Inr (s1\<lparr>locks := (locks s1)(lk := (locks s1 lk)\<lparr>locked := 1, lk_cpu := Some cpuid\<rparr>)\<rparr>))"

definition release :: "lockid \<Rightarrow> 'a mach_scheme \<Rightarrow> 'a mach_scheme res" where
  "release lk s =
     (if \<not> holding lk s then Inl (Panic ''release'')
      else pop_off (s\<lparr>locks := (locks s)(lk := (locks s lk)\<lparr>lk_cpu := None, locked := 0\<rparr>)\<rparr>))"

section \<open>Interrupt-enable bit\<close>

lemma intr_get_off [simp]: "\<not> intr_get (intr_off c)"
  by (simp add: intr_get_def intr_off_def r_sstatus_def w_sstatus_def and.assoc)

lemma SIE_bit: "w AND SSTATUS_SIE \<noteq> 0 \<longleftrightarrow> bit w 1" for w :: uint64
proof -
  have "bit (w AND SSTATUS_SIE) i \<longleftrightarrow> i = 1 \<and> bit w 1" for i
    by (auto simp: bit_simps)
  then show ?thesis by (metis bit_0_eq bot_apply bot_bool_def bit_word_eqI)
qed

lemma intr_get_on [simp]: "intr_get (intr_on c)"
  by (simp only: intr_get_def intr_on_def r_sstatus_def w_sstatus_def SIE_bit) (simp add: bit_or_iff bit_push_bit_iff)

lemma intr_off_id: "\<not> intr_get c \<Longrightarrow> intr_off c = c"
proof -
  assume "\<not> intr_get c"
  then have "\<not> bit (sstatus c) 1" by (simp only: intr_get_def r_sstatus_def SIE_bit not_False_eq_True)
  then have "sstatus c AND NOT SSTATUS_SIE = sstatus c"
    by (intro bit_word_eqI) (auto simp: bit_simps)
  then show ?thesis by (simp add: intr_off_def r_sstatus_def w_sstatus_def)
qed

lemma intr_on_off: "intr_get c \<Longrightarrow> intr_on (intr_off c) = c"
proof -
  assume "intr_get c"
  then have "bit (sstatus c) 1" by (simp only: intr_get_def r_sstatus_def SIE_bit)
  then have "(sstatus c AND NOT SSTATUS_SIE) OR SSTATUS_SIE = sstatus c"
    by (intro bit_word_eqI) (auto simp: bit_simps)
  then show ?thesis by (simp add: intr_on_def intr_off_def r_sstatus_def w_sstatus_def)
qed

section \<open>The lock discipline\<close>

text \<open>
  \<open>acquire\<close> and \<open>release\<close> as changes of the processor, the interrupt-enable bit and one lock.
\<close>

lemma acquire_Inr:
  assumes "locked (locks s lk) = 0"
  shows "acquire lk s = Inr (s\<lparr>csr := intr_off (csr s),
    cpus := (cpus s)\<lparr>noff := noff (cpus s) + 1, intena := if noff (cpus s) = 0 then intr_get (csr s) else intena (cpus s)\<rparr>,
    locks := (locks s)(lk := (locks s lk)\<lparr>locked := 1, lk_cpu := Some cpuid\<rparr>)\<rparr>)"
  using assms by (simp add: acquire_def push_off_def mycpu_def Let_def)

lemma acquire_hang: "locked (locks s lk) \<noteq> 0 \<Longrightarrow> acquire lk s = Inl Hang"
  by (simp add: acquire_def push_off_def mycpu_def Let_def)

lemma release_Inr:
  assumes "holding lk s" "\<not> intr_get (csr s)" "noff (cpus s) > 0"
  shows "release lk s = Inr (s\<lparr>csr := if noff (cpus s) = 1 \<and> intena (cpus s) then intr_on (csr s) else csr s,
    cpus := (cpus s)\<lparr>noff := noff (cpus s) - 1\<rparr>,
    locks := (locks s)(lk := (locks s lk)\<lparr>lk_cpu := None, locked := 0\<rparr>)\<rparr>)"
  using assms by (cases s) (simp add: release_def pop_off_def mycpu_def Let_def holding_def)

text \<open>
  The processor's own view: the locks it holds \<open>H\<close>, its outstanding bare \<^verbatim>\<open>push_off\<close> calls \<open>n\<close>, and whether
  interrupts were enabled the last time it held nothing, \<open>b\<close>.
\<close>

definition lock_inv :: "'a mach_scheme \<times> lockid set \<times> nat \<times> bool \<Rightarrow> bool" where
  "lock_inv = (\<lambda>(s, H, n, b). finite H \<and> noff (cpus s) = int (card H + n) \<and>
     (\<forall>lk. if lk \<in> H then holding lk s else locked (locks s lk) = 0) \<and>
     (if noff (cpus s) = 0 then intr_get (csr s) = b else \<not> intr_get (csr s) \<and> intena (cpus s) = b))"

inductive lock_step :: "'a mach_scheme \<times> lockid set \<times> nat \<times> bool \<Rightarrow> 'a mach_scheme \<times> lockid set \<times> nat \<times> bool \<Rightarrow> bool"
where
  acq: "acquire lk s = Inr s' \<Longrightarrow> lock_step (s, H, n, b) (s', insert lk H, n, b)"
| rel: "release lk s = Inr s' \<Longrightarrow> lock_step (s, H, n, b) (s', H - {lk}, n, b)"
| push: "lock_step (s, H, n, b) (push_off s, H, Suc n, b)"
| pop: "pop_off s = Inr s' \<Longrightarrow> lock_step (s, H, Suc n, b) (s', H, n, b)"
| enable: "noff (cpus s) = 0 \<Longrightarrow> lock_step (s, H, n, b) (s\<lparr>csr := intr_on (csr s)\<rparr>, H, n, True)"
| disable: "noff (cpus s) = 0 \<Longrightarrow> lock_step (s, H, n, b) (s\<lparr>csr := intr_off (csr s)\<rparr>, H, n, False)"

lemma lock_inv_acquire:
  assumes inv: "lock_inv (s, H, n, b)" and lk: "lk \<notin> H"
  obtains s' where "acquire lk s = Inr s'" "lock_inv (s', insert lk H, n, b)"
proof -
  have "locked (locks s lk) = 0" "finite H"
    using inv lk by (auto simp: lock_inv_def split: if_splits)
  then show ?thesis
    using inv lk by (intro that[OF acquire_Inr]) (auto simp: lock_inv_def holding_def intr_off_id split: if_splits)
qed

lemma lock_inv_release:
  assumes inv: "lock_inv (s, H, n, b)" and lk: "lk \<in> H"
  obtains s' where "release lk s = Inr s'" "lock_inv (s', H - {lk}, n, b)"
proof -
  have "card H > 0"
    using inv lk by (auto simp: lock_inv_def card_gt_0_iff)
  then have "holding lk s" "noff (cpus s) > 0" "\<not> intr_get (csr s)"
    using inv lk by (auto simp: lock_inv_def split: if_splits)
  then show ?thesis
    using inv lk \<open>card H > 0\<close>
    by (intro that[OF release_Inr]) (auto simp: lock_inv_def holding_def of_nat_diff split: if_splits)
qed

lemma lock_step_inv: "lock_step x y \<Longrightarrow> lock_inv x \<Longrightarrow> lock_inv y"
proof (induction rule: lock_step.induct)
  case (acq lk s s' H n b)
  then have "locked (locks s lk) = 0" using acquire_hang[of s lk] by fastforce
  then have "lk \<notin> H" using acq(2) by (auto simp: lock_inv_def holding_def split: if_splits)
  with acq show ?case by (metis lock_inv_acquire Inr_inject)
next
  case (rel lk s s' H n b)
  then have "holding lk s" by (auto simp: release_def split: if_splits)
  then have "lk \<in> H" using rel(2) by (auto simp: lock_inv_def holding_def split: if_splits)
  with rel show ?case by (metis lock_inv_release Inr_inject)
next
  case (push s H n b)
  then show ?case by (auto simp: lock_inv_def holding_def push_off_def mycpu_def Let_def intr_off_id split: if_splits)
next
  case (pop s s' H n b)
  let ?c = "if noff (cpus s) = 1 \<and> intena (cpus s) then intr_on (csr s) else csr s"
  have "s' = s\<lparr>cpus := (cpus s)\<lparr>noff := noff (cpus s) - 1\<rparr>, csr := ?c\<rparr>" "\<not> intr_get (csr s)"
    using pop(1) by (auto simp: pop_off_def mycpu_def Let_def split: if_splits)
  then show ?case
    using pop(2) unfolding lock_inv_def holding_def by (simp split: if_splits)
qed (auto simp: lock_inv_def holding_def split: if_splits)


text \<open>A processor as it leaves reset, for the examples.\<close>

abbreviation (input) reset_csrs :: csrs where
  "reset_csrs \<equiv> \<lparr>mhartid = 0, mstatus = 0, mepc = 0, sstatus = 0, sip = 0, sie = 0, mie = 0, sepc = 0, medeleg = 0,
     mideleg = 0, stvec = 0, mtvec = 0, pmpcfg0 = 0, pmpaddr0 = 0, satp = 0, mscratch = 0, scause = 0, stval = 0,
     mcounteren = 0, time_csr = 0, sp_reg = 0, tp_reg = 0, ra_reg = 0\<rparr>"

abbreviation (input) reset_cpu :: cpu where
  "reset_cpu \<equiv> \<lparr>con = \<lparr>ctx_ra = 0, ctx_sp = 0, ctx_s = replicate 12 0\<rparr>, cpu_proc = None, noff = 0, intena = False\<rparr>"

abbreviation (input) reset_lock :: spinlock where
  "reset_lock \<equiv> \<lparr>locked = 0, lk_name = [], lk_cpu = None\<rparr>"

definition reset_mach :: mach where
  "reset_mach = \<lparr>mem = \<lambda>_. 0, klist_next = 0, kernel_pagetable = 0, csr = intr_on reset_csrs, cpus = reset_cpu,
     locks = \<lambda>_. reset_lock\<rparr>"


end
