(* ===== verification/Xv6_Proc.thy ===== *)
theory Xv6_Proc
  imports Xv6_Spinlock
begin

text \<open>
  The process table of \<^verbatim>\<open>kernel/proc.c\<close>: allocation and release of a process and its page table, the
  scheduler, \<^verbatim>\<open>sleep\<close> and \<^verbatim>\<open>wakeup\<close>, \<^verbatim>\<open>yield\<close>, \<^verbatim>\<open>kill\<close>, \<^verbatim>\<open>wait\<close> and the copies between the kernel and
  the current process.  \<^verbatim>\<open>fork\<close>, \<^verbatim>\<open>exit\<close> and \<^verbatim>\<open>userinit\<close>, which also work on files, are in a later theory.

  A pointer to an element of \<^verbatim>\<open>procs\<close> is its index; the table is a function of the index, and every loop runs
  over the indices below \<open>N_PROC\<close>.  A channel, the address a process sleeps on, is a value of
  \<open>chan\<close>.  What happens while a process has given up the processor is the argument \<open>env\<close> of the operations
  that do so: \<open>env s\<close> is the state in which \<^verbatim>\<open>swtch\<close> returns to it, if it ever does.  Registers saved by
  \<^verbatim>\<open>swtch\<close> are control flow and are not part of the state.
\<close>

section \<open>Data\<close>

datatype procstate = USED | RUNNING | RUNNABLE | SLEEPING | ZOMBIE | UNUSED

datatype chan = ChanProc nat | ChanSleep sleepid | ChanTicks | ChanPipeRd addr | ChanPipeWt addr | ChanBuf nat
  | ChanDiskFree | ChanConsR | ChanUartTxR

record proc =
  p_status :: procstate
  p_pid :: int
  p_xstatus :: int
  p_killed :: int
  p_parent :: "nat option"
  p_chan :: "chan option"
  p_kstack :: uint64
  p_sz :: uint64
  p_pagetable :: addr
  p_trapframe :: addr
  p_context :: ctxt
  p_ofile :: "nat \<Rightarrow> nat option"
  p_cwd :: "nat option"
  p_name :: "uint8 list"

record pst = mach +
  procs :: "nat \<Rightarrow> proc"
  initproc :: "nat option"
  next_pid :: uint64
  first_ret :: bool
  ticks :: uint32

definition set_proc :: "nat \<Rightarrow> (proc \<Rightarrow> proc) \<Rightarrow> 'a pst_scheme \<Rightarrow> 'a pst_scheme" where
  "set_proc p f s = s\<lparr>procs := (procs s)(p := f (procs s p))\<rparr>"

definition myproc :: "'a pst_scheme \<Rightarrow> nat option" where
  "myproc s = cpu_proc (mycpu s)"

text \<open>The fields of \<^verbatim>\<open>struct trapframe\<close>, at their byte offsets in the trapframe page.\<close>

abbreviation (input) TF_kernel_satp :: uint64 where "TF_kernel_satp \<equiv> 0"
abbreviation (input) TF_kernel_sp :: uint64 where "TF_kernel_sp \<equiv> 8"
abbreviation (input) TF_kernel_trap :: uint64 where "TF_kernel_trap \<equiv> 16"
abbreviation (input) TF_epc :: uint64 where "TF_epc \<equiv> 24"
abbreviation (input) TF_kernel_hartid :: uint64 where "TF_kernel_hartid \<equiv> 32"
abbreviation (input) TF_sp :: uint64 where "TF_sp \<equiv> 48"
abbreviation (input) TF_a0 :: uint64 where "TF_a0 \<equiv> 112"
abbreviation (input) TF_a1 :: uint64 where "TF_a1 \<equiv> 120"
abbreviation (input) TF_a7 :: uint64 where "TF_a7 \<equiv> 168"

definition tf_get :: "nat \<Rightarrow> uint64 \<Rightarrow> 'a pst_scheme \<Rightarrow> uint64" where
  "tf_get p off s = load64 (mem s) (p_trapframe (procs s p) + off)"

definition tf_set :: "nat \<Rightarrow> uint64 \<Rightarrow> uint64 \<Rightarrow> 'a pst_scheme \<Rightarrow> 'a pst_scheme" where
  "tf_set p off v s = s\<lparr>mem := store64 (mem s) (p_trapframe (procs s p) + off) v\<rparr>"

section \<open>The process table\<close>

definition allocpid :: "'a pst_scheme \<Rightarrow> uint64 \<times> 'a pst_scheme" where
  "allocpid s = (next_pid s, s\<lparr>next_pid := next_pid s + 1\<rparr>)"

primrec procinit_loop :: "nat list \<Rightarrow> 'a pst_scheme \<Rightarrow> 'a pst_scheme" where
  "procinit_loop [] s = s"
| "procinit_loop (i # is) s =
     procinit_loop is (initlock (ProcLock i) ''proc'' (set_proc i (p_status_update (\<lambda>_. UNUSED)) s))"

definition procinit :: "'a pst_scheme \<Rightarrow> 'a pst_scheme" where
  "procinit s = procinit_loop [0..<N_PROC] s"

text \<open>The address of the trampoline page is an argument; a null page table is followed before it is
  checked.\<close>

definition proc_pagetable :: "addr \<Rightarrow> nat \<Rightarrow> 'a pst_scheme \<Rightarrow> (addr \<times> 'a pst_scheme) res" where
  "proc_pagetable trampoline p s =
     (let (ptl, s) = kalloc s in
      if ptl = 0 then Inl OutOfBounds
      else let s = s\<lparr>mem := memset (mem s) ptl 0 4096\<rparr> in
        bnd (mappages ptl TRAMPOLINE PGSIZE trampoline (PTE_R OR PTE_X) s) (\<lambda>(r, s).
        if r \<noteq> 0 then bnd (kfree ptl s) (\<lambda>s. Inr (0, s))
        else bnd (mappages ptl TRAPFRAME PGSIZE (p_trapframe (procs s p)) (PTE_R OR PTE_W OR PTE_X) s) (\<lambda>(r, s).
        if r \<noteq> 0 then bnd (uvmunmap ptl TRAMPOLINE 1 False s) (\<lambda>s. bnd (kfree ptl s) (\<lambda>s. Inr (0, s)))
        else Inr (ptl, s))))"

definition proc_freepagetable :: "addr \<Rightarrow> uint64 \<Rightarrow> 'a phys_scheme \<Rightarrow> 'a phys_scheme res" where
  "proc_freepagetable pgtl sz s =
     bnd (uvmunmap pgtl TRAMPOLINE 1 False s) (\<lambda>s. bnd (uvmunmap pgtl TRAPFRAME 1 False s) (uvmfree pgtl sz))"

definition growproc :: "int \<Rightarrow> 'a pst_scheme \<Rightarrow> (int \<times> 'a pst_scheme) res" where
  "growproc n s =
     (if n = 0 then Inr (0, s)
      else case myproc s of None \<Rightarrow> Inl OutOfBounds
      | Some p \<Rightarrow>
          let pr = procs s p in
          if n > 0 then
            bnd (uvmalloc (p_pagetable pr) (p_sz pr) (p_sz pr + u64_of_int n) (PTE_W OR PTE_R) s) (\<lambda>(r, s).
              let newsz = int_of_u64 r in
              if newsz = 0 then Inr (-1, s)
              else Inr (0, set_proc p (p_sz_update (\<lambda>_. u64_of_int newsz)) s))
          else
            bnd (uvmdealloc (p_pagetable pr) (p_sz pr) (p_sz pr + u64_of_int n) s) (\<lambda>(r, s).
              Inr (0, set_proc p (p_sz_update (\<lambda>_. u64_of_int (int_of_u64 r))) s)))"

definition freeproc :: "nat \<Rightarrow> 'a pst_scheme \<Rightarrow> 'a pst_scheme res" where
  "freeproc p s =
     (let pr = procs s p in
      bnd (if p_trapframe pr \<noteq> 0 then kfree (p_trapframe pr) s else Inr s) (\<lambda>s.
      bnd (if p_pagetable pr \<noteq> 0 then proc_freepagetable (p_pagetable pr) (p_sz pr) s else Inr s) (\<lambda>s.
      Inr (set_proc p (\<lambda>pr. pr\<lparr>p_status := UNUSED, p_xstatus := 0, p_sz := 0, p_pid := 0, p_pagetable := 0,
        p_trapframe := 0, p_killed := 0\<rparr>) s))))"

text \<open>The search of \<^verbatim>\<open>allocproc\<close>: the first unused process, returned with its lock held.\<close>

primrec allocproc_scan :: "nat list \<Rightarrow> 'a pst_scheme \<Rightarrow> (nat option \<times> 'a pst_scheme) res" where
  "allocproc_scan [] s = Inr (None, s)"
| "allocproc_scan (i # is) s =
     bnd (acquire (ProcLock i) s) (\<lambda>s.
       if p_status (procs s i) = UNUSED then Inr (Some i, s)
       else bnd (release (ProcLock i) s) (allocproc_scan is))"

text \<open>\<open>forkret\<close> is the address of the function a new process starts in.\<close>

definition allocproc :: "addr \<Rightarrow> addr \<Rightarrow> 'a pst_scheme \<Rightarrow> (nat option \<times> 'a pst_scheme) res" where
  "allocproc trampoline forkret s =
     bnd (allocproc_scan [0..<N_PROC] s) (\<lambda>(found, s).
     case found of None \<Rightarrow> Inr (None, s)
     | Some p \<Rightarrow>
         let (frame, s) = kalloc s in
         if frame = 0 then bnd (freeproc p s) (\<lambda>s. bnd (release (ProcLock p) s) (\<lambda>s. Inr (None, s)))
         else let (pid, s) = allocpid s;
                  s = set_proc p (\<lambda>pr. pr\<lparr>p_status := USED, p_pid := int_of_u64 pid, p_kstack := KSTACK p, p_sz := 0,
                    p_trapframe := frame\<rparr>) s;
                  s = s\<lparr>mem := memset (mem s) frame 0 4096\<rparr>
           in bnd (proc_pagetable trampoline p s) (\<lambda>(pt, s).
             let s = set_proc p (p_pagetable_update (\<lambda>_. pt)) s in
             if pt = 0 then bnd (freeproc p s) (\<lambda>s. bnd (release (ProcLock p) s) (\<lambda>s. Inr (None, s)))
             else Inr (Some p, set_proc p (\<lambda>pr. pr\<lparr>p_context := \<lparr>ctx_ra = forkret, ctx_sp = p_kstack pr + PGSIZE,
               ctx_s = replicate 12 0\<rparr>\<rparr>) s)))"

text \<open>The \<^verbatim>\<open>initcode\<close> of the first process is an argument, as a list of bytes.\<close>

definition uvmfirst :: "addr \<Rightarrow> uint8 list \<Rightarrow> 'a phys_scheme \<Rightarrow> 'a phys_scheme res" where
  "uvmfirst pgtbl code s =
     (if length code > 4096 then Inl (Panic ''uvmfirst'')
      else let (freepage, s) = kalloc s in
        if freepage = 0 then Inl OutOfBounds
        else bnd (mappages pgtbl 0 PGSIZE freepage (PTE_R OR PTE_X OR PTE_W OR PTE_U)
               (s\<lparr>mem := store_bytes (memset (mem s) freepage 0 4096) freepage code\<rparr>)) (\<lambda>(_, s). Inr s))"

section \<open>Scheduling\<close>

text \<open>
  The scheduler.  \<open>scheduler_pick i\<close> is its loop body up to the switch to process \<open>i\<close>, with the saved
  \<^verbatim>\<open>intena\<close> and \<^verbatim>\<open>noff\<close> when it switches; \<open>scheduler_back i\<close> is the rest, when \<^verbatim>\<open>swtch\<close> has returned.  \<open>run i\<close> is
  what happens from one to the other: the process runs until it gives up the processor.
\<close>

definition scheduler_pick :: "nat \<Rightarrow> 'a pst_scheme \<Rightarrow> ((bool \<times> int) option \<times> 'a pst_scheme) res" where
  "scheduler_pick i s =
     bnd (acquire (ProcLock i) s) (\<lambda>s.
       if p_status (procs s i) \<noteq> RUNNABLE then bnd (release (ProcLock i) s) (\<lambda>s. Inr (None, s))
       else let s = set_proc i (p_status_update (\<lambda>_. RUNNING)) s;
                s = s\<lparr>cpus := (cpus s)\<lparr>cpu_proc := Some i\<rparr>\<rparr>
         in Inr (Some (intena (mycpu s), noff (mycpu s)), s))"

definition scheduler_back :: "nat \<Rightarrow> bool \<times> int \<Rightarrow> 'a pst_scheme \<Rightarrow> 'a pst_scheme res" where
  "scheduler_back i saved s =
     release (ProcLock i) (s\<lparr>cpus := (cpus s)\<lparr>noff := snd saved, intena := fst saved, cpu_proc := None\<rparr>\<rparr>)"

primrec scheduler_scan :: "(nat \<Rightarrow> 'a pst_scheme \<Rightarrow> 'a pst_scheme option) \<Rightarrow> nat list \<Rightarrow> 'a pst_scheme
    \<Rightarrow> 'a pst_scheme res" where
  "scheduler_scan run [] s = Inr s"
| "scheduler_scan run (i # is) s =
     bnd (scheduler_pick i s) (\<lambda>(saved, s).
       case saved of None \<Rightarrow> scheduler_scan run is s
       | Some v \<Rightarrow> (case run i s of None \<Rightarrow> Inl Hang
           | Some s \<Rightarrow> bnd (scheduler_back i v s) (scheduler_scan run is)))"

text \<open>\<open>n\<close> rounds of the \<^verbatim>\<open>while(1)\<close> of \<^verbatim>\<open>scheduler\<close>, which never returns.\<close>

primrec scheduler_rounds :: "(nat \<Rightarrow> 'a pst_scheme \<Rightarrow> 'a pst_scheme option) \<Rightarrow> nat \<Rightarrow> 'a pst_scheme
    \<Rightarrow> 'a pst_scheme res" where
  "scheduler_rounds run 0 s = Inr s"
| "scheduler_rounds run (Suc n) s =
     bnd (scheduler_scan run [0..<N_PROC] (s\<lparr>csr := intr_on (csr s)\<rparr>)) (scheduler_rounds run n)"

definition scheduler :: "(nat \<Rightarrow> 'a pst_scheme \<Rightarrow> 'a pst_scheme option) \<Rightarrow> nat \<Rightarrow> 'a pst_scheme \<Rightarrow> 'a pst_scheme res" where
  "scheduler run n s = scheduler_rounds run n (s\<lparr>cpus := (cpus s)\<lparr>cpu_proc := None\<rparr>\<rparr>)"

definition sched :: "('a pst_scheme \<Rightarrow> 'a pst_scheme option) \<Rightarrow> 'a pst_scheme \<Rightarrow> 'a pst_scheme res" where
  "sched env s =
     (case myproc s of None \<Rightarrow> Inl OutOfBounds
      | Some p \<Rightarrow>
          if p_status (procs s p) = RUNNING then Inl (Panic ''sched\<newline>'')
          else let n = noff (mycpu s); i = intena (mycpu s) in
            case env s of None \<Rightarrow> Inl Hang
            | Some s \<Rightarrow> Inr (s\<lparr>cpus := (cpus s)\<lparr>intena := i, noff := n\<rparr>\<rparr>))"

definition yield :: "('a pst_scheme \<Rightarrow> 'a pst_scheme option) \<Rightarrow> 'a pst_scheme \<Rightarrow> 'a pst_scheme res" where
  "yield env s =
     (case myproc s of None \<Rightarrow> Inl OutOfBounds
      | Some p \<Rightarrow> bnd (acquire (ProcLock p) s) (\<lambda>s.
          bnd (sched env (set_proc p (p_status_update (\<lambda>_. RUNNABLE)) s)) (release (ProcLock p))))"

text \<open>\<^verbatim>\<open>sleep\<close> up to its call of \<^verbatim>\<open>sched\<close>, and after it.\<close>

definition sleep_begin :: "nat \<Rightarrow> chan \<Rightarrow> lockid option \<Rightarrow> 'a pst_scheme \<Rightarrow> 'a pst_scheme res" where
  "sleep_begin p ch lk s =
     bnd (acquire (ProcLock p) s) (\<lambda>s.
       let s = set_proc p (\<lambda>pr. pr\<lparr>p_chan := Some ch, p_status := SLEEPING\<rparr>) s in
       case lk of None \<Rightarrow> Inr s
       | Some l \<Rightarrow> if \<not> holding l s then Inl (Panic ''sleep\<newline>'') else release l s)"

definition sleep_end :: "nat \<Rightarrow> lockid option \<Rightarrow> 'a pst_scheme \<Rightarrow> 'a pst_scheme res" where
  "sleep_end p lk s =
     bnd (case lk of None \<Rightarrow> Inr s | Some l \<Rightarrow> acquire l s) (\<lambda>s.
       release (ProcLock p) (set_proc p (p_chan_update (\<lambda>_. None)) s))"

definition sleep :: "('a pst_scheme \<Rightarrow> 'a pst_scheme option) \<Rightarrow> chan \<Rightarrow> lockid option \<Rightarrow> 'a pst_scheme
    \<Rightarrow> 'a pst_scheme res" where
  "sleep env ch lk s =
     (case myproc s of None \<Rightarrow> Inl OutOfBounds
      | Some p \<Rightarrow> bnd (sleep_begin p ch lk s) (\<lambda>s. bnd (sched env s) (sleep_end p lk)))"

primrec wakeup_loop :: "nat list \<Rightarrow> chan option \<Rightarrow> 'a pst_scheme \<Rightarrow> 'a pst_scheme res" where
  "wakeup_loop [] ch s = Inr s"
| "wakeup_loop (p # ps) ch s =
     (if myproc s \<noteq> Some p then
        bnd (acquire (ProcLock p) s) (\<lambda>s.
        bnd (release (ProcLock p)
          (if p_status (procs s p) = SLEEPING \<and> p_chan (procs s p) = ch
           then set_proc p (p_status_update (\<lambda>_. RUNNABLE)) s else s))
        (wakeup_loop ps ch))
      else wakeup_loop ps ch s)"

definition wakeup :: "chan option \<Rightarrow> 'a pst_scheme \<Rightarrow> 'a pst_scheme res" where
  "wakeup ch s = wakeup_loop [0..<N_PROC] ch s"

section \<open>Killing and waiting\<close>

definition setkilled :: "nat \<Rightarrow> 'a pst_scheme \<Rightarrow> int \<times> 'a pst_scheme" where
  "setkilled p s = (0, set_proc p (p_killed_update (\<lambda>_. 1)) s)"

definition killed :: "nat \<Rightarrow> 'a pst_scheme \<Rightarrow> int" where
  "killed p s = p_killed (procs s p)"

primrec kill_loop :: "nat list \<Rightarrow> uint64 \<Rightarrow> 'a pst_scheme \<Rightarrow> (int \<times> 'a pst_scheme) res" where
  "kill_loop [] pid s = Inr (-1, s)"
| "kill_loop (p # ps) pid s =
     (if u64_of_int (p_pid (procs s p)) = pid then
        bnd (acquire (ProcLock p) s) (\<lambda>s.
        let s = (if p_status (procs s p) = SLEEPING then set_proc p (p_status_update (\<lambda>_. RUNNABLE)) s else s) in
        bnd (release (ProcLock p) (set_proc p (p_killed_update (\<lambda>_. 1)) s)) (\<lambda>s. Inr (0, s)))
      else kill_loop ps pid s)"

definition kill :: "uint64 \<Rightarrow> 'a pst_scheme \<Rightarrow> (int \<times> 'a pst_scheme) res" where
  "kill pid s = kill_loop [0..<N_PROC] pid s"

text \<open>
  The scan of \<^verbatim>\<open>wait\<close> over the process table, for process \<open>p\<close>: either \<^verbatim>\<open>wait\<close> returns out of it, with the value in
  \<open>Inl\<close>, or the scan ends, with \<^verbatim>\<open>havekids\<close> in \<open>Inr\<close>.
\<close>

primrec wait_scan :: "nat list \<Rightarrow> nat \<Rightarrow> addr \<Rightarrow> bool \<Rightarrow> 'a pst_scheme \<Rightarrow> ((int + bool) \<times> 'a pst_scheme) res" where
  "wait_scan [] p a havekids s = Inr (Inr havekids, s)"
| "wait_scan (pp # pps) p a havekids s =
     (if p_parent (procs s pp) = Some p then
        bnd (acquire (ProcLock pp) s) (\<lambda>s.
        if p_status (procs s pp) = ZOMBIE then
          let pid = p_pid (procs s pp);
              (r, s) = (if a \<noteq> 0 then copyout (p_pagetable (procs s p)) a
                          (le_bytes 4 (u32_of_int (p_xstatus (procs s pp)))) 4 s else (0, s)) in
          if r < 0 then
            bnd (release (ProcLock pp) s) (\<lambda>s. bnd (release WaitLock s) (\<lambda>s. Inr (Inl (-1), s)))
          else
            bnd (freeproc pp s) (\<lambda>s.
            bnd (release (ProcLock pp) s) (\<lambda>s. bnd (release WaitLock s) (\<lambda>s. Inr (Inl pid, s))))
        else bnd (release (ProcLock pp) s) (wait_scan pps p a True))
      else wait_scan pps p a havekids s)"

partial_function (option) wait_loop :: "('a pst_scheme \<Rightarrow> 'a pst_scheme option) \<Rightarrow> nat \<Rightarrow> addr \<Rightarrow> 'a pst_scheme
    \<Rightarrow> (int \<times> 'a pst_scheme) res option" where
  "wait_loop env p a s =
     (case wait_scan [0..<N_PROC] p a False s of
        Inl f \<Rightarrow> Some (Inl f)
      | Inr (Inl r, s) \<Rightarrow> Some (Inr (r, s))
      | Inr (Inr havekids, s) \<Rightarrow>
          if \<not> havekids \<or> killed p s \<noteq> 0 then Some (bnd (release WaitLock s) (\<lambda>s. Inr (-1, s)))
          else (case sleep env (ChanProc p) (Some WaitLock) s of
              Inl f \<Rightarrow> Some (Inl f)
            | Inr s \<Rightarrow> wait_loop env p a s))"

definition wait :: "('a pst_scheme \<Rightarrow> 'a pst_scheme option) \<Rightarrow> addr \<Rightarrow> 'a pst_scheme \<Rightarrow> (int \<times> 'a pst_scheme) res" where
  "wait env a s =
     (case myproc s of None \<Rightarrow> Inl OutOfBounds
      | Some p \<Rightarrow> bnd (acquire WaitLock s) (\<lambda>s. unhang (wait_loop env p a s)))"

definition proc_chan :: "nat option \<Rightarrow> chan option" where
  "proc_chan p = map_option ChanProc p"

primrec reparent_loop :: "nat list \<Rightarrow> nat \<Rightarrow> 'a pst_scheme \<Rightarrow> 'a pst_scheme res" where
  "reparent_loop [] p s = Inr s"
| "reparent_loop (pp # pps) p s =
     (if p_parent (procs s pp) = Some p then
        bnd (wakeup (proc_chan (initproc s)) (set_proc pp (p_parent_update (\<lambda>_. initproc s)) s)) (reparent_loop pps p)
      else reparent_loop pps p s)"

definition reparent :: "nat \<Rightarrow> 'a pst_scheme \<Rightarrow> 'a pst_scheme res" where
  "reparent p s = reparent_loop [0..<N_PROC] p s"

section \<open>Copies to and from the current process\<close>

text \<open>
  A kernel-side buffer is a list of bytes: the source of \<^verbatim>\<open>either_copyout\<close> is given as one, and with \<^verbatim>\<open>user_dst\<close> 0
  the bytes that arrive in the kernel buffer at \<^verbatim>\<open>dst\<close> are a result, as are those of \<^verbatim>\<open>either_copyin\<close>, whose
  kernel source with \<^verbatim>\<open>user_src\<close> 0 is the list \<open>kb\<close>.
\<close>

definition either_copyout :: "bool \<Rightarrow> addr \<Rightarrow> uint8 list \<Rightarrow> uint64 \<Rightarrow> 'a pst_scheme
    \<Rightarrow> (int \<times> uint8 list \<times> 'a pst_scheme) res" where
  "either_copyout user_dst dst src len s =
     (if user_dst then
        case myproc s of None \<Rightarrow> Inl OutOfBounds
        | Some p \<Rightarrow> let (r, s) = copyout (p_pagetable (procs s p)) dst src len s in Inr (r, [], s)
      else Inr (0, take (unat len) src, s))"

definition either_copyin :: "bool \<Rightarrow> addr \<Rightarrow> uint8 list \<Rightarrow> uint64 \<Rightarrow> 'a pst_scheme \<Rightarrow> (int \<times> uint8 list) res" where
  "either_copyin user_src src kb len s =
     (if user_src then
        case myproc s of None \<Rightarrow> Inl OutOfBounds
        | Some p \<Rightarrow> Inr (copyin (p_pagetable (procs s p)) src len s)
      else Inr (0, take (unat len) kb))"

section \<open>A machine with an empty process table\<close>

abbreviation (input) reset_proc :: proc where
  "reset_proc \<equiv> \<lparr>p_status = UNUSED, p_pid = 0, p_xstatus = 0, p_killed = 0, p_parent = None, p_chan = None, p_kstack = 0,
     p_sz = 0, p_pagetable = 0, p_trapframe = 0, p_context = \<lparr>ctx_ra = 0, ctx_sp = 0, ctx_s = replicate 12 0\<rparr>,
     p_ofile = \<lambda>_. None, p_cwd = None, p_name = replicate 16 0\<rparr>"

definition reset_pst :: pst where
  "reset_pst = mach.extend (mach.truncate reset_mach)
     \<lparr>procs = \<lambda>_. reset_proc, initproc = None, next_pid = 0, first_ret = True, ticks = 0\<rparr>"

end
