(* ===== verification/Xv6_Sleeplock.thy ===== *)
theory Xv6_Sleeplock
  imports Xv6_Proc
begin

text \<open>
  \<^verbatim>\<open>kernel/sleeplock.c\<close>: locks whose waiters give up the processor.  The spinlock inside the sleeplock \<open>i\<close> is
  \<open>SleepGuard i\<close> of the table of spinlocks.
\<close>

record sleeplock =
  sl_locked :: uint32
  sl_name :: string
  sl_pid :: int

record slst = pst +
  sleeplocks :: "sleepid \<Rightarrow> sleeplock"

definition initsleeplock :: "sleepid \<Rightarrow> string \<Rightarrow> 'a slst_scheme \<Rightarrow> 'a slst_scheme" where
  "initsleeplock lk name s =
     (let s = initlock (SleepGuard lk) name s in
      s\<lparr>sleeplocks := (sleeplocks s)(lk := \<lparr>sl_locked = 0, sl_name = name, sl_pid = 0\<rparr>)\<rparr>)"

text \<open>\<open>mypid\<close> is \<^verbatim>\<open>myproc()->pid\<close>.\<close>

definition mypid :: "'a pst_scheme \<Rightarrow> int res" where
  "mypid s = (case myproc s of None \<Rightarrow> Inl OutOfBounds | Some p \<Rightarrow> Inr (p_pid (procs s p)))"

definition holdingsleep :: "sleepid \<Rightarrow> 'a slst_scheme \<Rightarrow> bool res" where
  "holdingsleep lk s =
     (if sl_locked (sleeplocks s lk) = 0 then Inr False
      else bnd (mypid s) (\<lambda>pid. Inr (sl_pid (sleeplocks s lk) = pid)))"

partial_function (option) acquiresleep_loop :: "('a slst_scheme \<Rightarrow> 'a slst_scheme option) \<Rightarrow> sleepid \<Rightarrow> 'a slst_scheme
    \<Rightarrow> 'a slst_scheme res option" where
  "acquiresleep_loop env lk s =
     (case acquire (SleepGuard lk) s of
        Inl f \<Rightarrow> Some (Inl f)
      | Inr s \<Rightarrow>
          if sl_locked (sleeplocks s lk) = 0 then
            Some (bnd (mypid s) (\<lambda>pid.
              release (SleepGuard lk)
                (s\<lparr>sleeplocks := (sleeplocks s)(lk := (sleeplocks s lk)\<lparr>sl_locked := 1, sl_pid := pid\<rparr>)\<rparr>)))
          else (case sleep env (ChanSleep lk) (Some (SleepGuard lk)) s of
              Inl f \<Rightarrow> Some (Inl f)
            | Inr s \<Rightarrow> acquiresleep_loop env lk s))"

definition acquiresleep :: "('a slst_scheme \<Rightarrow> 'a slst_scheme option) \<Rightarrow> sleepid \<Rightarrow> 'a slst_scheme \<Rightarrow> 'a slst_scheme res" where
  "acquiresleep env lk s = unhang (acquiresleep_loop env lk s)"

definition releasesleep :: "sleepid \<Rightarrow> 'a slst_scheme \<Rightarrow> 'a slst_scheme res" where
  "releasesleep lk s =
     bnd (holdingsleep lk s) (\<lambda>h.
       if \<not> h then Inl (Panic ''releasesleep\<newline>'')
       else bnd (acquire (SleepGuard lk) s) (\<lambda>s.
         bnd (release (SleepGuard lk)
            (s\<lparr>sleeplocks := (sleeplocks s)(lk := (sleeplocks s lk)\<lparr>sl_locked := 0, sl_pid := 0\<rparr>)\<rparr>))
           (wakeup (Some (ChanSleep lk)))))"

section \<open>Contention\<close>

lemma acquire_holding: "acquire lk s = Inr s' \<Longrightarrow> holding lk s'"
  by (cases "locked (locks s lk) = 0") (auto simp: acquire_Inr acquire_hang holding_def)

lemma holding_other_release:
  "release lk s = Inr s' \<Longrightarrow> lk' \<noteq> lk \<Longrightarrow> holding lk' s' \<longleftrightarrow> holding lk' s"
  by (auto simp: release_def pop_off_def holding_def Let_def split: if_splits)

lemma holding_set_proc [simp]: "holding lk (set_proc p f s) \<longleftrightarrow> holding lk s"
  by (simp add: holding_def set_proc_def)

text \<open>Back from \<^verbatim>\<open>sleep\<close>, a process holds the lock it gave to it.\<close>

lemma sleep_holding:
  assumes "sleep env ch (Some l) s = Inr s'" and "\<forall>p. l \<noteq> ProcLock p"
  shows "holding l s'"
  using assms
  by (auto simp: sleep_def sleep_end_def bnd_Inr_iff holding_other_release dest: acquire_holding split: option.splits)

text \<open>A process that finds the lock taken sleeps, and finds the inner lock taken by itself when it is back.\<close>

lemma acquiresleep_taken:
  assumes "sl_locked (sleeplocks s lk) \<noteq> 0"
  shows "\<exists>f. acquiresleep env lk s = Inl f"
proof (cases "acquire (SleepGuard lk) s")
  case (Inl f)
  then show ?thesis by (simp add: acquiresleep_def acquiresleep_loop.simps unhang_def)
next
  case (Inr s1)
  then have "sleeplocks s1 = sleeplocks s"
    by (cases "locked (locks s (SleepGuard lk)) = 0") (auto simp: acquire_Inr acquire_hang)
  with Inr assms have loop: "acquiresleep_loop env lk s =
      (case sleep env (ChanSleep lk) (Some (SleepGuard lk)) s1 of
         Inl f \<Rightarrow> Some (Inl f) | Inr s \<Rightarrow> acquiresleep_loop env lk s)"
    by (subst acquiresleep_loop.simps) simp
  show ?thesis
  proof (cases "sleep env (ChanSleep lk) (Some (SleepGuard lk)) s1")
    case (Inl f)
    then show ?thesis by (simp add: acquiresleep_def loop unhang_def)
  next
    case (Inr s2)
    then have "acquire (SleepGuard lk) s2 = Inl Hang"
      by (intro acquire_hang) (auto dest: sleep_holding simp: holding_def)
    with Inr show ?thesis
      by (simp add: acquiresleep_def loop acquiresleep_loop.simps[of env lk s2] unhang_def)
  qed
qed

text \<open>
  C13: a contended sleeplock is a deadlock.  The loop of \<^verbatim>\<open>acquiresleep\<close> acquires the inner spinlock in every round, but
  \<^verbatim>\<open>sleep\<close> returns with that lock held: whatever the rest of the system does meanwhile, a process that finds the
  sleeplock taken never gets it, even when its holder releases it.
\<close>

theorem acquiresleep_contended:
  assumes "sl_locked (sleeplocks s lk) \<noteq> 0"
  shows "\<exists>f. acquiresleep env lk s = Inl f"
  using assms by (rule acquiresleep_taken)

text \<open>A process that finds a sleeplock taken, and a system that releases the lock and runs the process again.\<close>

definition reset_slst :: slst where
  "reset_slst = pst.extend (pst.truncate reset_pst) \<lparr>sleeplocks = \<lambda>_. \<lparr>sl_locked = 0, sl_name = [], sl_pid = 0\<rparr>\<rparr>"

definition contended :: slst where
  "contended = (set_proc 2 (\<lambda>pr. pr\<lparr>p_status := RUNNING, p_pid := 7\<rparr>) reset_slst)
     \<lparr>cpus := reset_cpu\<lparr>cpu_proc := Some 2\<rparr>,
      sleeplocks := (\<lambda>_. \<lparr>sl_locked = 0, sl_name = [], sl_pid = 0\<rparr>)(BufSleep 0 := \<lparr>sl_locked = 1, sl_name = [], sl_pid = 3\<rparr>)\<rparr>"

definition release_and_resume :: "slst \<Rightarrow> slst option" where
  "release_and_resume s = Some ((set_proc 2 (p_status_update (\<lambda>_. RUNNING)) s)
     \<lparr>sleeplocks := (sleeplocks s)(BufSleep 0 := \<lparr>sl_locked = 0, sl_name = [], sl_pid = 0\<rparr>)\<rparr>)"

theorem acquiresleep_contended_witness:
  "sl_locked (sleeplocks contended (BufSleep 0)) = 1 \<and> myproc contended = Some 2 \<and>
   (\<exists>f. acquiresleep release_and_resume (BufSleep 0) contended = Inl f)"
proof -
  have "sl_locked (sleeplocks contended (BufSleep 0)) \<noteq> 0"
    by (simp add: contended_def)
  from acquiresleep_contended[OF this] show ?thesis
    by (simp add: contended_def myproc_def mycpu_def)
qed

end
