(* ===== verification/Xv6_Uart.thy ===== *)
theory Xv6_Uart
  imports Xv6_Sleeplock
begin

text \<open>
  \<^verbatim>\<open>kernel/uart.c\<close>, apart from \<^verbatim>\<open>uartintr\<close>, and \<^verbatim>\<open>kernel/printf.c\<close>.  The 16550a chip is outside the program: it
  is modelled by what it answers, the value of the \<open>k\<close>-th read of the line status register and of the
  \<open>k\<close>-th read of the receive register, both arbitrary, and by the log of what is written to its registers.
\<close>

section \<open>Data\<close>

record ust = slst +
  lsr_in :: "nat \<Rightarrow> uint8"
  lsr_reads :: nat
  rhr_in :: "nat \<Rightarrow> uint8"
  rhr_reads :: nat
  uart_log :: "(nat \<times> uint8) list"
  uart_tx_buf :: "nat \<Rightarrow> uint8"
  uart_tx_w :: uint64
  uart_tx_r :: uint64
  panicked :: bool

abbreviation (input) UART_TX_BUF_SIZE :: uint64 where "UART_TX_BUF_SIZE \<equiv> 32"
abbreviation (input) RHR :: nat where "RHR \<equiv> 0"
abbreviation (input) THR :: nat where "THR \<equiv> 0"
abbreviation (input) IER :: nat where "IER \<equiv> 1"
abbreviation (input) FCR :: nat where "FCR \<equiv> 2"
abbreviation (input) LCR :: nat where "LCR \<equiv> 3"
abbreviation (input) IER_RX_ENABLE :: uint8 where "IER_RX_ENABLE \<equiv> 1"
abbreviation (input) IER_TX_ENABLE :: uint8 where "IER_TX_ENABLE \<equiv> 2"
abbreviation (input) FCR_FIFO_ENABLE :: uint8 where "FCR_FIFO_ENABLE \<equiv> 1"
abbreviation (input) FCR_FIFO_CLEAR :: uint8 where "FCR_FIFO_CLEAR \<equiv> 6"
abbreviation (input) LCR_EIGHT_BITS :: uint8 where "LCR_EIGHT_BITS \<equiv> 3"
abbreviation (input) LCR_BAUD_LATCH :: uint8 where "LCR_BAUD_LATCH \<equiv> 128"
abbreviation (input) LSR_TX_IDLE :: uint8 where "LSR_TX_IDLE \<equiv> 32"

definition WriteReg :: "nat \<Rightarrow> uint8 \<Rightarrow> 'a ust_scheme \<Rightarrow> 'a ust_scheme" where
  "WriteReg reg v s = s\<lparr>uart_log := uart_log s @ [(reg, v)]\<rparr>"

definition ReadLSR :: "'a ust_scheme \<Rightarrow> uint8 \<times> 'a ust_scheme" where
  "ReadLSR s = (lsr_in s (lsr_reads s), s\<lparr>lsr_reads := lsr_reads s + 1\<rparr>)"

definition ReadRHR :: "'a ust_scheme \<Rightarrow> uint8 \<times> 'a ust_scheme" where
  "ReadRHR s = (rhr_in s (rhr_reads s), s\<lparr>rhr_reads := rhr_reads s + 1\<rparr>)"

section \<open>Operations\<close>

definition uartinit :: "'a ust_scheme \<Rightarrow> 'a ust_scheme" where
  "uartinit s =
     (let s = WriteReg IER 0 s;
          s = WriteReg LCR LCR_BAUD_LATCH s;
          s = WriteReg 0 3 s;
          s = WriteReg 1 0 s;
          s = WriteReg LCR LCR_EIGHT_BITS s;
          s = WriteReg FCR (FCR_FIFO_ENABLE OR FCR_FIFO_CLEAR) s;
          s = WriteReg IER (IER_TX_ENABLE OR IER_RX_ENABLE) s
      in initlock UartTxLock ''uart'' s)"

text \<open>The loop of \<^verbatim>\<open>uartstart\<close> sends a character per round, so it takes at most one round for each that waits.\<close>

primrec uartstart_loop :: "nat \<Rightarrow> 'a ust_scheme \<Rightarrow> 'a ust_scheme res" where
  "uartstart_loop 0 s = Inr s"
| "uartstart_loop (Suc n) s =
     (if uart_tx_w s = uart_tx_r s then Inr s
      else let (lsr, s) = ReadLSR s in
        if lsr AND LSR_TX_IDLE = 0 then Inr s
        else let c = uart_tx_buf s (unat (uart_tx_r s mod UART_TX_BUF_SIZE)) in
          bnd (wakeup (Some ChanUartTxR) (s\<lparr>uart_tx_r := uart_tx_r s + 1\<rparr>)) (\<lambda>s.
            uartstart_loop n (WriteReg THR c s)))"

definition uartstart :: "'a ust_scheme \<Rightarrow> 'a ust_scheme res" where
  "uartstart s = uartstart_loop (unat (uart_tx_w s - uart_tx_r s)) s"

partial_function (option) uartputc_wait :: "('a ust_scheme \<Rightarrow> 'a ust_scheme option) \<Rightarrow> 'a ust_scheme
    \<Rightarrow> 'a ust_scheme res option" where
  "uartputc_wait env s =
     (if uart_tx_w s = uart_tx_r s + UART_TX_BUF_SIZE then
        (case sleep env ChanUartTxR (Some UartTxLock) s of
           Inl f \<Rightarrow> Some (Inl f)
         | Inr s \<Rightarrow> uartputc_wait env s)
      else Some (Inr s))"

definition uartputc :: "('a ust_scheme \<Rightarrow> 'a ust_scheme option) \<Rightarrow> int \<Rightarrow> 'a ust_scheme \<Rightarrow> 'a ust_scheme res" where
  "uartputc env c s =
     bnd (acquire UartTxLock s) (\<lambda>s.
     if panicked s then Inl Hang
     else bnd (unhang (uartputc_wait env s)) (\<lambda>s.
       let s = s\<lparr>uart_tx_buf := (uart_tx_buf s)(unat (uart_tx_w s mod UART_TX_BUF_SIZE) := word_of_int c),
                 uart_tx_w := uart_tx_w s + 1\<rparr>
       in bnd (uartstart s) (release UartTxLock)))"

partial_function (option) tx_idle_wait :: "'a ust_scheme \<Rightarrow> 'a ust_scheme option" where
  "tx_idle_wait s = (let (lsr, s) = ReadLSR s in if lsr AND LSR_TX_IDLE = 0 then tx_idle_wait s else Some s)"

definition uartputc_sync :: "int \<Rightarrow> 'a ust_scheme \<Rightarrow> 'a ust_scheme res" where
  "uartputc_sync c s =
     (let s = push_off s in
      if panicked s then Inl Hang
      else case tx_idle_wait s of None \<Rightarrow> Inl Hang
        | Some s \<Rightarrow> pop_off (WriteReg THR (word_of_int c) s))"

definition uartgetc :: "'a ust_scheme \<Rightarrow> int \<times> 'a ust_scheme" where
  "uartgetc s =
     (let (lsr, s) = ReadLSR s in
      if lsr AND 1 \<noteq> 0 then let (c, s) = ReadRHR s in (uint c, s) else (-1, s))"

section \<open>Formatted output\<close>

text \<open>
  The arguments of \<^verbatim>\<open>printf\<close> after the format; reading one of another kind, or more than there are, is undefined in C and
  the fault \<open>OutOfBounds\<close>.  A string argument is \<open>None\<close> when it is the null pointer.
\<close>

datatype parg = ArgInt int | ArgPtr uint64 | ArgStr "string option"

definition digits :: string where
  "digits = ''0123456789abcdef''"

text \<open>The loop of \<^verbatim>\<open>printint\<close>; its base is 10 or 16, and the test \<open>1 < base\<close> holds in every call.\<close>

function printint_digits :: "uint32 \<Rightarrow> uint32 \<Rightarrow> string" where
  "printint_digits x base =
     (let c = digits ! unat (x mod base); x' = x div base in
      if x' \<noteq> 0 \<and> 1 < base then c # printint_digits x' base else [c])"
  by pat_completeness auto
termination
proof (relation "measure (\<lambda>(x, base). unat x)", goal_cases)
  case (2 x base c x')
  then have "x \<noteq> 0" by auto
  then have "unat x div unat base < unat x"
    using 2 by (intro div_less_dividend) (auto simp: word_less_nat_alt unat_gt_0)
  then show ?case using 2 by (simp add: unat_div)
qed simp

text \<open>The buffer of \<^verbatim>\<open>printint\<close> is filled from the least significant digit and sent backwards.\<close>

definition printint_str :: "int \<Rightarrow> uint32 \<Rightarrow> bool \<Rightarrow> string" where
  "printint_str xx base sign =
     (let neg = (sign \<and> xx < 0);
          x = (if neg then u32_of_int (- xx) else u32_of_int xx);
          buf = printint_digits x base @ (if neg then ''-'' else [])
      in rev buf)"

primrec printptr_loop :: "nat \<Rightarrow> uint64 \<Rightarrow> string" where
  "printptr_loop 0 x = []"
| "printptr_loop (Suc n) x = digits ! unat (drop_bit 60 x) # printptr_loop n (push_bit 4 x)"

definition printptr_str :: "uint64 \<Rightarrow> string" where
  "printptr_str x = ''0x'' @ printptr_loop 16 x"

fun printf_str :: "string \<Rightarrow> parg list \<Rightarrow> string res" where
  "printf_str [] args = Inr []"
| "printf_str [c] args = Inr (if c = CHR ''%'' then [] else [c])"
| "printf_str (c # d # fmt) args =
     (if c \<noteq> CHR ''%'' then bnd (printf_str (d # fmt) args) (\<lambda>r. Inr (c # r))
      else if d = CHR ''d'' then
        (case args of ArgInt i # as \<Rightarrow> bnd (printf_str fmt as) (\<lambda>r. Inr (printint_str i 10 True @ r)) | _ \<Rightarrow> Inl OutOfBounds)
      else if d = CHR ''x'' then
        (case args of ArgInt i # as \<Rightarrow> bnd (printf_str fmt as) (\<lambda>r. Inr (printint_str i 16 True @ r)) | _ \<Rightarrow> Inl OutOfBounds)
      else if d = CHR ''p'' then
        (case args of ArgPtr x # as \<Rightarrow> bnd (printf_str fmt as) (\<lambda>r. Inr (printptr_str x @ r)) | _ \<Rightarrow> Inl OutOfBounds)
      else if d = CHR ''s'' then
        (case args of ArgStr so # as \<Rightarrow>
           bnd (printf_str fmt as) (\<lambda>r. Inr ((case so of None \<Rightarrow> ''(null)'' | Some t \<Rightarrow> t) @ r)) | _ \<Rightarrow> Inl OutOfBounds)
      else if d = CHR ''%'' then bnd (printf_str fmt args) (\<lambda>r. Inr (CHR ''%'' # r))
      else bnd (printf_str fmt args) (\<lambda>r. Inr (CHR ''%'' # d # r)))"

primrec uartputs :: "string \<Rightarrow> 'a ust_scheme \<Rightarrow> 'a ust_scheme res" where
  "uartputs [] s = Inr s"
| "uartputs (c # cs) s = bnd (uartputc_sync (of_char c) s) (uartputs cs)"

definition printf :: "string \<Rightarrow> parg list \<Rightarrow> 'a ust_scheme \<Rightarrow> 'a ust_scheme res" where
  "printf fmt args s = bnd (printf_str fmt args) (\<lambda>out. uartputs out s)"

end
