(* ===== verification/Xv6_Console.thy ===== *)
theory Xv6_Console
  imports Xv6_Uart
begin

text \<open>
  \<^verbatim>\<open>kernel/console.c\<close>: the console's line editor and its device operations, with \<^verbatim>\<open>uartintr\<close> of
  \<^verbatim>\<open>kernel/uart.c\<close>, which feeds it, and the device switch table of \<^verbatim>\<open>kernel/file.c\<close>, in which it registers itself.
\<close>

section \<open>Data\<close>

datatype devread = ConsoleRead
datatype devwrite = ConsoleWrite

record devsw_entry =
  dev_read :: "devread option"
  dev_write :: "devwrite option"

record cst = ust +
  cons_buf :: "nat \<Rightarrow> uint8"
  cons_r :: uint32
  cons_w :: uint32
  cons_e :: uint32
  devsw :: "nat \<Rightarrow> devsw_entry"

abbreviation (input) INPUT_BUF_SIZE :: uint32 where "INPUT_BUF_SIZE \<equiv> 128"
abbreviation (input) BACKSPACE :: int where "BACKSPACE \<equiv> 0x100"
abbreviation (input) CONSOLE :: nat where "CONSOLE \<equiv> 1"

text \<open>The characters the console treats specially: \<^verbatim>\<open>C(x)\<close> is \<^verbatim>\<open>x - '@'\<close>.\<close>

abbreviation (input) CTRL_D :: int where "CTRL_D \<equiv> 4"
abbreviation (input) CTRL_H :: int where "CTRL_H \<equiv> 8"
abbreviation (input) CTRL_P :: int where "CTRL_P \<equiv> 16"
abbreviation (input) CTRL_U :: int where "CTRL_U \<equiv> 21"
abbreviation (input) NL :: int where "NL \<equiv> 10"

section \<open>Operations\<close>

definition consputc :: "int \<Rightarrow> 'a ust_scheme \<Rightarrow> 'a ust_scheme res" where
  "consputc c s =
     (if c = BACKSPACE then bnd (uartputc_sync 8 s) (\<lambda>s. bnd (uartputc_sync 32 s) (uartputc_sync 8))
      else uartputc_sync c s)"

text \<open>\<open>consolewrite_loop env user_src src i k s\<close> is the loop of \<^verbatim>\<open>consolewrite\<close> from \<^verbatim>\<open>i\<close> on, with \<open>k\<close> rounds left.\<close>

primrec consolewrite_loop :: "('a ust_scheme \<Rightarrow> 'a ust_scheme option) \<Rightarrow> bool \<Rightarrow> addr \<Rightarrow> uint8 list \<Rightarrow> int \<Rightarrow> nat
    \<Rightarrow> 'a ust_scheme \<Rightarrow> (int \<times> 'a ust_scheme) res" where
  "consolewrite_loop env user_src src kb i 0 s = Inr (i, s)"
| "consolewrite_loop env user_src src kb i (Suc k) s =
     bnd (either_copyin user_src (src + u64_of_int i) (drop (nat i) kb) 1 s) (\<lambda>(r, bs).
       if r = -1 then Inr (i, s)
       else bnd (uartputc env (uint (hd bs)) s) (consolewrite_loop env user_src src kb (i + 1) k))"

definition consolewrite :: "('a ust_scheme \<Rightarrow> 'a ust_scheme option) \<Rightarrow> bool \<Rightarrow> addr \<Rightarrow> uint8 list \<Rightarrow> int
    \<Rightarrow> 'a ust_scheme \<Rightarrow> (int \<times> 'a ust_scheme) res" where
  "consolewrite env user_src src kb n s = consolewrite_loop env user_src src kb 0 (nat n) s"

text \<open>
  \<^verbatim>\<open>consoleread\<close>.  The inner loop waits for input: \<open>True\<close> when the process was killed.  \<open>consoleread_loop\<close> is the outer
  loop; \<open>None\<close> is the early return of a killed process, and the bytes delivered to a kernel buffer are collected.
\<close>

partial_function (option) consoleread_wait :: "('a cst_scheme \<Rightarrow> 'a cst_scheme option) \<Rightarrow> 'a cst_scheme
    \<Rightarrow> (bool \<times> 'a cst_scheme) res option" where
  "consoleread_wait env s =
     (if cons_r s = cons_w s then
        case myproc s of None \<Rightarrow> Some (Inl OutOfBounds)
        | Some p \<Rightarrow>
            if killed p s \<noteq> 0 then Some (Inr (True, s))
            else (case sleep env ChanConsR (Some ConsLock) s of
                Inl f \<Rightarrow> Some (Inl f)
              | Inr s \<Rightarrow> consoleread_wait env s)
      else Some (Inr (False, s)))"

primrec consoleread_loop :: "('a cst_scheme \<Rightarrow> 'a cst_scheme option) \<Rightarrow> bool \<Rightarrow> addr \<Rightarrow> uint32 \<Rightarrow> nat \<Rightarrow> 'a cst_scheme
    \<Rightarrow> (nat option \<times> uint8 list \<times> 'a cst_scheme) res" where
  "consoleread_loop env user_dst dst target 0 s = Inr (Some 0, [], s)"
| "consoleread_loop env user_dst dst target (Suc n) s =
     bnd (unhang (consoleread_wait env s)) (\<lambda>(dead, s).
       if dead then bnd (release ConsLock s) (\<lambda>s. Inr (None, [], s))
       else let c = cons_buf s (unat (cons_r s mod INPUT_BUF_SIZE));
                s = s\<lparr>cons_r := cons_r s + 1\<rparr> in
         if uint c = CTRL_D then
           Inr (Some (Suc n), [], if of_nat (Suc n) < target then s\<lparr>cons_r := cons_r s - 1\<rparr> else s)
         else bnd (either_copyout user_dst dst [c] 1 s) (\<lambda>(r, bs, s).
           if r = -1 then Inr (Some (Suc n), [], s)
           else if uint c = NL then Inr (Some n, bs, s)
           else bnd (consoleread_loop env user_dst (dst + 1) target n s) (\<lambda>(res, bs', s). Inr (res, bs @ bs', s))))"

definition consoleread :: "('a cst_scheme \<Rightarrow> 'a cst_scheme option) \<Rightarrow> bool \<Rightarrow> addr \<Rightarrow> int \<Rightarrow> 'a cst_scheme
    \<Rightarrow> (int \<times> uint8 list \<times> 'a cst_scheme) res" where
  "consoleread env user_dst dst n s =
     (let target = u32_of_int n in
      bnd (acquire ConsLock s) (\<lambda>s.
      if n > 0 then
        bnd (consoleread_loop env user_dst dst target (nat n) s) (\<lambda>(left, bs, s).
          case left of None \<Rightarrow> Inr (-1, bs, s)
          | Some k \<Rightarrow> bnd (release ConsLock s) (\<lambda>s. Inr (int_of_u32 (target - of_nat k), bs, s)))
      else bnd (release ConsLock s) (\<lambda>s. Inr (int_of_u32 (target - u32_of_int n), [], s))))"

text \<open>The loop of \<^verbatim>\<open>^U\<close> erases a character per round, back to the last line end at most.\<close>

primrec kill_line :: "nat \<Rightarrow> 'a cst_scheme \<Rightarrow> 'a cst_scheme res" where
  "kill_line 0 s = Inr s"
| "kill_line (Suc k) s =
     (if cons_e s \<noteq> cons_w s \<and> uint (cons_buf s (unat ((cons_e s - 1) mod INPUT_BUF_SIZE))) \<noteq> NL then
        bnd (consputc BACKSPACE (s\<lparr>cons_e := cons_e s - 1\<rparr>)) (kill_line k)
      else Inr s)"

definition consoleintr_store :: "int \<Rightarrow> 'a cst_scheme \<Rightarrow> 'a cst_scheme res" where
  "consoleintr_store c s =
     (if c \<noteq> 0 \<and> cons_e s - cons_r s < INPUT_BUF_SIZE then
        let c = (if c = 13 then NL else c) in
        bnd (consputc c s) (\<lambda>s.
        let s = s\<lparr>cons_buf := (cons_buf s)(unat (cons_e s mod INPUT_BUF_SIZE) := word_of_int c), cons_e := cons_e s + 1\<rparr> in
        if c = NL \<or> c = CTRL_D \<or> cons_e s - cons_r s = INPUT_BUF_SIZE then
          wakeup (Some ChanConsR) (s\<lparr>cons_w := cons_e s\<rparr>)
        else Inr s)
      else Inr s)"

definition consoleintr :: "int \<Rightarrow> 'a cst_scheme \<Rightarrow> 'a cst_scheme res" where
  "consoleintr c s =
     bnd (acquire ConsLock s) (\<lambda>s.
     bnd (if c = CTRL_P then Inr s
          else if c = CTRL_U then kill_line (unat (cons_e s - cons_w s)) s
          else if c = CTRL_H \<or> c = 0x7f then
            (if cons_e s \<noteq> cons_w s then consputc BACKSPACE (s\<lparr>cons_e := cons_e s - 1\<rparr>) else Inr s)
          else consoleintr_store c s)
       (release ConsLock))"

definition consoleinit :: "'a cst_scheme \<Rightarrow> 'a cst_scheme" where
  "consoleinit s =
     (let s = uartinit (initlock ConsLock ''cons'' s) in
      s\<lparr>devsw := (devsw s)(CONSOLE := \<lparr>dev_read = Some ConsoleRead, dev_write = Some ConsoleWrite\<rparr>)\<rparr>)"

partial_function (option) uartintr_loop :: "'a cst_scheme \<Rightarrow> 'a cst_scheme res option" where
  "uartintr_loop s =
     (let (c, s) = uartgetc s in
      if c = -1 then Some (Inr s)
      else case consoleintr c s of Inl f \<Rightarrow> Some (Inl f) | Inr s \<Rightarrow> uartintr_loop s)"

definition uartintr :: "'a cst_scheme \<Rightarrow> 'a cst_scheme res" where
  "uartintr s =
     bnd (unhang (uartintr_loop s)) (\<lambda>s. bnd (acquire UartTxLock s) (\<lambda>s. bnd (uartstart s) (release UartTxLock)))"

end
