(* ===== verification/Xv6_Virtio.thy ===== *)
theory Xv6_Virtio
  imports Xv6_Console
begin

text \<open>
  \<^verbatim>\<open>kernel/virtio_disk.c\<close>: the driver of the virtio disk, with the buffers of \<^verbatim>\<open>kernel/buf.h\<close> it moves.  The
  descriptor table and the two rings are typed arrays; the addresses the driver writes into a descriptor are those of
  a request header, of the data of a buffer or of a status byte, and are values of \<open>dma\<close>.  The device is outside
  the program: its answer to a register read is an arbitrary function of the register writes before it, and
  what it does with a request happens while the driver sleeps.  \<open>platter\<close> is what it stores, by block; no
  operation of the kernel reads or writes it.
\<close>

section \<open>Data\<close>

datatype bptr = Head | Buf nat

record buf =
  b_prev :: bptr
  b_next :: bptr
  b_blockno :: uint32
  b_dev :: uint32
  b_refcnt :: uint32
  b_disk :: int
  b_valid :: int
  b_data :: "uint8 list"

datatype dma = DmaNone | DmaOps nat | DmaData nat | DmaStatus nat

record virtq_desc =
  d_addr :: dma
  d_len :: uint32
  d_flags :: uint16
  d_next :: uint16

record virtio_blk_req =
  req_type :: uint32
  req_reserved :: uint32
  req_sector :: uint64

record bst = cst +
  bufs :: "nat \<Rightarrow> buf"
  head_prev :: bptr
  head_next :: bptr
  vio_dev :: "(nat \<times> uint32) list \<Rightarrow> nat \<Rightarrow> uint32"
  vio_log :: "(nat \<times> uint32) list"
  disk_pages :: "addr \<times> addr \<times> addr"
  desc :: "nat \<Rightarrow> virtq_desc"
  avail_idx :: uint16
  avail_ring :: "nat \<Rightarrow> uint16"
  used_dev_idx :: uint16
  used_ring :: "nat \<Rightarrow> uint32"
  disk_free :: "nat \<Rightarrow> bool"
  used_idx :: uint16
  info_b :: "nat \<Rightarrow> nat option"
  info_status :: "nat \<Rightarrow> uint8"
  disk_ops :: "nat \<Rightarrow> virtio_blk_req"
  platter :: "uint64 \<Rightarrow> uint8 list"

abbreviation (input) NUM :: nat where "NUM \<equiv> 8"
abbreviation (input) BSIZE :: uint32 where "BSIZE \<equiv> 1024"
abbreviation (input) VRING_DESC_F_NEXT :: uint16 where "VRING_DESC_F_NEXT \<equiv> 1"
abbreviation (input) VRING_DESC_F_WRITE :: uint16 where "VRING_DESC_F_WRITE \<equiv> 2"
abbreviation (input) VIRTIO_BLK_T_IN :: uint32 where "VIRTIO_BLK_T_IN \<equiv> 0"
abbreviation (input) VIRTIO_BLK_T_OUT :: uint32 where "VIRTIO_BLK_T_OUT \<equiv> 1"

text \<open>The memory-mapped registers, by offset, and the bits of the status and feature registers.\<close>

abbreviation (input) VIRTIO_MMIO_MAGIC_VALUE :: nat where "VIRTIO_MMIO_MAGIC_VALUE \<equiv> 0x000"
abbreviation (input) VIRTIO_MMIO_VERSION :: nat where "VIRTIO_MMIO_VERSION \<equiv> 0x004"
abbreviation (input) VIRTIO_MMIO_DEVICE_ID :: nat where "VIRTIO_MMIO_DEVICE_ID \<equiv> 0x008"
abbreviation (input) VIRTIO_MMIO_VENDOR_ID :: nat where "VIRTIO_MMIO_VENDOR_ID \<equiv> 0x00c"
abbreviation (input) VIRTIO_MMIO_DEVICE_FEATURES :: nat where "VIRTIO_MMIO_DEVICE_FEATURES \<equiv> 0x010"
abbreviation (input) VIRTIO_MMIO_DRIVER_FEATURES :: nat where "VIRTIO_MMIO_DRIVER_FEATURES \<equiv> 0x020"
abbreviation (input) VIRTIO_MMIO_QUEUE_SEL :: nat where "VIRTIO_MMIO_QUEUE_SEL \<equiv> 0x030"
abbreviation (input) VIRTIO_MMIO_QUEUE_NUM_MAX :: nat where "VIRTIO_MMIO_QUEUE_NUM_MAX \<equiv> 0x034"
abbreviation (input) VIRTIO_MMIO_QUEUE_NUM :: nat where "VIRTIO_MMIO_QUEUE_NUM \<equiv> 0x038"
abbreviation (input) VIRTIO_MMIO_QUEUE_READY :: nat where "VIRTIO_MMIO_QUEUE_READY \<equiv> 0x044"
abbreviation (input) VIRTIO_MMIO_QUEUE_NOTIFY :: nat where "VIRTIO_MMIO_QUEUE_NOTIFY \<equiv> 0x050"
abbreviation (input) VIRTIO_MMIO_INTERRUPT_STATUS :: nat where "VIRTIO_MMIO_INTERRUPT_STATUS \<equiv> 0x060"
abbreviation (input) VIRTIO_MMIO_INTERRUPT_ACK :: nat where "VIRTIO_MMIO_INTERRUPT_ACK \<equiv> 0x064"
abbreviation (input) VIRTIO_MMIO_STATUS :: nat where "VIRTIO_MMIO_STATUS \<equiv> 0x070"
abbreviation (input) VIRTIO_MMIO_QUEUE_DESC_LOW :: nat where "VIRTIO_MMIO_QUEUE_DESC_LOW \<equiv> 0x080"
abbreviation (input) VIRTIO_MMIO_QUEUE_DESC_HIGH :: nat where "VIRTIO_MMIO_QUEUE_DESC_HIGH \<equiv> 0x084"
abbreviation (input) VIRTIO_MMIO_DRIVER_DESC_LOW :: nat where "VIRTIO_MMIO_DRIVER_DESC_LOW \<equiv> 0x090"
abbreviation (input) VIRTIO_MMIO_DRIVER_DESC_HIGH :: nat where "VIRTIO_MMIO_DRIVER_DESC_HIGH \<equiv> 0x094"
abbreviation (input) VIRTIO_MMIO_DEVICE_DESC_LOW :: nat where "VIRTIO_MMIO_DEVICE_DESC_LOW \<equiv> 0x0a0"
abbreviation (input) VIRTIO_MMIO_DEVICE_DESC_HIGH :: nat where "VIRTIO_MMIO_DEVICE_DESC_HIGH \<equiv> 0x0a4"
abbreviation (input) VIRTIO_CONFIG_S_ACKNOWLEDGE :: uint32 where "VIRTIO_CONFIG_S_ACKNOWLEDGE \<equiv> 1"
abbreviation (input) VIRTIO_CONFIG_S_DRIVER :: uint32 where "VIRTIO_CONFIG_S_DRIVER \<equiv> 2"
abbreviation (input) VIRTIO_CONFIG_S_DRIVER_OK :: uint32 where "VIRTIO_CONFIG_S_DRIVER_OK \<equiv> 4"
abbreviation (input) VIRTIO_CONFIG_S_FEATURES_OK :: uint32 where "VIRTIO_CONFIG_S_FEATURES_OK \<equiv> 8"

definition vio_read :: "nat \<Rightarrow> 'a bst_scheme \<Rightarrow> uint32" where
  "vio_read r s = vio_dev s (vio_log s) r"

definition vio_write :: "nat \<Rightarrow> uint32 \<Rightarrow> 'a bst_scheme \<Rightarrow> 'a bst_scheme" where
  "vio_write r v s = s\<lparr>vio_log := vio_log s @ [(r, v)]\<rparr>"

section \<open>Initialisation\<close>

text \<open>The feature bits the driver declines; each complement is an \<^verbatim>\<open>int\<close>, sign-extended to 64 bits.\<close>

definition negotiate :: "uint64 \<Rightarrow> uint64" where
  "negotiate features =
     features AND NOT (push_bit 5 1) AND NOT (push_bit 7 1) AND NOT (push_bit 11 1) AND NOT (push_bit 12 1)
       AND NOT (push_bit 27 1) AND NOT (push_bit 29 1) AND NOT (push_bit 28 1)"

definition virtio_queue_init :: "uint32 \<Rightarrow> 'a bst_scheme \<Rightarrow> 'a bst_scheme res" where
  "virtio_queue_init st s =
     (let (d, s) = kalloc s; (a, s) = kalloc s; (u, s) = kalloc s in
      if d = 0 \<or> a = 0 \<or> u = 0 then Inl (Panic ''virtio disk kalloc'')
      else
        let s = s\<lparr>mem := memset (memset (memset (mem s) d 0 4096) a 0 4096) u 0 4096, disk_pages := (d, a, u),
                  desc := (\<lambda>_. \<lparr>d_addr = DmaNone, d_len = 0, d_flags = 0, d_next = 0\<rparr>),
                  avail_idx := 0, avail_ring := (\<lambda>_. 0), used_dev_idx := 0, used_ring := (\<lambda>_. 0)\<rparr>;
            s = vio_write VIRTIO_MMIO_QUEUE_NUM 8 s;
            s = vio_write VIRTIO_MMIO_QUEUE_DESC_LOW (ucast d) s;
            s = vio_write VIRTIO_MMIO_QUEUE_DESC_HIGH (ucast (drop_bit 32 d)) s;
            s = vio_write VIRTIO_MMIO_DRIVER_DESC_LOW (ucast a) s;
            s = vio_write VIRTIO_MMIO_DRIVER_DESC_HIGH (ucast (drop_bit 32 a)) s;
            s = vio_write VIRTIO_MMIO_DEVICE_DESC_LOW (ucast u) s;
            s = vio_write VIRTIO_MMIO_DEVICE_DESC_HIGH (ucast (drop_bit 32 u)) s;
            s = vio_write VIRTIO_MMIO_QUEUE_READY 1 s;
            s = s\<lparr>disk_free := (\<lambda>i. i < NUM \<or> disk_free s i)\<rparr>
        in Inr (vio_write VIRTIO_MMIO_STATUS (st OR VIRTIO_CONFIG_S_DRIVER_OK) s))"

definition virtio_disk_init :: "'a bst_scheme \<Rightarrow> 'a bst_scheme res" where
  "virtio_disk_init s =
     (let s = initlock VdiskLock ''virtio_disk'' s in
      if vio_read VIRTIO_MMIO_MAGIC_VALUE s \<noteq> 0x74726976 \<or> vio_read VIRTIO_MMIO_VERSION s \<noteq> 2 \<or>
         vio_read VIRTIO_MMIO_DEVICE_ID s \<noteq> 2 \<or> vio_read VIRTIO_MMIO_VENDOR_ID s \<noteq> 0x554d4551
      then Inl (Panic ''could not find virtio disk'')
      else
        let s = vio_write VIRTIO_MMIO_STATUS 0 s;
            st = VIRTIO_CONFIG_S_ACKNOWLEDGE;
            s = vio_write VIRTIO_MMIO_STATUS st s;
            st = st OR VIRTIO_CONFIG_S_DRIVER;
            s = vio_write VIRTIO_MMIO_STATUS st s;
            features = negotiate (ucast (vio_read VIRTIO_MMIO_DEVICE_FEATURES s));
            s = vio_write VIRTIO_MMIO_DRIVER_FEATURES (ucast features) s;
            st = st OR VIRTIO_CONFIG_S_FEATURES_OK;
            s = vio_write VIRTIO_MMIO_STATUS st s;
            st = vio_read VIRTIO_MMIO_STATUS s
        in if st AND VIRTIO_CONFIG_S_FEATURES_OK = 0 then Inl (Panic ''virtio disk FEATURES_OK unset'')
        else
          let s = vio_write VIRTIO_MMIO_QUEUE_SEL 0 s;
              maxq = vio_read VIRTIO_MMIO_QUEUE_NUM_MAX s
          in if vio_read VIRTIO_MMIO_QUEUE_READY s \<noteq> 0 then Inl (Panic ''virtio disk should not be ready'')
          else if maxq = 0 then Inl (Panic ''virtio disk has no queue 0'')
          else if maxq < 8 then Inl (Panic ''virtio disk max queue too short'')
          else virtio_queue_init st s)"

section \<open>Descriptors\<close>

text \<open>A descriptor number is a natural number, and \<open>None\<close> the \<^verbatim>\<open>-1\<close> of a failed search.\<close>

primrec alloc_desc_scan :: "nat list \<Rightarrow> 'a bst_scheme \<Rightarrow> nat option \<times> 'a bst_scheme" where
  "alloc_desc_scan [] s = (None, s)"
| "alloc_desc_scan (i # is) s =
     (if disk_free s i then (Some i, s\<lparr>disk_free := (disk_free s)(i := False)\<rparr>) else alloc_desc_scan is s)"

definition alloc_desc :: "'a bst_scheme \<Rightarrow> nat option \<times> 'a bst_scheme" where
  "alloc_desc s = alloc_desc_scan [0..<NUM] s"

definition free_desc :: "nat \<Rightarrow> 'a bst_scheme \<Rightarrow> 'a bst_scheme res" where
  "free_desc i s =
     (if i \<ge> NUM then Inl (Panic ''free_desc 1'')
      else if disk_free s i then Inl (Panic ''free_desc 2'')
      else wakeup (Some ChanDiskFree)
        (s\<lparr>desc := (desc s)(i := \<lparr>d_addr = DmaNone, d_len = 0, d_flags = 0, d_next = 0\<rparr>),
           disk_free := (disk_free s)(i := True)\<rparr>))"

partial_function (option) free_chain_loop :: "nat \<Rightarrow> 'a bst_scheme \<Rightarrow> 'a bst_scheme res option" where
  "free_chain_loop i s =
     (let flag = d_flags (desc s i); nxt = d_next (desc s i) in
      case free_desc i s of Inl f \<Rightarrow> Some (Inl f)
      | Inr s \<Rightarrow> if flag AND VRING_DESC_F_NEXT \<noteq> 0 then free_chain_loop (unat nxt) s else Some (Inr s))"

definition free_chain :: "nat \<Rightarrow> 'a bst_scheme \<Rightarrow> 'a bst_scheme res" where
  "free_chain i s = unhang (free_chain_loop i s)"

primrec free_descs :: "nat list \<Rightarrow> 'a bst_scheme \<Rightarrow> 'a bst_scheme res" where
  "free_descs [] s = Inr s"
| "free_descs (i # is) s = bnd (free_desc i s) (free_descs is)"

text \<open>\<open>alloc3_loop n idx\<close> allocates the last \<open>n\<close> of the three descriptors, after \<open>idx\<close>.\<close>

primrec alloc3_loop :: "nat \<Rightarrow> nat list \<Rightarrow> 'a bst_scheme \<Rightarrow> (nat list option \<times> 'a bst_scheme) res" where
  "alloc3_loop 0 idx s = Inr (Some idx, s)"
| "alloc3_loop (Suc n) idx s =
     (let (d, s) = alloc_desc s in
      case d of None \<Rightarrow> bnd (free_descs idx s) (\<lambda>s. Inr (None, s))
      | Some i \<Rightarrow> alloc3_loop n (idx @ [i]) s)"

definition alloc3_desc :: "'a bst_scheme \<Rightarrow> (nat list option \<times> 'a bst_scheme) res" where
  "alloc3_desc s = alloc3_loop 3 [] s"

section \<open>Requests\<close>

partial_function (option) alloc3_wait :: "('a bst_scheme \<Rightarrow> 'a bst_scheme option) \<Rightarrow> 'a bst_scheme
    \<Rightarrow> (nat list \<times> 'a bst_scheme) res option" where
  "alloc3_wait env s =
     (case alloc3_desc s of Inl f \<Rightarrow> Some (Inl f)
      | Inr (Some idx, s) \<Rightarrow> Some (Inr (idx, s))
      | Inr (None, s) \<Rightarrow>
          (case sleep env ChanDiskFree (Some VdiskLock) s of Inl f \<Rightarrow> Some (Inl f) | Inr s \<Rightarrow> alloc3_wait env s))"

text \<open>The driver's part of a request, from the three descriptors to the notification of the device.\<close>

definition submit :: "nat \<Rightarrow> nat \<Rightarrow> nat \<Rightarrow> nat \<Rightarrow> bool \<Rightarrow> uint64 \<Rightarrow> 'a bst_scheme \<Rightarrow> 'a bst_scheme" where
  "submit i0 i1 i2 b wr sector s =
     (let s = s\<lparr>disk_ops := (disk_ops s)(i0 := \<lparr>req_type = (if wr then VIRTIO_BLK_T_OUT else VIRTIO_BLK_T_IN),
                  req_reserved = 0, req_sector = sector\<rparr>)\<rparr>;
          s = s\<lparr>desc := (desc s)
                 (i0 := \<lparr>d_addr = DmaOps i0, d_len = 16, d_flags = VRING_DESC_F_NEXT, d_next = of_nat i1\<rparr>,
                  i1 := \<lparr>d_addr = DmaData b, d_len = BSIZE,
                         d_flags = (if wr then 0 else VRING_DESC_F_WRITE) OR VRING_DESC_F_NEXT, d_next = of_nat i2\<rparr>,
                  i2 := \<lparr>d_addr = DmaStatus i0, d_len = 1, d_flags = VRING_DESC_F_WRITE, d_next = 0\<rparr>),
               info_status := (info_status s)(i0 := 0xff)\<rparr>;
          s = s\<lparr>bufs := (bufs s)(b := (bufs s b)\<lparr>b_disk := 1\<rparr>), info_b := (info_b s)(i0 := Some b)\<rparr>;
          s = s\<lparr>avail_ring := (avail_ring s)(unat (avail_idx s mod 8) := of_nat i0), avail_idx := avail_idx s + 1\<rparr>
      in vio_write VIRTIO_MMIO_QUEUE_NOTIFY 0 s)"

partial_function (option) disk_wait :: "('a bst_scheme \<Rightarrow> 'a bst_scheme option) \<Rightarrow> nat \<Rightarrow> 'a bst_scheme
    \<Rightarrow> 'a bst_scheme res option" where
  "disk_wait env b s =
     (if b_disk (bufs s b) = 1 then
        (case sleep env (ChanBuf b) (Some VdiskLock) s of Inl f \<Rightarrow> Some (Inl f) | Inr s \<Rightarrow> disk_wait env b s)
      else Some (Inr s))"

definition virtio_disk_rw :: "('a bst_scheme \<Rightarrow> 'a bst_scheme option) \<Rightarrow> nat \<Rightarrow> bool \<Rightarrow> 'a bst_scheme
    \<Rightarrow> 'a bst_scheme res" where
  "virtio_disk_rw env b wr s =
     (let sector = ucast (b_blockno (bufs s b) * (BSIZE div 512)) in
      bnd (acquire VdiskLock s) (\<lambda>s.
      bnd (unhang (alloc3_wait env s)) (\<lambda>(idx, s).
      bnd (unhang (disk_wait env b (submit (idx ! 0) (idx ! 1) (idx ! 2) b wr sector s))) (\<lambda>s.
      bnd (free_chain (idx ! 0) (s\<lparr>info_b := (info_b s)(idx ! 0 := None)\<rparr>)) (release VdiskLock)))))"

text \<open>The loop of \<^verbatim>\<open>virtio_disk_intr\<close> takes one entry of the used ring per round.\<close>

primrec virtio_intr_loop :: "nat \<Rightarrow> 'a bst_scheme \<Rightarrow> 'a bst_scheme res" where
  "virtio_intr_loop 0 s = Inr s"
| "virtio_intr_loop (Suc n) s =
     (if used_idx s = used_dev_idx s then Inr s
      else let id = unat (used_ring s (unat (used_idx s mod 8))) in
        if id \<ge> NUM then Inl OutOfBounds
        else if info_status s id \<noteq> 0 then Inl (Panic ''virtio_disk_intr status'')
        else case info_b s id of None \<Rightarrow> Inl OutOfBounds
        | Some b \<Rightarrow>
            bnd (wakeup (Some (ChanBuf b)) (s\<lparr>bufs := (bufs s)(b := (bufs s b)\<lparr>b_disk := 0\<rparr>)\<rparr>)) (\<lambda>s.
              virtio_intr_loop n (s\<lparr>used_idx := used_idx s + 1\<rparr>)))"

definition virtio_disk_intr :: "'a bst_scheme \<Rightarrow> 'a bst_scheme res" where
  "virtio_disk_intr s =
     bnd (acquire VdiskLock s) (\<lambda>s.
     let s = vio_write VIRTIO_MMIO_INTERRUPT_ACK (vio_read VIRTIO_MMIO_INTERRUPT_STATUS s AND 3) s in
     bnd (virtio_intr_loop (unat (used_dev_idx s - used_idx s)) s) (release VdiskLock))"

end
