(* ===== verification/Xv6_Bio.thy ===== *)
theory Xv6_Bio
  imports Xv6_Virtio
begin

text \<open>
  \<^verbatim>\<open>kernel/bio.c\<close>: the buffer cache.  Its doubly linked list runs through the buffers and the list head; a link is
  \<open>Head\<close> or \<open>Buf i\<close>.  The two searches of \<^verbatim>\<open>bget\<close> follow the links, and would not end on a list that never comes
  back to the head.
\<close>

section \<open>Links\<close>

definition lnext :: "'a bst_scheme \<Rightarrow> bptr \<Rightarrow> bptr" where
  "lnext s p = (case p of Head \<Rightarrow> head_next s | Buf i \<Rightarrow> b_next (bufs s i))"

definition lprev :: "'a bst_scheme \<Rightarrow> bptr \<Rightarrow> bptr" where
  "lprev s p = (case p of Head \<Rightarrow> head_prev s | Buf i \<Rightarrow> b_prev (bufs s i))"

definition set_buf :: "nat \<Rightarrow> (buf \<Rightarrow> buf) \<Rightarrow> 'a bst_scheme \<Rightarrow> 'a bst_scheme" where
  "set_buf i f s = s\<lparr>bufs := (bufs s)(i := f (bufs s i))\<rparr>"

definition set_next :: "bptr \<Rightarrow> bptr \<Rightarrow> 'a bst_scheme \<Rightarrow> 'a bst_scheme" where
  "set_next p q s = (case p of Head \<Rightarrow> s\<lparr>head_next := q\<rparr> | Buf i \<Rightarrow> set_buf i (b_next_update (\<lambda>_. q)) s)"

definition set_prev :: "bptr \<Rightarrow> bptr \<Rightarrow> 'a bst_scheme \<Rightarrow> 'a bst_scheme" where
  "set_prev p q s = (case p of Head \<Rightarrow> s\<lparr>head_prev := q\<rparr> | Buf i \<Rightarrow> set_buf i (b_prev_update (\<lambda>_. q)) s)"

text \<open>The four assignments with which \<^verbatim>\<open>binit\<close> and \<^verbatim>\<open>brelse\<close> put a buffer at the front of the list.\<close>

definition link_front :: "nat \<Rightarrow> 'a bst_scheme \<Rightarrow> 'a bst_scheme" where
  "link_front i s =
     (let s = set_next (Buf i) (lnext s Head) s;
          s = set_prev (Buf i) Head s;
          s = set_prev (lnext s Head) (Buf i) s
      in set_next Head (Buf i) s)"

section \<open>Operations\<close>

primrec binit_loop :: "nat list \<Rightarrow> 'a bst_scheme \<Rightarrow> 'a bst_scheme" where
  "binit_loop [] s = s"
| "binit_loop (b # bs) s =
     (let s = set_next (Buf b) (lnext s Head) s;
          s = set_prev (Buf b) Head s;
          s = initsleeplock (BufSleep b) ''buffer'' s;
          s = set_prev (lnext s Head) (Buf b) s
      in binit_loop bs (set_next Head (Buf b) s))"

definition binit :: "'a bst_scheme \<Rightarrow> 'a bst_scheme" where
  "binit s =
     (let s = initlock BcacheLock ''bcache'' s;
          s = set_prev Head Head s;
          s = set_next Head Head s
      in binit_loop [0..<NBUF] s)"

partial_function (option) bget_cached :: "uint32 \<Rightarrow> uint32 \<Rightarrow> bptr \<Rightarrow> 'a bst_scheme \<Rightarrow> nat option option" where
  "bget_cached dev blockno p s =
     (case p of Head \<Rightarrow> Some None
      | Buf b \<Rightarrow>
          if b_dev (bufs s b) = dev \<and> b_blockno (bufs s b) = blockno then Some (Some b)
          else bget_cached dev blockno (b_next (bufs s b)) s)"

partial_function (option) bget_unused :: "bptr \<Rightarrow> 'a bst_scheme \<Rightarrow> nat option option" where
  "bget_unused p s =
     (case p of Head \<Rightarrow> Some None
      | Buf b \<Rightarrow> if b_refcnt (bufs s b) = 0 then Some (Some b) else bget_unused (b_prev (bufs s b)) s)"

definition bget :: "('a bst_scheme \<Rightarrow> 'a bst_scheme option) \<Rightarrow> uint32 \<Rightarrow> uint32 \<Rightarrow> 'a bst_scheme
    \<Rightarrow> (nat \<times> 'a bst_scheme) res" where
  "bget env dev blockno s =
     bnd (acquire BcacheLock s) (\<lambda>s.
     case bget_cached dev blockno (head_next s) s of
       None \<Rightarrow> Inl Hang
     | Some (Some b) \<Rightarrow>
         bnd (release BcacheLock (set_buf b (\<lambda>x. x\<lparr>b_refcnt := b_refcnt x + 1\<rparr>) s)) (\<lambda>s.
         bnd (acquiresleep env (BufSleep b) s) (\<lambda>s. Inr (b, s)))
     | Some None \<Rightarrow>
         (case bget_unused (head_prev s) s of
            None \<Rightarrow> Inl Hang
          | Some None \<Rightarrow> Inl (Panic ''bget: no buffers'')
          | Some (Some b) \<Rightarrow>
              bnd (release BcacheLock
                (set_buf b (\<lambda>x. x\<lparr>b_dev := dev, b_blockno := blockno, b_valid := 0, b_refcnt := 1\<rparr>) s)) (\<lambda>s.
              bnd (acquiresleep env (BufSleep b) s) (\<lambda>s. Inr (b, s)))))"

definition bread :: "('a bst_scheme \<Rightarrow> 'a bst_scheme option) \<Rightarrow> uint32 \<Rightarrow> uint32 \<Rightarrow> 'a bst_scheme
    \<Rightarrow> (nat \<times> 'a bst_scheme) res" where
  "bread env dev blockno s =
     bnd (bget env dev blockno s) (\<lambda>(b, s).
     if b_valid (bufs s b) = 0 then
       bnd (virtio_disk_rw env b False s) (\<lambda>s. Inr (b, set_buf b (b_valid_update (\<lambda>_. 1)) s))
     else Inr (b, s))"

definition bwrite :: "('a bst_scheme \<Rightarrow> 'a bst_scheme option) \<Rightarrow> nat \<Rightarrow> 'a bst_scheme \<Rightarrow> 'a bst_scheme res" where
  "bwrite env b s =
     bnd (holdingsleep (BufSleep b) s) (\<lambda>h.
     if \<not> h then Inl (Panic ''bwrite'') else virtio_disk_rw env b True s)"

definition unlink :: "nat \<Rightarrow> 'a bst_scheme \<Rightarrow> 'a bst_scheme" where
  "unlink b s =
     (let s = set_prev (lnext s (Buf b)) (lprev s (Buf b)) s in set_next (lprev s (Buf b)) (lnext s (Buf b)) s)"

definition brelse :: "nat \<Rightarrow> 'a bst_scheme \<Rightarrow> 'a bst_scheme res" where
  "brelse b s =
     bnd (holdingsleep (BufSleep b) s) (\<lambda>h.
     if \<not> h then Inl (Panic ''brelse'')
     else bnd (releasesleep (BufSleep b) s) (\<lambda>s.
       bnd (acquire BcacheLock s) (\<lambda>s.
       let s = set_buf b (\<lambda>x. x\<lparr>b_refcnt := b_refcnt x - 1\<rparr>) s;
           s = (if b_refcnt (bufs s b) = 0 then link_front b (unlink b s) else s)
       in release BcacheLock s)))"

definition bpin :: "nat \<Rightarrow> 'a bst_scheme \<Rightarrow> 'a bst_scheme res" where
  "bpin b s = bnd (acquire BcacheLock s) (\<lambda>s. release BcacheLock (set_buf b (\<lambda>x. x\<lparr>b_refcnt := b_refcnt x + 1\<rparr>) s))"

definition bunpin :: "nat \<Rightarrow> 'a bst_scheme \<Rightarrow> 'a bst_scheme res" where
  "bunpin b s = bnd (acquire BcacheLock s) (\<lambda>s. release BcacheLock (set_buf b (\<lambda>x. x\<lparr>b_refcnt := b_refcnt x - 1\<rparr>) s))"

end
