(* ===== verification/Xv6_Fs.thy ===== *)
theory Xv6_Fs
  imports Xv6_Bio
begin

text \<open>
  \<^verbatim>\<open>kernel/fs.c\<close>: block allocation, the inode table, file contents, directories and paths, over the buffer cache.  The
  structures that live on the disk are read from and written into the bytes of a buffer at their C offsets.  An
  element of the inode table is its index.  Short integers are 16-bit words, read as signed where the code compares
  them.  The local buffers of the code (directory entries, names) are lists of bytes.

  A loop that advances by at least one byte, entry or path character per round is given that many rounds.
\<close>

section \<open>Data\<close>

record superblock =
  sb_magic :: uint32
  sb_size :: uint32
  sb_nblocks :: uint32
  sb_ninodes :: uint32
  sb_nlog :: uint32
  sb_logstart :: uint32
  sb_inodestart :: uint32
  sb_bmapstart :: uint32

record inode =
  i_dev :: uint32
  i_inum :: uint32
  i_ref :: int
  i_valid :: int
  i_type :: uint16
  i_major :: uint16
  i_minor :: uint16
  i_nlink :: uint16
  i_size :: uint32
  i_addrs :: "uint32 list"

record fst_state = bst +
  sb :: superblock
  inodes :: "nat \<Rightarrow> inode"

abbreviation (input) ROOTINO :: uint32 where "ROOTINO \<equiv> 1"
abbreviation (input) FSMAGIC :: uint32 where "FSMAGIC \<equiv> 0x10203040"
abbreviation (input) NDIRECT :: uint32 where "NDIRECT \<equiv> 12"
abbreviation (input) NINDIRECT :: uint32 where "NINDIRECT \<equiv> 256"
abbreviation (input) MAXFILE :: uint32 where "MAXFILE \<equiv> 12 + 256"
abbreviation (input) IPB :: uint32 where "IPB \<equiv> 16"
abbreviation (input) BPB :: uint32 where "BPB \<equiv> 8192"
abbreviation (input) DIRSIZ :: nat where "DIRSIZ \<equiv> 14"
abbreviation (input) T_DIR :: uint16 where "T_DIR \<equiv> 1"
abbreviation (input) T_FILE :: uint16 where "T_FILE \<equiv> 2"
abbreviation (input) T_DEVICE :: uint16 where "T_DEVICE \<equiv> 3"

definition IBLOCK :: "uint32 \<Rightarrow> superblock \<Rightarrow> uint32" where
  "IBLOCK i b = i div IPB + sb_inodestart b"

definition BBLOCK :: "uint32 \<Rightarrow> superblock \<Rightarrow> uint32" where
  "BBLOCK b x = b div BPB + sb_bmapstart x"

text \<open>Reading a field of \<open>n\<close> bytes at an offset, and overwriting the bytes there.\<close>

definition field :: "nat \<Rightarrow> nat \<Rightarrow> uint8 list \<Rightarrow> 'a::len word" where
  "field off n bs = le_word (take n (drop off bs))"

definition splice :: "nat \<Rightarrow> uint8 list \<Rightarrow> uint8 list \<Rightarrow> uint8 list" where
  "splice off new bs = take off bs @ new @ drop (off + length new) bs"

definition set_data :: "nat \<Rightarrow> (uint8 list \<Rightarrow> uint8 list) \<Rightarrow> 'a bst_scheme \<Rightarrow> 'a bst_scheme" where
  "set_data b f s = set_buf b (b_data_update f) s"

definition set_inode :: "nat \<Rightarrow> (inode \<Rightarrow> inode) \<Rightarrow> 'a fst_state_scheme \<Rightarrow> 'a fst_state_scheme" where
  "set_inode i f s = s\<lparr>inodes := (inodes s)(i := f (inodes s i))\<rparr>"

text \<open>\<^verbatim>\<open>struct superblock\<close>, \<^verbatim>\<open>struct dinode\<close> and \<^verbatim>\<open>struct dirent\<close> in bytes.\<close>

definition decode_sb :: "uint8 list \<Rightarrow> superblock" where
  "decode_sb bs = \<lparr>sb_magic = field 0 4 bs, sb_size = field 4 4 bs, sb_nblocks = field 8 4 bs, sb_ninodes = field 12 4 bs,
     sb_nlog = field 16 4 bs, sb_logstart = field 20 4 bs, sb_inodestart = field 24 4 bs, sb_bmapstart = field 28 4 bs\<rparr>"

definition dinode_off :: "uint32 \<Rightarrow> nat" where
  "dinode_off inum = 64 * unat (inum mod IPB)"

definition dinode_bytes :: "inode \<Rightarrow> uint8 list" where
  "dinode_bytes ip = le_bytes 2 (i_type ip) @ le_bytes 2 (i_major ip) @ le_bytes 2 (i_minor ip) @ le_bytes 2 (i_nlink ip) @
     le_bytes 4 (i_size ip) @ concat (map (le_bytes 4) (take 13 (i_addrs ip)))"

definition read_dinode :: "uint8 list \<Rightarrow> inode \<Rightarrow> inode" where
  "read_dinode bs ip = ip\<lparr>i_type := field 0 2 bs, i_major := field 2 2 bs, i_minor := field 4 2 bs, i_nlink := field 6 2 bs,
     i_size := field 8 4 bs, i_addrs := map (\<lambda>k. field (12 + 4 * k) 4 bs) [0..<13]\<rparr>"

definition de_inum :: "uint8 list \<Rightarrow> uint16" where
  "de_inum de = field 0 2 de"

definition de_name :: "uint8 list \<Rightarrow> uint8 list" where
  "de_name de = take DIRSIZ (drop 2 de)"

section \<open>Blocks\<close>

definition readsb :: "('a fst_state_scheme \<Rightarrow> 'a fst_state_scheme option) \<Rightarrow> uint32 \<Rightarrow> 'a fst_state_scheme
    \<Rightarrow> 'a fst_state_scheme res" where
  "readsb env dev s =
     bnd (bread env dev 1 s) (\<lambda>(b, s). brelse b (s\<lparr>sb := decode_sb (b_data (bufs s b))\<rparr>))"

definition fsinit :: "('a fst_state_scheme \<Rightarrow> 'a fst_state_scheme option) \<Rightarrow> uint32 \<Rightarrow> 'a fst_state_scheme
    \<Rightarrow> 'a fst_state_scheme res" where
  "fsinit env dev s =
     bnd (readsb env dev s) (\<lambda>s. if sb_magic (sb s) \<noteq> FSMAGIC then Inl (Panic ''fsinit\<newline>'') else Inr s)"

definition bzero :: "('a bst_scheme \<Rightarrow> 'a bst_scheme option) \<Rightarrow> uint32 \<Rightarrow> uint32 \<Rightarrow> 'a bst_scheme \<Rightarrow> 'a bst_scheme res" where
  "bzero env dev blockno s =
     bnd (bread env dev blockno s) (\<lambda>(b, s).
     bnd (bwrite env b (set_data b (\<lambda>_. replicate 1024 0) s)) (brelse b))"

text \<open>The inner loop of \<^verbatim>\<open>balloc\<close>: the first clear bit of a bitmap block, below the size of the file system.\<close>

primrec balloc_scan :: "uint8 list \<Rightarrow> uint32 \<Rightarrow> uint32 \<Rightarrow> nat list \<Rightarrow> nat option" where
  "balloc_scan bm b fssize [] = None"
| "balloc_scan bm b fssize (bi # bis) =
     (if \<not> b + of_nat bi < fssize then None
      else if (bm ! (bi div 8)) AND push_bit (bi mod 8) 1 = 0 then Some bi
      else balloc_scan bm b fssize bis)"

partial_function (option) balloc_loop :: "('a fst_state_scheme \<Rightarrow> 'a fst_state_scheme option) \<Rightarrow> uint32 \<Rightarrow> uint32
    \<Rightarrow> 'a fst_state_scheme \<Rightarrow> (uint32 \<times> 'a fst_state_scheme) res option" where
  "balloc_loop env dev b s =
     (if b < sb_size (sb s) then
        (case bread env dev (BBLOCK b (sb s)) s of Inl f \<Rightarrow> Some (Inl f)
         | Inr (bp, s) \<Rightarrow>
           (case balloc_scan (b_data (bufs s bp)) b (sb_size (sb s)) [0..<8192] of
              Some bi \<Rightarrow>
                Some (bnd (bwrite env bp (set_data bp (\<lambda>d. d[bi div 8 := d ! (bi div 8) OR push_bit (bi mod 8) 1]) s)) (\<lambda>s.
                  bnd (brelse bp s) (\<lambda>s.
                  bnd (bzero env dev (b + of_nat bi) s) (\<lambda>s. Inr (b + of_nat bi, s)))))
            | None \<Rightarrow>
                (case brelse bp s of Inl f \<Rightarrow> Some (Inl f) | Inr s \<Rightarrow> balloc_loop env dev (b + BPB) s)))
      else Some (bnd (printf ''balloc: out of blocks\<newline>'' [] s) (\<lambda>s. Inr (0, s))))"

definition balloc :: "('a fst_state_scheme \<Rightarrow> 'a fst_state_scheme option) \<Rightarrow> uint32 \<Rightarrow> 'a fst_state_scheme
    \<Rightarrow> (uint32 \<times> 'a fst_state_scheme) res" where
  "balloc env dev s = unhang (balloc_loop env dev 0 s)"

definition bfree :: "('a fst_state_scheme \<Rightarrow> 'a fst_state_scheme option) \<Rightarrow> uint32 \<Rightarrow> uint32 \<Rightarrow> 'a fst_state_scheme
    \<Rightarrow> 'a fst_state_scheme res" where
  "bfree env dev blockno s =
     bnd (bread env dev (BBLOCK blockno (sb s)) s) (\<lambda>(bp, s).
     let bi = unat (blockno mod BPB); m = push_bit (bi mod 8) 1 in
     if (b_data (bufs s bp) ! (bi div 8)) AND m = 0 then Inl (Panic ''bfree\<newline>'')
     else bnd (bwrite env bp (set_data bp (\<lambda>d. d[bi div 8 := d ! (bi div 8) AND NOT m]) s)) (brelse bp))"

section \<open>Inodes\<close>

primrec iinit_loop :: "nat list \<Rightarrow> 'a slst_scheme \<Rightarrow> 'a slst_scheme" where
  "iinit_loop [] s = s"
| "iinit_loop (i # is) s = iinit_loop is (initsleeplock (InodeSleep i) ''inode'' s)"

definition iinit :: "'a slst_scheme \<Rightarrow> 'a slst_scheme" where
  "iinit s = iinit_loop [0..<NINODE] s"

text \<open>The search of \<^verbatim>\<open>iget\<close>: an entry for the inode, and the first entry with no references.\<close>

primrec iget_scan :: "nat list \<Rightarrow> uint32 \<Rightarrow> uint32 \<Rightarrow> nat option \<Rightarrow> 'a fst_state_scheme \<Rightarrow> nat option \<times> nat option" where
  "iget_scan [] dev inum free s = (None, free)"
| "iget_scan (i # is) dev inum free s =
     (if i_dev (inodes s i) = dev \<and> i_inum (inodes s i) = inum then (Some i, free)
      else iget_scan is dev inum (if free = None \<and> i_ref (inodes s i) = 0 then Some i else free) s)"

definition iget :: "uint32 \<Rightarrow> uint32 \<Rightarrow> 'a fst_state_scheme \<Rightarrow> (nat \<times> 'a fst_state_scheme) res" where
  "iget dev inum s =
     (case iget_scan [0..<NINODE] dev inum None s of
        (Some i, _) \<Rightarrow> Inr (i, set_inode i (\<lambda>ip. ip\<lparr>i_ref := i_ref ip + 1\<rparr>) s)
      | (None, None) \<Rightarrow> Inl (Panic ''iget\<newline>'')
      | (None, Some i) \<Rightarrow> Inr (i, set_inode i (\<lambda>ip. ip\<lparr>i_dev := dev, i_inum := inum, i_ref := 1, i_valid := 0\<rparr>) s))"

primrec ialloc_loop :: "('a fst_state_scheme \<Rightarrow> 'a fst_state_scheme option) \<Rightarrow> nat list \<Rightarrow> uint32 \<Rightarrow> uint16
    \<Rightarrow> 'a fst_state_scheme \<Rightarrow> (nat option \<times> 'a fst_state_scheme) res" where
  "ialloc_loop env [] dev type s = bnd (printf ''ialloc: no inodes\<newline>'' [] s) (\<lambda>s. Inr (None, s))"
| "ialloc_loop env (i # is) dev type s =
     (let inum = of_nat i; off = dinode_off inum in
      bnd (bread env dev (IBLOCK inum (sb s)) s) (\<lambda>(b, s).
      if (field off 2 (b_data (bufs s b)) :: uint16) = 0 then
        bnd (bwrite env b (set_data b (splice off (le_bytes 2 type @ replicate 62 0)) s)) (\<lambda>s.
        bnd (brelse b s) (\<lambda>s.
        bnd (iget dev inum s) (\<lambda>(ip, s). Inr (Some ip, s))))
      else bnd (brelse b s) (ialloc_loop env is dev type)))"

definition ialloc :: "('a fst_state_scheme \<Rightarrow> 'a fst_state_scheme option) \<Rightarrow> uint32 \<Rightarrow> uint16 \<Rightarrow> 'a fst_state_scheme
    \<Rightarrow> (nat option \<times> 'a fst_state_scheme) res" where
  "ialloc env dev type s = ialloc_loop env [1..<unat (sb_ninodes (sb s))] dev type s"

definition iupdate :: "('a fst_state_scheme \<Rightarrow> 'a fst_state_scheme option) \<Rightarrow> nat \<Rightarrow> 'a fst_state_scheme
    \<Rightarrow> 'a fst_state_scheme res" where
  "iupdate env ip s =
     bnd (bread env (i_dev (inodes s ip)) (IBLOCK (i_inum (inodes s ip)) (sb s)) s) (\<lambda>(b, s).
     let i = inodes s ip in
     bnd (bwrite env b (set_data b (splice (dinode_off (i_inum i)) (dinode_bytes i)) s)) (brelse b))"

definition idup :: "nat \<Rightarrow> 'a fst_state_scheme \<Rightarrow> nat \<times> 'a fst_state_scheme" where
  "idup ip s = (ip, set_inode ip (\<lambda>i. i\<lparr>i_ref := i_ref i + 1\<rparr>) s)"

definition ilock :: "('a fst_state_scheme \<Rightarrow> 'a fst_state_scheme option) \<Rightarrow> nat option \<Rightarrow> 'a fst_state_scheme
    \<Rightarrow> 'a fst_state_scheme res" where
  "ilock env ipp s =
     (case ipp of None \<Rightarrow> Inl (Panic ''ilock\<newline>'')
      | Some ip \<Rightarrow>
          if i_ref (inodes s ip) < 1 then Inl (Panic ''ilock\<newline>'')
          else bnd (acquiresleep env (InodeSleep ip) s) (\<lambda>s.
            if i_valid (inodes s ip) = 0 then
              bnd (bread env (i_dev (inodes s ip)) (IBLOCK (i_inum (inodes s ip)) (sb s)) s) (\<lambda>(b, s).
              let s = set_inode ip (read_dinode (drop (dinode_off (i_inum (inodes s ip))) (b_data (bufs s b)))) s in
              bnd (brelse b s) (\<lambda>s.
              let s = set_inode ip (i_valid_update (\<lambda>_. 1)) s in
              if i_type (inodes s ip) = 0 then Inl (Panic ''ilock type\<newline>'') else Inr s))
            else Inr s))"

definition iunlock :: "nat option \<Rightarrow> 'a fst_state_scheme \<Rightarrow> 'a fst_state_scheme res" where
  "iunlock ipp s =
     (case ipp of None \<Rightarrow> Inl (Panic ''iunlock'')
      | Some ip \<Rightarrow> bnd (holdingsleep (InodeSleep ip) s) (\<lambda>h.
          if \<not> h \<or> i_ref (inodes s ip) < 1 then Inl (Panic ''iunlock'') else releasesleep (InodeSleep ip) s))"

primrec itrunc_direct :: "('a fst_state_scheme \<Rightarrow> 'a fst_state_scheme option) \<Rightarrow> nat list \<Rightarrow> nat \<Rightarrow> 'a fst_state_scheme
    \<Rightarrow> 'a fst_state_scheme res" where
  "itrunc_direct env [] ip s = Inr s"
| "itrunc_direct env (i # is) ip s =
     (if i_addrs (inodes s ip) ! i \<noteq> 0 then
        bnd (bfree env (i_dev (inodes s ip)) (i_addrs (inodes s ip) ! i) s) (\<lambda>s.
          itrunc_direct env is ip (set_inode ip (\<lambda>x. x\<lparr>i_addrs := (i_addrs x)[i := 0]\<rparr>) s))
      else itrunc_direct env is ip s)"

primrec itrunc_indirect :: "('a fst_state_scheme \<Rightarrow> 'a fst_state_scheme option) \<Rightarrow> nat list \<Rightarrow> nat \<Rightarrow> nat
    \<Rightarrow> 'a fst_state_scheme \<Rightarrow> 'a fst_state_scheme res" where
  "itrunc_indirect env [] ip bp s = Inr s"
| "itrunc_indirect env (j # js) ip bp s =
     (let a = (field (4 * j) 4 (b_data (bufs s bp)) :: uint32) in
      if a \<noteq> 0 then bnd (bfree env (i_dev (inodes s ip)) a s) (itrunc_indirect env js ip bp)
      else itrunc_indirect env js ip bp s)"

definition itrunc :: "('a fst_state_scheme \<Rightarrow> 'a fst_state_scheme option) \<Rightarrow> nat \<Rightarrow> 'a fst_state_scheme
    \<Rightarrow> 'a fst_state_scheme res" where
  "itrunc env ip s =
     bnd (itrunc_direct env [0..<12] ip s) (\<lambda>s.
     bnd (if i_addrs (inodes s ip) ! 12 \<noteq> 0 then
            bnd (bread env (i_dev (inodes s ip)) (i_addrs (inodes s ip) ! 12) s) (\<lambda>(bp, s).
            bnd (itrunc_indirect env [0..<256] ip bp s) (\<lambda>s.
            bnd (brelse bp s) (\<lambda>s.
            bnd (bfree env (i_dev (inodes s ip)) (i_addrs (inodes s ip) ! 12) s) (\<lambda>s.
            Inr (set_inode ip (\<lambda>x. x\<lparr>i_addrs := (i_addrs x)[12 := 0]\<rparr>) s)))))
          else Inr s) (\<lambda>s.
     iupdate env ip (set_inode ip (i_size_update (\<lambda>_. 0)) s)))"

definition iput :: "('a fst_state_scheme \<Rightarrow> 'a fst_state_scheme option) \<Rightarrow> nat \<Rightarrow> 'a fst_state_scheme
    \<Rightarrow> 'a fst_state_scheme res" where
  "iput env ip s =
     bnd (if i_ref (inodes s ip) = 1 \<and> i_valid (inodes s ip) \<noteq> 0 \<and> i_nlink (inodes s ip) = 0 then
            bnd (acquiresleep env (InodeSleep ip) s) (\<lambda>s.
            bnd (itrunc env ip (set_inode ip (i_type_update (\<lambda>_. 0)) s)) (\<lambda>s.
            bnd (iupdate env ip s) (releasesleep (InodeSleep ip))))
          else Inr s) (\<lambda>s.
     Inr (set_inode ip (\<lambda>i. i\<lparr>i_ref := i_ref i - 1\<rparr>) s))"

definition iunlockput :: "('a fst_state_scheme \<Rightarrow> 'a fst_state_scheme option) \<Rightarrow> nat \<Rightarrow> 'a fst_state_scheme
    \<Rightarrow> 'a fst_state_scheme res" where
  "iunlockput env ip s = bnd (iunlock (Some ip) s) (iput env ip)"

section \<open>File contents\<close>

definition bmap :: "('a fst_state_scheme \<Rightarrow> 'a fst_state_scheme option) \<Rightarrow> nat \<Rightarrow> uint32 \<Rightarrow> 'a fst_state_scheme
    \<Rightarrow> (uint32 \<times> 'a fst_state_scheme) res" where
  "bmap env ip bn s =
     (let dev = i_dev (inodes s ip) in
      if bn < NDIRECT then
        let a = i_addrs (inodes s ip) ! unat bn in
        if a = 0 then
          bnd (balloc env dev s) (\<lambda>(a, s).
          if a = 0 then Inr (0, s)
          else Inr (a, set_inode ip (\<lambda>x. x\<lparr>i_addrs := (i_addrs x)[unat bn := a]\<rparr>) s))
        else Inr (a, s)
      else
        let bn = bn - NDIRECT in
        if bn < NINDIRECT then
          bnd (let a = i_addrs (inodes s ip) ! 12 in
               if a = 0 then
                 bnd (balloc env dev s) (\<lambda>(a, s).
                 Inr (a, if a = 0 then s else set_inode ip (\<lambda>x. x\<lparr>i_addrs := (i_addrs x)[12 := a]\<rparr>) s))
               else Inr (a, s)) (\<lambda>(ind, s).
          if ind = 0 then Inr (0, s)
          else bnd (bread env dev ind s) (\<lambda>(bp, s).
            let a = field (4 * unat bn) 4 (b_data (bufs s bp)) in
            bnd (if a = 0 then
                   bnd (balloc env dev s) (\<lambda>(a, s).
                   if a \<noteq> 0 then
                     bnd (bwrite env bp (set_data bp (splice (4 * unat bn) (le_bytes 4 a)) s)) (\<lambda>s. Inr (a, s))
                   else Inr (a, s))
                 else Inr (a, s)) (\<lambda>(a, s).
            bnd (brelse bp s) (\<lambda>s. Inr (a, s)))))
        else Inl (Panic ''bmap: out of range''))"

record stat =
  st_dev :: int
  st_ino :: uint32
  st_type :: uint16
  st_nlink :: uint16
  st_size :: uint64

definition stati :: "nat \<Rightarrow> 'a fst_state_scheme \<Rightarrow> stat" where
  "stati ip s = (let i = inodes s ip in
     \<lparr>st_dev = int_of_u32 (i_dev i), st_ino = i_inum i, st_type = i_type i, st_nlink = i_nlink i, st_size = ucast (i_size i)\<rparr>)"

text \<open>
  The loops of \<^verbatim>\<open>readi\<close> and \<^verbatim>\<open>writei\<close>, with the rounds they may still take.  \<open>tot\<close> is \<^verbatim>\<open>(uint)-1\<close> after a failed copy.
  The bytes delivered to a kernel buffer are collected, and those of a kernel source are taken from \<open>kb\<close>.
\<close>

definition io_chunk :: "uint32 \<Rightarrow> uint32 \<Rightarrow> uint32 \<Rightarrow> uint32" where
  "io_chunk n tot off = min (n - tot) (BSIZE - off mod BSIZE)"

primrec readi_loop :: "('a fst_state_scheme \<Rightarrow> 'a fst_state_scheme option) \<Rightarrow> nat \<Rightarrow> bool \<Rightarrow> nat \<Rightarrow> addr \<Rightarrow> uint32 \<Rightarrow> uint32
    \<Rightarrow> uint32 \<Rightarrow> 'a fst_state_scheme \<Rightarrow> (uint32 \<times> uint8 list \<times> 'a fst_state_scheme) res" where
  "readi_loop env ip user_dst 0 dst off n tot s = Inr (tot, [], s)"
| "readi_loop env ip user_dst (Suc k) dst off n tot s =
     (if tot < n then
        bnd (bmap env ip (off div BSIZE) s) (\<lambda>(a, s).
        if a = 0 then Inr (tot, [], s)
        else bnd (bread env (i_dev (inodes s ip)) a s) (\<lambda>(bp, s).
          let m = io_chunk n tot off in
          bnd (either_copyout user_dst dst (take (unat m) (drop (unat (off mod BSIZE)) (b_data (bufs s bp)))) (ucast m) s)
            (\<lambda>(r, bs, s).
          if r = -1 then bnd (brelse bp s) (\<lambda>s. Inr (-1, [], s))
          else bnd (brelse bp s) (\<lambda>s.
            bnd (readi_loop env ip user_dst k (dst + ucast m) (off + m) n (tot + m) s) (\<lambda>(tot, bs', s).
              Inr (tot, bs @ bs', s))))))
      else Inr (tot, [], s))"

definition readi :: "('a fst_state_scheme \<Rightarrow> 'a fst_state_scheme option) \<Rightarrow> nat \<Rightarrow> bool \<Rightarrow> addr \<Rightarrow> uint32 \<Rightarrow> uint32
    \<Rightarrow> 'a fst_state_scheme \<Rightarrow> (int \<times> uint8 list \<times> 'a fst_state_scheme) res" where
  "readi env ip user_dst dst off n s =
     (let isize = i_size (inodes s ip) in
      if off > isize \<or> off + n < off then Inr (0, [], s)
      else let n = (if off + n > isize then isize - off else n) in
        bnd (readi_loop env ip user_dst (unat n) dst off n 0 s) (\<lambda>(tot, bs, s). Inr (int_of_u32 tot, bs, s)))"

primrec writei_loop :: "('a fst_state_scheme \<Rightarrow> 'a fst_state_scheme option) \<Rightarrow> nat \<Rightarrow> bool \<Rightarrow> nat \<Rightarrow> addr \<Rightarrow> uint8 list
    \<Rightarrow> uint32 \<Rightarrow> uint32 \<Rightarrow> uint32 \<Rightarrow> 'a fst_state_scheme \<Rightarrow> (uint32 \<times> uint32 \<times> 'a fst_state_scheme) res" where
  "writei_loop env ip user_src 0 src kb off n tot s = Inr (tot, off, s)"
| "writei_loop env ip user_src (Suc k) src kb off n tot s =
     (if tot < n then
        bnd (bmap env ip (off div BSIZE) s) (\<lambda>(a, s).
        if a = 0 then Inr (tot, off, s)
        else bnd (bread env (i_dev (inodes s ip)) a s) (\<lambda>(bp, s).
          let m = io_chunk n tot off in
          bnd (either_copyin user_src src kb (ucast m) s) (\<lambda>(r, bs).
          let s = set_data bp (splice (unat (off mod BSIZE)) bs) s in
          if r = -1 then bnd (brelse bp s) (\<lambda>s. Inr (-1, off, s))
          else bnd (bwrite env bp s) (\<lambda>s.
            bnd (brelse bp s) (\<lambda>s.
            writei_loop env ip user_src k (src + ucast m) (drop (unat m) kb) (off + m) n (tot + m) s)))))
      else Inr (tot, off, s))"

definition writei :: "('a fst_state_scheme \<Rightarrow> 'a fst_state_scheme option) \<Rightarrow> nat \<Rightarrow> bool \<Rightarrow> addr \<Rightarrow> uint8 list \<Rightarrow> uint32
    \<Rightarrow> uint32 \<Rightarrow> 'a fst_state_scheme \<Rightarrow> (int \<times> 'a fst_state_scheme) res" where
  "writei env ip user_src src kb off n s =
     (if off > i_size (inodes s ip) \<or> off + n < off then Inr (-1, s)
      else if off + n > MAXFILE * BSIZE then Inr (-1, s)
      else bnd (writei_loop env ip user_src (unat n) src kb off n 0 s) (\<lambda>(tot, off, s).
        let s = (if off > i_size (inodes s ip) then set_inode ip (i_size_update (\<lambda>_. off)) s else s) in
        bnd (iupdate env ip s) (\<lambda>s. Inr (int_of_u32 tot, s))))"

end
