(* ===== verification/Xv6_Dir.thy ===== *)
theory Xv6_Dir
  imports Xv6_Fs
begin

text \<open>
  The directories and paths of \<^verbatim>\<open>kernel/fs.c\<close>.  A C string is the list of its bytes before the NUL; a fixed-size
  name buffer is the list of all its bytes.  \<open>strncmp_bytes\<close> and \<open>safestrcpy_bytes\<close> are \<^verbatim>\<open>strncmp\<close> and
  \<^verbatim>\<open>safestrcpy\<close> on such lists; reading past the end of a list reads the NUL that ends the string.
\<close>

section \<open>Names\<close>

abbreviation (input) SLASH :: uint8 where "SLASH \<equiv> 47"

definition byte_at :: "nat \<Rightarrow> uint8 list \<Rightarrow> uint8" where
  "byte_at i bs = (if i < length bs then bs ! i else 0)"

primrec strncmp_bytes :: "nat \<Rightarrow> uint8 list \<Rightarrow> uint8 list \<Rightarrow> int" where
  "strncmp_bytes 0 p q = 0"
| "strncmp_bytes (Suc n) p q =
     (if byte_at 0 p \<noteq> 0 \<and> byte_at 0 p = byte_at 0 q then strncmp_bytes n (drop 1 p) (drop 1 q)
      else uint (byte_at 0 p) - uint (byte_at 0 q))"

definition namecmp :: "uint8 list \<Rightarrow> uint8 list \<Rightarrow> int" where
  "namecmp p q = strncmp_bytes DIRSIZ p q"

text \<open>A string that is over before the bound is written with its NUL, and then the final \<^verbatim>\<open>*s = 0\<close> writes a second one.\<close>

definition safestrcpy_bytes :: "uint8 list \<Rightarrow> uint8 list \<Rightarrow> nat \<Rightarrow> uint8 list" where
  "safestrcpy_bytes dst src n =
     (let copied = takeWhile (\<lambda>c. c \<noteq> 0) (take (n - 1) src)
      in splice 0 (copied @ (if length copied < n - 1 then [0, 0] else [0])) dst)"

section \<open>Directories\<close>

primrec dirlookup_loop :: "('a fst_state_scheme \<Rightarrow> 'a fst_state_scheme option) \<Rightarrow> nat \<Rightarrow> nat \<Rightarrow> uint8 list \<Rightarrow> uint32
    \<Rightarrow> 'a fst_state_scheme \<Rightarrow> ((nat \<times> uint32) option \<times> 'a fst_state_scheme) res" where
  "dirlookup_loop env 0 dp name off s = Inr (None, s)"
| "dirlookup_loop env (Suc k) dp name off s =
     (if off < i_size (inodes s dp) then
        bnd (readi env dp False 0 off 16 s) (\<lambda>(r, de, s).
        if r \<noteq> 16 then Inl (Panic ''dirlookup read'')
        else if de_inum de = 0 then dirlookup_loop env k dp name (off + 16) s
        else if namecmp name (de_name de) = 0 then
          bnd (iget (i_dev (inodes s dp)) (ucast (de_inum de)) s) (\<lambda>(ip, s). Inr (Some (ip, off), s))
        else dirlookup_loop env k dp name (off + 16) s)
      else Inr (None, s))"

text \<open>The result is the inode, with the offset of its entry, which the code stores in \<^verbatim>\<open>*poff\<close> if asked to.\<close>

definition dirlookup :: "('a fst_state_scheme \<Rightarrow> 'a fst_state_scheme option) \<Rightarrow> nat \<Rightarrow> uint8 list \<Rightarrow> 'a fst_state_scheme
    \<Rightarrow> ((nat \<times> uint32) option \<times> 'a fst_state_scheme) res" where
  "dirlookup env dp name s =
     (if i_type (inodes s dp) \<noteq> T_DIR then Inl (Panic ''dirlookup not DIR'')
      else dirlookup_loop env (Suc (unat (i_size (inodes s dp)) div 16)) dp name 0 s)"

text \<open>
  The search of \<^verbatim>\<open>dirlink\<close> for an unused entry: its offset, and the entry last read into \<^verbatim>\<open>de\<close>.  The bytes of \<^verbatim>\<open>de\<close> before
  the first read are not initialised in the code and are zero here; only bytes after the NUL of a name keep them.
\<close>

primrec dirlink_loop :: "('a fst_state_scheme \<Rightarrow> 'a fst_state_scheme option) \<Rightarrow> nat \<Rightarrow> nat \<Rightarrow> uint32 \<Rightarrow> uint8 list
    \<Rightarrow> 'a fst_state_scheme \<Rightarrow> (uint32 \<times> uint8 list \<times> 'a fst_state_scheme) res" where
  "dirlink_loop env 0 dp off de s = Inr (off, de, s)"
| "dirlink_loop env (Suc k) dp off de s =
     (if off < i_size (inodes s dp) then
        bnd (readi env dp False 0 off 16 s) (\<lambda>(r, de, s).
        if r \<noteq> 16 then Inl (Panic ''dirlink read\<newline>'')
        else if de_inum de = 0 then Inr (off, de, s)
        else dirlink_loop env k dp (off + 16) de s)
      else Inr (off, de, s))"

text \<open>What \<^verbatim>\<open>dirlink\<close> makes of the entry \<^verbatim>\<open>de\<close> before it writes it.\<close>

definition dirlink_entry :: "uint8 list \<Rightarrow> uint8 list \<Rightarrow> uint32 \<Rightarrow> uint8 list" where
  "dirlink_entry de name inum = le_bytes 2 (ucast inum :: uint16) @ safestrcpy_bytes (drop 2 de) name DIRSIZ"

definition dirlink :: "('a fst_state_scheme \<Rightarrow> 'a fst_state_scheme option) \<Rightarrow> nat \<Rightarrow> uint8 list \<Rightarrow> uint32 \<Rightarrow> 'a fst_state_scheme
    \<Rightarrow> (int \<times> 'a fst_state_scheme) res" where
  "dirlink env dp name inum s =
     bnd (dirlookup env dp name s) (\<lambda>(found, s).
     case found of Some (ip, _) \<Rightarrow> bnd (iput env ip s) (\<lambda>s. Inr (-1, s))
     | None \<Rightarrow>
         bnd (dirlink_loop env (Suc (unat (i_size (inodes s dp)) div 16)) dp 0 (replicate 16 0) s) (\<lambda>(off, de, s).
         bnd (writei env dp False 0 (dirlink_entry de name inum) off 16 s) (\<lambda>(r, s). if r \<noteq> 16 then Inr (-1, s) else Inr (0, s))))"

section \<open>Paths\<close>

text \<open>\<open>skipelem path name\<close> is the rest of the path, if there is an element, and the new contents of \<^verbatim>\<open>name\<close>.\<close>

definition skipelem :: "uint8 list \<Rightarrow> uint8 list \<Rightarrow> uint8 list option \<times> uint8 list" where
  "skipelem path name =
     (let path = dropWhile (\<lambda>c. c = SLASH) path in
      if path = [] then (None, name)
      else let el = takeWhile (\<lambda>c. c \<noteq> SLASH) path;
               len = length el;
               name' = (if len \<ge> DIRSIZ then splice 0 (take DIRSIZ el) name else splice 0 (el @ [0]) name)
        in (Some (dropWhile (\<lambda>c. c = SLASH) (drop len path)), name'))"

primrec namex_loop :: "('a fst_state_scheme \<Rightarrow> 'a fst_state_scheme option) \<Rightarrow> nat \<Rightarrow> bool \<Rightarrow> nat \<Rightarrow> uint8 list \<Rightarrow> uint8 list
    \<Rightarrow> 'a fst_state_scheme \<Rightarrow> (nat option \<times> uint8 list \<times> 'a fst_state_scheme) res" where
  "namex_loop env 0 parent ip path name s = Inl Hang"
| "namex_loop env (Suc k) parent ip path name s =
     (case skipelem path name of
        (None, name) \<Rightarrow>
          if parent then bnd (iput env ip s) (\<lambda>s. Inr (None, name, s)) else Inr (Some ip, name, s)
      | (Some path, name) \<Rightarrow>
          bnd (ilock env (Some ip) s) (\<lambda>s.
          if i_type (inodes s ip) \<noteq> T_DIR then bnd (iunlockput env ip s) (\<lambda>s. Inr (None, name, s))
          else if parent \<and> path = [] then bnd (iunlock (Some ip) s) (\<lambda>s. Inr (Some ip, name, s))
          else bnd (dirlookup env ip name s) (\<lambda>(next, s).
            case next of None \<Rightarrow> bnd (iunlockput env ip s) (\<lambda>s. Inr (None, name, s))
            | Some (n, _) \<Rightarrow> bnd (iunlockput env ip s) (namex_loop env k parent n path name))))"

definition namex :: "('a fst_state_scheme \<Rightarrow> 'a fst_state_scheme option) \<Rightarrow> uint8 list \<Rightarrow> bool \<Rightarrow> uint8 list \<Rightarrow> 'a fst_state_scheme
    \<Rightarrow> (nat option \<times> uint8 list \<times> 'a fst_state_scheme) res" where
  "namex env path parent name s =
     bnd (if byte_at 0 path = SLASH then iget ROOTDEV ROOTINO s
          else case myproc s of None \<Rightarrow> Inl OutOfBounds
            | Some p \<Rightarrow> (case p_cwd (procs s p) of None \<Rightarrow> Inl OutOfBounds | Some c \<Rightarrow> Inr (idup c s))) (\<lambda>(ip, s).
     namex_loop env (Suc (length path)) parent ip path name s)"

text \<open>\<^verbatim>\<open>char name[DIRSIZ]\<close> is not initialised in \<^verbatim>\<open>namei\<close>; its contents do not matter and are zero here.\<close>

definition namei :: "('a fst_state_scheme \<Rightarrow> 'a fst_state_scheme option) \<Rightarrow> uint8 list \<Rightarrow> 'a fst_state_scheme
    \<Rightarrow> (nat option \<times> 'a fst_state_scheme) res" where
  "namei env path s = bnd (namex env path False (replicate DIRSIZ 0) s) (\<lambda>(ip, _, s). Inr (ip, s))"

definition nameiparent :: "('a fst_state_scheme \<Rightarrow> 'a fst_state_scheme option) \<Rightarrow> uint8 list \<Rightarrow> 'a fst_state_scheme
    \<Rightarrow> (nat option \<times> uint8 list \<times> 'a fst_state_scheme) res" where
  "nameiparent env path s = namex env path True (replicate DIRSIZ 0) s"

end
