(* ===== verification/Xv6_File.thy ===== *)
theory Xv6_File
  imports Xv6_Dir
begin

text \<open>
  \<^verbatim>\<open>kernel/pipe.c\<close> and \<^verbatim>\<open>kernel/file.c\<close>: pipes, and the table of open files over pipes, devices and inodes.  A pipe is a
  typed object at the address of the page \<^verbatim>\<open>kalloc\<close> gave to it.  An element of the file table is its index.
\<close>

section \<open>Data\<close>

record pipe =
  pi_readable :: uint32
  pi_writable :: uint32
  pi_rd :: uint32
  pi_wt :: uint32
  pi_buf :: "nat \<Rightarrow> uint8"

datatype fdtype = FD_NONE | FD_PIPE | FD_INODE | FD_DEVICE

record ofile =
  f_type :: fdtype
  f_ref :: int
  f_readable :: bool
  f_writable :: bool
  f_pipe :: addr
  f_ip :: "nat option"
  f_off :: uint32
  f_major :: uint16

record kst = fst_state +
  pipes :: "addr \<Rightarrow> pipe"
  files :: "nat \<Rightarrow> ofile"

abbreviation (input) PIPESIZE :: uint32 where "PIPESIZE \<equiv> 512"

definition set_pipe :: "addr \<Rightarrow> (pipe \<Rightarrow> pipe) \<Rightarrow> 'a kst_scheme \<Rightarrow> 'a kst_scheme" where
  "set_pipe pi f s = s\<lparr>pipes := (pipes s)(pi := f (pipes s pi))\<rparr>"

definition set_file :: "nat \<Rightarrow> (ofile \<Rightarrow> ofile) \<Rightarrow> 'a kst_scheme \<Rightarrow> 'a kst_scheme" where
  "set_file i f s = s\<lparr>files := (files s)(i := f (files s i))\<rparr>"

section \<open>Pipes\<close>

definition pipeclose :: "addr \<Rightarrow> bool \<Rightarrow> 'a kst_scheme \<Rightarrow> 'a kst_scheme res" where
  "pipeclose pi writable s =
     bnd (acquire (PipeLock pi) s) (\<lambda>s.
     bnd (if writable then wakeup (Some (ChanPipeRd pi)) (set_pipe pi (pi_writable_update (\<lambda>_. 0)) s)
          else wakeup (Some (ChanPipeWt pi)) (set_pipe pi (pi_readable_update (\<lambda>_. 0)) s)) (\<lambda>s.
     if pi_readable (pipes s pi) = 0 \<and> pi_writable (pipes s pi) = 0
     then bnd (release (PipeLock pi) s) (kfree pi)
     else release (PipeLock pi) s))"

partial_function (option) piperead_wait :: "('a kst_scheme \<Rightarrow> 'a kst_scheme option) \<Rightarrow> addr \<Rightarrow> nat \<Rightarrow> 'a kst_scheme
    \<Rightarrow> (bool \<times> 'a kst_scheme) res option" where
  "piperead_wait env pi pr s =
     (if pi_rd (pipes s pi) = pi_wt (pipes s pi) \<and> pi_writable (pipes s pi) \<noteq> 0 then
        if killed pr s \<noteq> 0 then Some (Inr (True, s))
        else (case sleep env (ChanPipeRd pi) (Some (PipeLock pi)) s of
            Inl f \<Rightarrow> Some (Inl f) | Inr s \<Rightarrow> piperead_wait env pi pr s)
      else Some (Inr (False, s)))"

primrec piperead_loop :: "addr \<Rightarrow> nat \<Rightarrow> addr \<Rightarrow> int \<Rightarrow> nat \<Rightarrow> 'a kst_scheme \<Rightarrow> int \<times> 'a kst_scheme" where
  "piperead_loop pi pr va i 0 s = (i, s)"
| "piperead_loop pi pr va i (Suc k) s =
     (if pi_rd (pipes s pi) = pi_wt (pipes s pi) then (i, s)
      else let ch = pi_buf (pipes s pi) (unat (pi_rd (pipes s pi) mod PIPESIZE));
               s = set_pipe pi (\<lambda>x. x\<lparr>pi_rd := pi_rd x + 1\<rparr>) s;
               (r, s) = copyout (p_pagetable (procs s pr)) (va + u64_of_int i) [ch] 1 s in
        if r = -1 then (i, s) else piperead_loop pi pr va (i + 1) k s)"

definition piperead :: "('a kst_scheme \<Rightarrow> 'a kst_scheme option) \<Rightarrow> addr \<Rightarrow> addr \<Rightarrow> int \<Rightarrow> 'a kst_scheme
    \<Rightarrow> (int \<times> 'a kst_scheme) res" where
  "piperead env pi va n s =
     (case myproc s of None \<Rightarrow> Inl OutOfBounds
      | Some pr \<Rightarrow>
          bnd (acquire (PipeLock pi) s) (\<lambda>s.
          bnd (unhang (piperead_wait env pi pr s)) (\<lambda>(dead, s).
          if dead then bnd (release (PipeLock pi) s) (\<lambda>s. Inr (-1, s))
          else let (i, s) = piperead_loop pi pr va 0 (nat n) s in
            bnd (wakeup (Some (ChanPipeWt pi)) s) (\<lambda>s. bnd (release (PipeLock pi) s) (\<lambda>s. Inr (i, s))))))"

text \<open>The loop of \<^verbatim>\<open>pipewrite\<close>: \<open>None\<close> is its early return.\<close>

partial_function (option) pipewrite_loop :: "('a kst_scheme \<Rightarrow> 'a kst_scheme option) \<Rightarrow> addr \<Rightarrow> nat \<Rightarrow> addr \<Rightarrow> int \<Rightarrow> int
    \<Rightarrow> 'a kst_scheme \<Rightarrow> (int option \<times> 'a kst_scheme) res option" where
  "pipewrite_loop env pi pr va n i s =
     (if i < n then
        if pi_readable (pipes s pi) = 0 \<or> killed pr s \<noteq> 0 then
          Some (bnd (release (PipeLock pi) s) (\<lambda>s. Inr (None, s)))
        else if pi_wt (pipes s pi) = pi_rd (pipes s pi) + PIPESIZE then
          (case wakeup (Some (ChanPipeRd pi)) s of Inl f \<Rightarrow> Some (Inl f)
           | Inr s \<Rightarrow>
             (case sleep env (ChanPipeWt pi) (Some (PipeLock pi)) s of Inl f \<Rightarrow> Some (Inl f)
              | Inr s \<Rightarrow> pipewrite_loop env pi pr va n i s))
        else let (r, bs) = copyin (p_pagetable (procs s pr)) (va + u64_of_int i) 1 s in
          if r = -1 then Some (Inr (Some i, s))
          else pipewrite_loop env pi pr va n (i + 1)
            (set_pipe pi (\<lambda>x. x\<lparr>pi_buf := (pi_buf x)(unat (pi_wt x mod PIPESIZE) := hd bs), pi_wt := pi_wt x + 1\<rparr>) s)
      else Some (Inr (Some i, s)))"

definition pipewrite :: "('a kst_scheme \<Rightarrow> 'a kst_scheme option) \<Rightarrow> addr \<Rightarrow> addr \<Rightarrow> int \<Rightarrow> 'a kst_scheme
    \<Rightarrow> (int \<times> 'a kst_scheme) res" where
  "pipewrite env pi va n s =
     (case myproc s of None \<Rightarrow> Inl OutOfBounds
      | Some pr \<Rightarrow>
          bnd (acquire (PipeLock pi) s) (\<lambda>s.
          bnd (unhang (pipewrite_loop env pi pr va n 0 s)) (\<lambda>(i, s).
          case i of None \<Rightarrow> Inr (-1, s)
          | Some i \<Rightarrow>
              bnd (wakeup (Some (ChanPipeRd pi)) s) (\<lambda>s. bnd (release (PipeLock pi) s) (\<lambda>s. Inr (i, s))))))"

section \<open>Open files\<close>

primrec filealloc_scan :: "nat list \<Rightarrow> 'a kst_scheme \<Rightarrow> nat option \<times> 'a kst_scheme" where
  "filealloc_scan [] s = (None, s)"
| "filealloc_scan (i # is) s =
     (if f_ref (files s i) \<noteq> 0 then filealloc_scan is s else (Some i, set_file i (f_ref_update (\<lambda>_. 1)) s))"

definition filealloc :: "'a kst_scheme \<Rightarrow> nat option \<times> 'a kst_scheme" where
  "filealloc s = filealloc_scan [0..<NFILE] s"

definition filedup :: "nat \<Rightarrow> 'a kst_scheme \<Rightarrow> (nat \<times> 'a kst_scheme) res" where
  "filedup f s =
     (if f_ref (files s f) < 1 then Inl (Panic ''filedup\<newline>'')
      else Inr (f, set_file f (\<lambda>x. x\<lparr>f_ref := f_ref x + 1\<rparr>) s))"

definition fileclose :: "('a kst_scheme \<Rightarrow> 'a kst_scheme option) \<Rightarrow> nat \<Rightarrow> 'a kst_scheme \<Rightarrow> 'a kst_scheme res" where
  "fileclose env f s =
     (if f_ref (files s f) < 1 then Inl (Panic ''filedup\<newline>'')
      else let s = set_file f (\<lambda>x. x\<lparr>f_ref := f_ref x - 1\<rparr>) s in
        if f_ref (files s f) > 0 then Inr s
        else let ff = files s f;
                 s = set_file f (\<lambda>x. x\<lparr>f_ref := 0, f_type := FD_NONE\<rparr>) s in
          case f_type ff of
            FD_PIPE \<Rightarrow> pipeclose (f_pipe ff) (f_writable ff) s
          | FD_NONE \<Rightarrow> Inr s
          | _ \<Rightarrow> (case f_ip ff of None \<Rightarrow> Inl OutOfBounds | Some ip \<Rightarrow> iput env ip s))"

text \<open>\<^verbatim>\<open>struct stat\<close> in bytes, with the padding before \<^verbatim>\<open>size\<close>, which the code leaves uninitialised, as zero.\<close>

definition stat_bytes :: "stat \<Rightarrow> uint8 list" where
  "stat_bytes st = le_bytes 4 (u32_of_int (st_dev st)) @ le_bytes 4 (st_ino st) @ le_bytes 2 (st_type st) @
     le_bytes 2 (st_nlink st) @ replicate 4 0 @ le_bytes 8 (st_size st)"

definition filestat :: "('a kst_scheme \<Rightarrow> 'a kst_scheme option) \<Rightarrow> nat \<Rightarrow> addr \<Rightarrow> 'a kst_scheme \<Rightarrow> (int \<times> 'a kst_scheme) res" where
  "filestat env f a s =
     (case myproc s of None \<Rightarrow> Inl OutOfBounds
      | Some p \<Rightarrow>
          if f_type (files s f) = FD_INODE \<or> f_type (files s f) = FD_DEVICE then
            bnd (ilock env (f_ip (files s f)) s) (\<lambda>s.
            let st = stati (the (f_ip (files s f))) s in
            bnd (iunlock (f_ip (files s f)) s) (\<lambda>s.
            let (r, s) = copyout (p_pagetable (procs s p)) a (stat_bytes st) 24 s in
            if r < 0 then Inr (-1, s) else Inr (0, s)))
          else Inr (-1, s))"

definition dev_of :: "nat \<Rightarrow> 'a kst_scheme \<Rightarrow> devsw_entry option" where
  "dev_of f s = (if sint (f_major (files s f)) < 0 \<or> sint (f_major (files s f)) \<ge> int NDEV then None
     else Some (devsw s (unat (f_major (files s f)))))"

definition fileread :: "('a kst_scheme \<Rightarrow> 'a kst_scheme option) \<Rightarrow> nat \<Rightarrow> addr \<Rightarrow> int \<Rightarrow> 'a kst_scheme
    \<Rightarrow> (int \<times> 'a kst_scheme) res" where
  "fileread env f a n s =
     (if \<not> f_readable (files s f) then Inr (-1, s)
      else case f_type (files s f) of
        FD_PIPE \<Rightarrow> piperead env (f_pipe (files s f)) a n s
      | FD_DEVICE \<Rightarrow>
          (case Option.bind (dev_of f s) dev_read of
             None \<Rightarrow> Inr (-1, s)
           | Some ConsoleRead \<Rightarrow> bnd (consoleread env True a n s) (\<lambda>(r, _, s). Inr (r, s)))
      | FD_INODE \<Rightarrow>
          (case f_ip (files s f) of None \<Rightarrow> Inl OutOfBounds
           | Some ip \<Rightarrow>
               bnd (readi env ip True a (f_off (files s f)) (u32_of_int n) s) (\<lambda>(r, _, s).
               Inr (r, if r > 0 then set_file f (\<lambda>x. x\<lparr>f_off := f_off x + u32_of_int r\<rparr>) s else s)))
      | FD_NONE \<Rightarrow> Inl (Panic ''fileread''))"

text \<open>The loop of \<^verbatim>\<open>filewrite\<close> over an inode: a round that goes on has written a positive number of bytes.\<close>

primrec filewrite_loop :: "('a kst_scheme \<Rightarrow> 'a kst_scheme option) \<Rightarrow> nat \<Rightarrow> nat \<Rightarrow> nat \<Rightarrow> addr \<Rightarrow> int \<Rightarrow> int \<Rightarrow> 'a kst_scheme
    \<Rightarrow> (int \<times> 'a kst_scheme) res" where
  "filewrite_loop env 0 f ip a n i s = Inr (i, s)"
| "filewrite_loop env (Suc k) f ip a n i s =
     (if i < n then
        let n1 = (if n - i > 1024 * 8 then 1024 * 8 else n - i) in
        bnd (writei env ip True (a + u64_of_int i) [] (f_off (files s f)) (u32_of_int n1) s) (\<lambda>(r, s).
        let s = (if r > 0 then set_file f (\<lambda>x. x\<lparr>f_off := f_off x + u32_of_int r\<rparr>) s else s) in
        if r \<noteq> n1 then Inr (i, s) else filewrite_loop env k f ip a n (i + r) s)
      else Inr (i, s))"

definition filewrite :: "('a kst_scheme \<Rightarrow> 'a kst_scheme option) \<Rightarrow> nat \<Rightarrow> addr \<Rightarrow> int \<Rightarrow> 'a kst_scheme
    \<Rightarrow> (int \<times> 'a kst_scheme) res" where
  "filewrite env f a n s =
     (if \<not> f_writable (files s f) then Inr (-1, s)
      else case f_type (files s f) of
        FD_PIPE \<Rightarrow> pipewrite env (f_pipe (files s f)) a n s
      | FD_DEVICE \<Rightarrow>
          (case Option.bind (dev_of f s) dev_write of
             None \<Rightarrow> Inr (-1, s)
           | Some ConsoleWrite \<Rightarrow> consolewrite env True a [] n s)
      | FD_INODE \<Rightarrow>
          (case f_ip (files s f) of None \<Rightarrow> Inl OutOfBounds
           | Some ip \<Rightarrow>
               bnd (filewrite_loop env (nat n) f ip a n 0 s) (\<lambda>(i, s). Inr (if i = n then n else -1, s)))
      | FD_NONE \<Rightarrow> Inl (Panic ''filewrite\<newline>''))"

section \<open>Pipe creation\<close>

definition pipealloc_bad :: "('a kst_scheme \<Rightarrow> 'a kst_scheme option) \<Rightarrow> nat option \<Rightarrow> nat option \<Rightarrow> 'a kst_scheme
    \<Rightarrow> ((nat \<times> nat) option \<times> 'a kst_scheme) res" where
  "pipealloc_bad env f0 f1 s =
     bnd (case f0 of None \<Rightarrow> Inr s | Some f \<Rightarrow> fileclose env f s) (\<lambda>s.
     bnd (case f1 of None \<Rightarrow> Inr s | Some f \<Rightarrow> fileclose env f s) (\<lambda>s. Inr (None, s)))"

text \<open>\<open>None\<close> is the return value -1; otherwise the read end and the write end.\<close>

definition pipealloc :: "('a kst_scheme \<Rightarrow> 'a kst_scheme option) \<Rightarrow> 'a kst_scheme \<Rightarrow> ((nat \<times> nat) option \<times> 'a kst_scheme) res" where
  "pipealloc env s =
     (case filealloc s of (None, s) \<Rightarrow> pipealloc_bad env None None s
      | (Some f0, s) \<Rightarrow>
      (case filealloc s of (None, s) \<Rightarrow> pipealloc_bad env (Some f0) None s
       | (Some f1, s) \<Rightarrow>
       let (pi, s) = kalloc s in
       if pi = 0 then pipealloc_bad env (Some f0) (Some f1) s
       else
         let s = set_pipe pi (\<lambda>x. x\<lparr>pi_readable := 1, pi_writable := 1, pi_rd := 0, pi_wt := 0\<rparr>) s;
             s = initlock (PipeLock pi) ''pipe'' s;
             s = set_file f0 (\<lambda>x. x\<lparr>f_type := FD_PIPE, f_readable := True, f_writable := False, f_pipe := pi\<rparr>) s;
             s = set_file f1 (\<lambda>x. x\<lparr>f_type := FD_PIPE, f_readable := False, f_writable := True, f_pipe := pi\<rparr>) s
         in Inr (Some (f0, f1), s)))"

end
