(* ===== verification/Xv6_Fork.thy ===== *)
theory Xv6_Fork
  imports Xv6_File
begin

text \<open>
  The operations of \<^verbatim>\<open>kernel/proc.c\<close> that work on files: \<^verbatim>\<open>userinit\<close>, \<^verbatim>\<open>fork\<close> and \<^verbatim>\<open>exit\<close>.  The addresses the linker and
  the assembly files give to the kernel are fields of a record, an argument of the operations that use them.
\<close>

record ksyms =
  sym_trampoline :: addr
  sym_tramp_start :: addr
  sym_forkret :: addr
  sym_kernelvec :: addr
  sym_uservec :: addr
  sym_userret :: addr
  sym_usertrap :: addr
  sym_timervec :: addr
  sym_main :: addr
  sym_timer_scratch :: addr
  sym_end :: addr
  sym_etext :: addr

definition initcode :: "uint8 list" where
  "initcode = [
    0x17, 0x05, 0x00, 0x00, 0x13, 0x05, 0x45, 0x02,
    0x97, 0x05, 0x00, 0x00, 0x93, 0x85, 0x35, 0x02,
    0x93, 0x08, 0x70, 0x00, 0x73, 0x00, 0x00, 0x00,
    0x93, 0x08, 0x20, 0x00, 0x73, 0x00, 0x00, 0x00,
    0xef, 0xf0, 0x9f, 0xff, 0x2f, 0x69, 0x6e, 0x69,
    0x74, 0x00, 0x00, 0x24, 0x00, 0x00, 0x00, 0x00,
    0x00, 0x00, 0x00, 0x00]"

definition bytes_of :: "string \<Rightarrow> uint8 list" where
  "bytes_of cs = map of_char cs"

definition userinit :: "ksyms \<Rightarrow> ('a kst_scheme \<Rightarrow> 'a kst_scheme option) \<Rightarrow> 'a kst_scheme \<Rightarrow> 'a kst_scheme res" where
  "userinit sy env s =
     bnd (allocproc (sym_trampoline sy) (sym_forkret sy) s) (\<lambda>(pp, s).
     let s = s\<lparr>initproc := pp\<rparr> in
     case pp of None \<Rightarrow> Inl (Panic ''userinit\<newline>'')
     | Some p \<Rightarrow>
         bnd (uvmfirst (p_pagetable (procs s p)) initcode s) (\<lambda>s.
         let s = set_proc p (p_sz_update (\<lambda>_. PGSIZE)) s;
             s = tf_set p TF_epc 0 s;
             s = tf_set p TF_sp PGSIZE s;
             s = set_proc p (\<lambda>pr. pr\<lparr>p_name := safestrcpy_bytes (p_name pr) (bytes_of ''initcode'') 16\<rparr>) s in
         bnd (namei env (bytes_of ''/'') s) (\<lambda>(ip, s).
         release (ProcLock p) (set_proc p (\<lambda>pr. pr\<lparr>p_cwd := ip, p_status := RUNNABLE\<rparr>) s))))"

primrec fork_files :: "nat list \<Rightarrow> nat \<Rightarrow> nat \<Rightarrow> 'a kst_scheme \<Rightarrow> 'a kst_scheme res" where
  "fork_files [] p np s = Inr s"
| "fork_files (i # is) p np s =
     (case p_ofile (procs s p) i of None \<Rightarrow> fork_files is p np s
      | Some f \<Rightarrow> bnd (filedup f s) (\<lambda>(f, s).
          fork_files is p np (set_proc np (\<lambda>pr. pr\<lparr>p_ofile := (p_ofile pr)(i := Some f)\<rparr>) s)))"

definition fork :: "ksyms \<Rightarrow> 'a kst_scheme \<Rightarrow> (int \<times> 'a kst_scheme) res" where
  "fork sy s =
     (case myproc s of None \<Rightarrow> Inl OutOfBounds
      | Some p \<Rightarrow>
      bnd (allocproc (sym_trampoline sy) (sym_forkret sy) s) (\<lambda>(npp, s).
      case npp of None \<Rightarrow> Inr (-1, s)
      | Some np \<Rightarrow>
      bnd (uvmcopy (p_pagetable (procs s p)) (p_pagetable (procs s np)) (p_sz (procs s p)) s) (\<lambda>(r, s).
      if r < 0 then bnd (freeproc np s) (\<lambda>s. bnd (release (ProcLock np) s) (\<lambda>s. Inr (-1, s)))
      else
        let s = set_proc np (p_sz_update (\<lambda>_. p_sz (procs s p))) s;
            s = s\<lparr>mem := store_bytes (mem s) (p_trapframe (procs s np)) (load_bytes (mem s) (p_trapframe (procs s p)) 288)\<rparr>;
            s = tf_set np TF_a0 0 s in
        bnd (fork_files [0..<NOFILE] p np s) (\<lambda>s.
        case p_cwd (procs s p) of None \<Rightarrow> Inl OutOfBounds
        | Some c \<Rightarrow>
          let (cwd, s) = idup c s;
              s = set_proc np (\<lambda>pr. pr\<lparr>p_cwd := Some cwd, p_name := safestrcpy_bytes (p_name pr) (p_name (procs s p)) 16\<rparr>) s;
              pid = p_pid (procs s np) in
          bnd (release (ProcLock np) s) (\<lambda>s.
          bnd (acquire WaitLock s) (\<lambda>s.
          bnd (release WaitLock (set_proc np (p_parent_update (\<lambda>_. Some p)) s)) (\<lambda>s.
          bnd (acquire (ProcLock np) s) (\<lambda>s.
          bnd (release (ProcLock np) (set_proc np (p_status_update (\<lambda>_. RUNNABLE)) s)) (\<lambda>s.
          Inr (pid, s))))))))))"

primrec exit_files :: "('a kst_scheme \<Rightarrow> 'a kst_scheme option) \<Rightarrow> nat list \<Rightarrow> nat \<Rightarrow> 'a kst_scheme \<Rightarrow> 'a kst_scheme res" where
  "exit_files env [] p s = Inr s"
| "exit_files env (fd # fds) p s =
     (case p_ofile (procs s p) fd of None \<Rightarrow> exit_files env fds p s
      | Some f \<Rightarrow> bnd (fileclose env f s) (\<lambda>s.
          exit_files env fds p (set_proc p (\<lambda>pr. pr\<lparr>p_ofile := (p_ofile pr)(fd := None)\<rparr>) s)))"

text \<open>\<^verbatim>\<open>exit\<close> up to its call of \<^verbatim>\<open>sched\<close>, from which it does not return.\<close>

definition exit_begin :: "('a kst_scheme \<Rightarrow> 'a kst_scheme option) \<Rightarrow> int \<Rightarrow> 'a kst_scheme \<Rightarrow> 'a kst_scheme res" where
  "exit_begin env xstatus s =
     (case myproc s of None \<Rightarrow> Inl OutOfBounds
      | Some p \<Rightarrow>
      if initproc s = Some p then Inl (Panic ''init exiting'')
      else bnd (exit_files env [0..<NOFILE] p s) (\<lambda>s.
        case p_cwd (procs s p) of None \<Rightarrow> Inl OutOfBounds
        | Some c \<Rightarrow> bnd (iput env c s) (\<lambda>s.
          bnd (acquire WaitLock (set_proc p (p_cwd_update (\<lambda>_. None)) s)) (\<lambda>s.
          bnd (reparent p s) (\<lambda>s.
          bnd (wakeup (proc_chan (p_parent (procs s p))) s) (\<lambda>s.
          bnd (acquire (ProcLock p) s) (\<lambda>s.
          release WaitLock (set_proc p (\<lambda>pr. pr\<lparr>p_status := ZOMBIE, p_xstatus := xstatus\<rparr>) s))))))))"

definition exit :: "('a kst_scheme \<Rightarrow> 'a kst_scheme option) \<Rightarrow> int \<Rightarrow> 'a kst_scheme \<Rightarrow> 'b res" where
  "exit env xstatus s =
     bnd (exit_begin env xstatus s) (\<lambda>s. bnd (sched env s) (\<lambda>_. Inl (Panic ''zombie exit'')))"

end
