(* ===== verification/Xv6_Exec.thy ===== *)
theory Xv6_Exec
  imports Xv6_Fork
begin

text \<open>
  \<^verbatim>\<open>kernel/exec.c\<close>: replacing the memory of a process by a program read from the file system.  The argument strings are in
  kernel memory, at the addresses \<open>argv\<close>.
\<close>

abbreviation (input) ELF_MAGIC :: uint32 where "ELF_MAGIC \<equiv> 0x464C457F"
abbreviation (input) ELF_PROG_LOAD :: uint32 where "ELF_PROG_LOAD \<equiv> 1"

record elfhdr =
  elf_magic :: uint32
  elf_entry :: uint64
  elf_phoff :: uint64
  elf_phnum :: uint16

record proghdr =
  ph_type :: uint32
  ph_flags :: uint32
  ph_off :: uint64
  ph_vaddr :: uint64
  ph_filesz :: uint64
  ph_memsz :: uint64

definition decode_elfhdr :: "uint8 list \<Rightarrow> elfhdr" where
  "decode_elfhdr bs = \<lparr>elf_magic = field 0 4 bs, elf_entry = field 24 8 bs, elf_phoff = field 32 8 bs, elf_phnum = field 56 2 bs\<rparr>"

definition decode_proghdr :: "uint8 list \<Rightarrow> proghdr" where
  "decode_proghdr bs = \<lparr>ph_type = field 0 4 bs, ph_flags = field 4 4 bs, ph_off = field 8 8 bs, ph_vaddr = field 16 8 bs,
     ph_filesz = field 32 8 bs, ph_memsz = field 40 8 bs\<rparr>"

definition flags2perm :: "uint32 \<Rightarrow> uint64" where
  "flags2perm flags =
     (let perm = (if flags AND 1 \<noteq> 0 then PTE_X else 0) in if flags AND 2 \<noteq> 0 then perm OR PTE_W else perm)"

partial_function (option) loadseg_loop :: "('a fst_state_scheme \<Rightarrow> 'a fst_state_scheme option) \<Rightarrow> addr \<Rightarrow> uint64 \<Rightarrow> nat
    \<Rightarrow> uint32 \<Rightarrow> uint32 \<Rightarrow> uint32 \<Rightarrow> 'a fst_state_scheme \<Rightarrow> (int \<times> 'a fst_state_scheme) res option" where
  "loadseg_loop env pagetable va ip offset sz i s =
     (if i < sz then
        let pa = walkaddr pagetable (va + ucast i) s;
            n = (if sz - i < 4096 then sz - i else 4096) in
        if pa = 0 then Some (Inl (Panic ''loadseg: address should exist''))
        else (case readi env ip False pa (offset + i) n s of Inl f \<Rightarrow> Some (Inl f)
          | Inr (r, bs, s) \<Rightarrow>
              let s = s\<lparr>mem := store_bytes (mem s) pa bs\<rparr> in
              if u32_of_int r \<noteq> n then Some (Inr (-1, s))
              else loadseg_loop env pagetable va ip offset sz (i + 4096) s)
      else Some (Inr (0, s)))"

definition loadseg :: "('a fst_state_scheme \<Rightarrow> 'a fst_state_scheme option) \<Rightarrow> addr \<Rightarrow> uint64 \<Rightarrow> nat \<Rightarrow> uint32 \<Rightarrow> uint32
    \<Rightarrow> 'a fst_state_scheme \<Rightarrow> (int \<times> 'a fst_state_scheme) res" where
  "loadseg env pagetable va ip offset sz s = unhang (loadseg_loop env pagetable va ip offset sz 0 s)"

text \<open>The loop over the program headers; the flag is \<open>False\<close> when the code jumps to \<^verbatim>\<open>bad\<close>.\<close>

primrec exec_segments :: "('a fst_state_scheme \<Rightarrow> 'a fst_state_scheme option) \<Rightarrow> nat \<Rightarrow> nat \<Rightarrow> addr \<Rightarrow> uint64 \<Rightarrow> int \<Rightarrow> 'a fst_state_scheme
    \<Rightarrow> (bool \<times> uint64 \<times> 'a fst_state_scheme) res" where
  "exec_segments env 0 ip pagetable sz off s = Inr (True, sz, s)"
| "exec_segments env (Suc k) ip pagetable sz off s =
     bnd (readi env ip False 0 (u32_of_int off) 56 s) (\<lambda>(r, bs, s).
     let ph = decode_proghdr bs in
     if r \<noteq> 56 then Inr (False, sz, s)
     else if ph_type ph \<noteq> ELF_PROG_LOAD then exec_segments env k ip pagetable sz (off + 56) s
     else if ph_memsz ph < ph_filesz ph then Inr (False, sz, s)
     else if ph_vaddr ph + ph_memsz ph < ph_vaddr ph then Inr (False, sz, s)
     else if ph_vaddr ph mod PGSIZE \<noteq> 0 then Inr (False, sz, s)
     else bnd (uvmalloc pagetable sz (ph_vaddr ph + ph_memsz ph) (flags2perm (ph_flags ph)) s) (\<lambda>(sz1, s).
       if sz1 = 0 then Inr (False, sz, s)
       else bnd (loadseg env pagetable (ph_vaddr ph) ip (ucast (ph_off ph)) (ucast (ph_filesz ph)) s) (\<lambda>(r, s).
         if r < 0 then Inr (False, sz1, s) else exec_segments env k ip pagetable sz1 (off + 56) s)))"

text \<open>The loop that pushes the argument strings; \<open>None\<close> is a jump to \<^verbatim>\<open>bad\<close>.\<close>

primrec exec_args :: "addr list \<Rightarrow> addr \<Rightarrow> uint64 \<Rightarrow> uint64 list \<Rightarrow> uint64 \<Rightarrow> 'a phys_scheme
    \<Rightarrow> ((uint64 list \<times> uint64) option \<times> 'a phys_scheme) res" where
  "exec_args [] pagetable stackbase ustack sp s = Inr (Some (ustack, sp), s)"
| "exec_args (a # as) pagetable stackbase ustack sp s =
     (if length ustack \<ge> MAXARG then Inr (None, s)
      else case strlen (mem s) a of None \<Rightarrow> Inl Hang
        | Some len \<Rightarrow>
            let sp = sp - of_nat (len + 1);
                sp = sp - sp mod 16 in
            if sp < stackbase then Inr (None, s)
            else let (r, s) = copyout pagetable sp (load_bytes (mem s) a (len + 1)) (of_nat (len + 1)) s in
              if r < 0 then Inr (None, s) else exec_args as pagetable stackbase (ustack @ [sp]) sp s)"

definition exec_bad :: "('a fst_state_scheme \<Rightarrow> 'a fst_state_scheme option) \<Rightarrow> addr \<Rightarrow> uint64 \<Rightarrow> nat option \<Rightarrow> 'a fst_state_scheme
    \<Rightarrow> (int \<times> 'a fst_state_scheme) res" where
  "exec_bad env pagetable sz ip s =
     bnd (if pagetable \<noteq> 0 then proc_freepagetable pagetable sz s else Inr s) (\<lambda>s.
     bnd (case ip of None \<Rightarrow> Inr s | Some i \<Rightarrow> iunlockput env i s) (\<lambda>s. Inr (-1, s)))"

definition last_elem :: "uint8 list \<Rightarrow> uint8 list" where
  "last_elem path = rev (takeWhile (\<lambda>c. c \<noteq> SLASH) (rev path))"

text \<open>\<^verbatim>\<open>exec\<close> once the program is loaded: the stack, the arguments and the switch to the new memory.\<close>

definition exec_commit :: "('a fst_state_scheme \<Rightarrow> 'a fst_state_scheme option) \<Rightarrow> nat \<Rightarrow> uint8 list \<Rightarrow> addr list \<Rightarrow> elfhdr \<Rightarrow> addr
    \<Rightarrow> uint64 \<Rightarrow> 'a fst_state_scheme \<Rightarrow> (int \<times> 'a fst_state_scheme) res" where
  "exec_commit env p path argv elf pagetable sz s =
     (let oldsz = p_sz (procs s p); sz = PGROUNDUP sz in
      bnd (uvmalloc pagetable sz (sz + 2 * PGSIZE) PTE_W s) (\<lambda>(sz1, s).
      if sz1 = 0 then exec_bad env pagetable sz None s
      else let sz = sz1 in
        bnd (uvmclear pagetable (sz - 2 * PGSIZE) s) (\<lambda>s.
        let stackbase = sz - PGSIZE in
        bnd (exec_args argv pagetable stackbase [] sz s) (\<lambda>(pushed, s).
        case pushed of None \<Rightarrow> exec_bad env pagetable sz None s
        | Some (ustack, sp) \<Rightarrow>
            if length ustack \<ge> MAXARG then Inl OutOfBounds
            else
              let argc = length ustack;
                  sp = sp - of_nat (argc + 1) * 8;
                  sp = sp - sp mod 16 in
              if sp < stackbase then exec_bad env pagetable sz None s
              else let (r, s) = copyout pagetable sp (concat (map (le_bytes 8) (ustack @ [0]))) (of_nat (argc + 1) * 8) s in
                if r < 0 then exec_bad env pagetable sz None s
                else
                  let s = tf_set p TF_a1 sp s;
                      s = set_proc p (\<lambda>pr. pr\<lparr>p_name := safestrcpy_bytes (p_name pr) (last_elem path) 16\<rparr>) s;
                      oldpagetable = p_pagetable (procs s p);
                      s = set_proc p (\<lambda>pr. pr\<lparr>p_pagetable := pagetable, p_sz := sz\<rparr>) s;
                      s = tf_set p TF_epc (elf_entry elf) s;
                      s = tf_set p TF_sp sp s in
                  bnd (proc_freepagetable oldpagetable oldsz s) (\<lambda>s. Inr (int argc, s))))))"

definition exec :: "ksyms \<Rightarrow> ('a fst_state_scheme \<Rightarrow> 'a fst_state_scheme option) \<Rightarrow> uint8 list \<Rightarrow> addr list \<Rightarrow> 'a fst_state_scheme
    \<Rightarrow> (int \<times> 'a fst_state_scheme) res" where
  "exec sy env path argv s =
     (case myproc s of None \<Rightarrow> Inl OutOfBounds
      | Some p \<Rightarrow>
      bnd (namei env path s) (\<lambda>(ipp, s).
      case ipp of None \<Rightarrow> Inr (-1, s)
      | Some ip \<Rightarrow>
      bnd (ilock env (Some ip) s) (\<lambda>s.
      bnd (readi env ip False 0 0 64 s) (\<lambda>(r, bs, s).
      let elf = decode_elfhdr bs in
      if r \<noteq> 64 then exec_bad env 0 0 (Some ip) s
      else if elf_magic elf \<noteq> ELF_MAGIC then exec_bad env 0 0 (Some ip) s
      else bnd (proc_pagetable (sym_trampoline sy) p s) (\<lambda>(pagetable, s).
        if pagetable = 0 then exec_bad env 0 0 (Some ip) s
        else bnd (exec_segments env (unat (elf_phnum elf)) ip pagetable 0 (int_of_u64 (elf_phoff elf)) s) (\<lambda>(good, sz, s).
          if \<not> good then exec_bad env pagetable sz (Some ip) s
          else bnd (iunlockput env ip s) (exec_commit env p path argv elf pagetable sz)))))))"

end
