(* ===== verification/Xv6_Syscall.thy ===== *)
theory Xv6_Syscall
  imports Xv6_Exec
begin

text \<open>
  \<^verbatim>\<open>kernel/syscall.c\<close>: fetching arguments from the trapframe and from user memory, the system calls, and their
  dispatch.  A system call returns a \<^verbatim>\<open>uint64\<close>; an \<^verbatim>\<open>int\<close> result is sign-extended.  The local path and name buffers
  are lists of bytes.
\<close>

section \<open>Arguments\<close>

definition fetchaddr :: "uint64 \<Rightarrow> 'a pst_scheme \<Rightarrow> (int \<times> uint64) res" where
  "fetchaddr a s =
     (case myproc s of None \<Rightarrow> Inl OutOfBounds
      | Some p \<Rightarrow>
          if a \<ge> p_sz (procs s p) \<or> a + 8 \<ge> p_sz (procs s p) then Inr (-1, 0)
          else let (r, bs) = copyin (p_pagetable (procs s p)) a 8 s in
            if r \<noteq> 0 then Inr (-1, 0) else Inr (0, le_word bs))"

text \<open>\<open>None\<close> is the return value -1; otherwise the string, without its NUL, whose length the code returns.\<close>

definition fetchstr :: "uint64 \<Rightarrow> uint64 \<Rightarrow> 'a pst_scheme \<Rightarrow> uint8 list option res" where
  "fetchstr a maxlen s =
     (case myproc s of None \<Rightarrow> Inl OutOfBounds
      | Some p \<Rightarrow>
          let (r, bs) = copyinstr (p_pagetable (procs s p)) a maxlen s in
          if r < 0 then Inr None else Inr (Some (takeWhile (\<lambda>c. c \<noteq> 0) bs)))"

definition argraw :: "nat \<Rightarrow> 'a pst_scheme \<Rightarrow> uint64 res" where
  "argraw n s =
     (case myproc s of None \<Rightarrow> Inl OutOfBounds
      | Some p \<Rightarrow> if n < 6 then Inr (tf_get p (TF_a0 + 8 * of_nat n) s) else Inl (Panic ''argraw''))"

definition argint :: "nat \<Rightarrow> 'a pst_scheme \<Rightarrow> int res" where
  "argint n s = bnd (argraw n s) (\<lambda>w. Inr (int_of_u64 w))"

definition argaddr :: "nat \<Rightarrow> 'a pst_scheme \<Rightarrow> uint64 res" where
  "argaddr n s = argraw n s"

definition argstr :: "nat \<Rightarrow> nat \<Rightarrow> 'a pst_scheme \<Rightarrow> uint8 list option res" where
  "argstr n maxlen s = bnd (argaddr n s) (\<lambda>a. fetchstr a (of_nat maxlen) s)"

definition argfd :: "nat \<Rightarrow> 'a pst_scheme \<Rightarrow> (nat \<times> nat) option res" where
  "argfd n s =
     bnd (argint n s) (\<lambda>fd.
     case myproc s of None \<Rightarrow> Inl OutOfBounds
     | Some p \<Rightarrow>
         if fd < 0 \<or> fd \<ge> int NOFILE then Inr None
         else (case p_ofile (procs s p) (nat fd) of None \<Rightarrow> Inr None | Some f \<Rightarrow> Inr (Some (nat fd, f))))"

primrec fdalloc_scan :: "nat list \<Rightarrow> nat \<Rightarrow> nat \<Rightarrow> 'a pst_scheme \<Rightarrow> nat option \<times> 'a pst_scheme" where
  "fdalloc_scan [] p f s = (None, s)"
| "fdalloc_scan (fd # fds) p f s =
     (if p_ofile (procs s p) fd = None
      then (Some fd, set_proc p (\<lambda>pr. pr\<lparr>p_ofile := (p_ofile pr)(fd := Some f)\<rparr>) s)
      else fdalloc_scan fds p f s)"

definition fdalloc :: "nat \<Rightarrow> 'a pst_scheme \<Rightarrow> (nat option \<times> 'a pst_scheme) res" where
  "fdalloc f s = (case myproc s of None \<Rightarrow> Inl OutOfBounds | Some p \<Rightarrow> Inr (fdalloc_scan [0..<NOFILE] p f s))"

section \<open>Processes\<close>

definition sys_exit :: "('a kst_scheme \<Rightarrow> 'a kst_scheme option) \<Rightarrow> 'a kst_scheme \<Rightarrow> (uint64 \<times> 'a kst_scheme) res" where
  "sys_exit env s = bnd (argint 0 s) (\<lambda>x. exit env x s)"

definition sys_sbrk :: "'a kst_scheme \<Rightarrow> (uint64 \<times> 'a kst_scheme) res" where
  "sys_sbrk s =
     (case myproc s of None \<Rightarrow> Inl OutOfBounds
      | Some p \<Rightarrow>
          let oldsz = int_of_u64 (p_sz (procs s p)) in
          bnd (argint 0 s) (\<lambda>n. bnd (growproc n s) (\<lambda>(r, s). Inr (if r \<noteq> 0 then -1 else u64_of_int oldsz, s))))"

partial_function (option) sys_sleep_loop :: "('a kst_scheme \<Rightarrow> 'a kst_scheme option) \<Rightarrow> uint32 \<Rightarrow> int \<Rightarrow> 'a kst_scheme
    \<Rightarrow> (uint64 \<times> 'a kst_scheme) res option" where
  "sys_sleep_loop env ticks0 n s =
     (if ticks s - ticks0 < u32_of_int n then
        case myproc s of None \<Rightarrow> Some (Inl OutOfBounds)
        | Some p \<Rightarrow>
            if killed p s \<noteq> 0 then Some (Inr (-1, s))
            else (case sleep env ChanTicks None s of Inl f \<Rightarrow> Some (Inl f) | Inr s \<Rightarrow> sys_sleep_loop env ticks0 n s)
      else Some (Inr (0, s)))"

definition sys_sleep :: "('a kst_scheme \<Rightarrow> 'a kst_scheme option) \<Rightarrow> 'a kst_scheme \<Rightarrow> (uint64 \<times> 'a kst_scheme) res" where
  "sys_sleep env s = bnd (argint 0 s) (\<lambda>n. unhang (sys_sleep_loop env (ticks s) n s))"

definition sys_fork :: "ksyms \<Rightarrow> 'a kst_scheme \<Rightarrow> (uint64 \<times> 'a kst_scheme) res" where
  "sys_fork sy s = bnd (fork sy s) (\<lambda>(r, s). Inr (u64_of_int r, s))"

definition sys_wait :: "('a kst_scheme \<Rightarrow> 'a kst_scheme option) \<Rightarrow> 'a kst_scheme \<Rightarrow> (uint64 \<times> 'a kst_scheme) res" where
  "sys_wait env s = bnd (argaddr 0 s) (\<lambda>p. bnd (wait env p s) (\<lambda>(r, s). Inr (u64_of_int r, s)))"

text \<open>The argument vector of \<^verbatim>\<open>sys_exec\<close>: the flag is \<open>False\<close> when the code jumps to \<^verbatim>\<open>bad\<close>.\<close>

primrec sys_exec_args :: "nat \<Rightarrow> uint64 \<Rightarrow> addr list \<Rightarrow> 'a pst_scheme \<Rightarrow> (bool \<times> addr list \<times> 'a pst_scheme) res" where
  "sys_exec_args 0 uargv argv s = Inr (False, argv, s)"
| "sys_exec_args (Suc k) uargv argv s =
     bnd (fetchaddr (uargv + 8 * of_nat (length argv)) s) (\<lambda>(r, uarg).
     if r < 0 then Inr (False, argv, s)
     else if uarg = 0 then Inr (True, argv, s)
     else let (pg, s) = kalloc s in
       if pg = 0 then Inr (False, argv, s)
       else case myproc s of None \<Rightarrow> Inl OutOfBounds
       | Some p \<Rightarrow>
           let (r, bs) = copyinstr (p_pagetable (procs s p)) uarg PGSIZE s;
               s = s\<lparr>mem := store_bytes (mem s) pg bs\<rparr> in
           if r < 0 then Inr (False, argv @ [pg], s)
           else sys_exec_args k uargv (argv @ [pg]) s)"

primrec kfree_all :: "addr list \<Rightarrow> 'a phys_scheme \<Rightarrow> 'a phys_scheme res" where
  "kfree_all [] s = Inr s"
| "kfree_all (a # as) s = bnd (kfree a s) (kfree_all as)"

definition sys_exec :: "ksyms \<Rightarrow> ('a kst_scheme \<Rightarrow> 'a kst_scheme option) \<Rightarrow> 'a kst_scheme \<Rightarrow> (uint64 \<times> 'a kst_scheme) res" where
  "sys_exec sy env s =
     bnd (argaddr 1 s) (\<lambda>uargv.
     bnd (argstr 0 MAXPATH s) (\<lambda>path.
     case path of None \<Rightarrow> Inr (-1, s)
     | Some path \<Rightarrow>
         bnd (sys_exec_args MAXARG uargv [] s) (\<lambda>(good, argv, s).
         if good then
           bnd (exec sy env path argv s) (\<lambda>(ret, s). bnd (kfree_all argv s) (\<lambda>s. Inr (u64_of_int ret, s)))
         else bnd (kfree_all argv s) (\<lambda>s. Inr (-1, s)))))"

definition sys_kill :: "'a kst_scheme \<Rightarrow> (uint64 \<times> 'a kst_scheme) res" where
  "sys_kill s = Inr (-1, s)"

definition sys_getpid :: "'a kst_scheme \<Rightarrow> (uint64 \<times> 'a kst_scheme) res" where
  "sys_getpid s = Inr (-1, s)"

definition sys_uptime :: "'a kst_scheme \<Rightarrow> (uint64 \<times> 'a kst_scheme) res" where
  "sys_uptime s = Inr (-1, s)"

section \<open>Files\<close>

definition sys_dup :: "'a kst_scheme \<Rightarrow> (uint64 \<times> 'a kst_scheme) res" where
  "sys_dup s =
     bnd (argfd 0 s) (\<lambda>x. case x of None \<Rightarrow> Inr (-1, s)
     | Some (_, f) \<Rightarrow> bnd (fdalloc f s) (\<lambda>(fd, s). case fd of None \<Rightarrow> Inr (-1, s)
       | Some fd \<Rightarrow> bnd (filedup f s) (\<lambda>(_, s). Inr (of_nat fd, s))))"

definition sys_read :: "('a kst_scheme \<Rightarrow> 'a kst_scheme option) \<Rightarrow> 'a kst_scheme \<Rightarrow> (uint64 \<times> 'a kst_scheme) res" where
  "sys_read env s =
     bnd (argaddr 1 s) (\<lambda>p. bnd (argint 2 s) (\<lambda>n. bnd (argfd 0 s) (\<lambda>x.
     case x of None \<Rightarrow> Inr (-1, s)
     | Some (_, f) \<Rightarrow> bnd (fileread env f p n s) (\<lambda>(r, s). Inr (u64_of_int r, s)))))"

definition sys_write :: "('a kst_scheme \<Rightarrow> 'a kst_scheme option) \<Rightarrow> 'a kst_scheme \<Rightarrow> (uint64 \<times> 'a kst_scheme) res" where
  "sys_write env s =
     bnd (argaddr 1 s) (\<lambda>p. bnd (argint 2 s) (\<lambda>n. bnd (argfd 0 s) (\<lambda>x.
     case x of None \<Rightarrow> Inr (-1, s)
     | Some (_, f) \<Rightarrow> bnd (filewrite env f p n s) (\<lambda>(r, s). Inr (u64_of_int r, s)))))"

definition sys_close :: "('a kst_scheme \<Rightarrow> 'a kst_scheme option) \<Rightarrow> 'a kst_scheme \<Rightarrow> (uint64 \<times> 'a kst_scheme) res" where
  "sys_close env s =
     bnd (argfd 0 s) (\<lambda>x. case x of None \<Rightarrow> Inr (-1, s)
     | Some (fd, f) \<Rightarrow> (case myproc s of None \<Rightarrow> Inl OutOfBounds
       | Some p \<Rightarrow>
           bnd (fileclose env f (set_proc p (\<lambda>pr. pr\<lparr>p_ofile := (p_ofile pr)(fd := None)\<rparr>) s)) (\<lambda>s. Inr (0, s))))"

definition sys_fstat :: "('a kst_scheme \<Rightarrow> 'a kst_scheme option) \<Rightarrow> 'a kst_scheme \<Rightarrow> (uint64 \<times> 'a kst_scheme) res" where
  "sys_fstat env s =
     bnd (argaddr 1 s) (\<lambda>st. bnd (argfd 0 s) (\<lambda>x.
     case x of None \<Rightarrow> Inr (-1, s)
     | Some (_, f) \<Rightarrow> bnd (filestat env f st s) (\<lambda>(r, s). Inr (u64_of_int r, s))))"

definition sys_link_bad :: "('a kst_scheme \<Rightarrow> 'a kst_scheme option) \<Rightarrow> nat \<Rightarrow> 'a kst_scheme \<Rightarrow> (uint64 \<times> 'a kst_scheme) res" where
  "sys_link_bad env ip s =
     bnd (ilock env (Some ip) s) (\<lambda>s.
     bnd (iupdate env ip (set_inode ip (\<lambda>i. i\<lparr>i_nlink := i_nlink i - 1\<rparr>) s)) (\<lambda>s.
     bnd (iunlockput env ip s) (\<lambda>s. Inr (-1, s))))"

definition sys_link :: "('a kst_scheme \<Rightarrow> 'a kst_scheme option) \<Rightarrow> 'a kst_scheme \<Rightarrow> (uint64 \<times> 'a kst_scheme) res" where
  "sys_link env s =
     bnd (argstr 0 MAXPATH s) (\<lambda>old. case old of None \<Rightarrow> Inr (-1, s) | Some old \<Rightarrow>
     bnd (argstr 1 MAXPATH s) (\<lambda>new. case new of None \<Rightarrow> Inr (-1, s) | Some new \<Rightarrow>
     bnd (namei env old s) (\<lambda>(ipp, s). case ipp of None \<Rightarrow> Inr (-1, s) | Some ip \<Rightarrow>
     bnd (ilock env (Some ip) s) (\<lambda>s.
     if i_type (inodes s ip) = T_DIR then bnd (iunlockput env ip s) (\<lambda>s. Inr (-1, s))
     else
       bnd (iupdate env ip (set_inode ip (\<lambda>i. i\<lparr>i_nlink := i_nlink i + 1\<rparr>) s)) (\<lambda>s.
       bnd (iunlock (Some ip) s) (\<lambda>s.
       bnd (nameiparent env new s) (\<lambda>(dpp, name, s). case dpp of None \<Rightarrow> sys_link_bad env ip s | Some dp \<Rightarrow>
       bnd (ilock env (Some dp) s) (\<lambda>s.
       bnd (if i_dev (inodes s dp) \<noteq> i_dev (inodes s ip) then Inr (-1, s) else dirlink env dp name (i_inum (inodes s ip)) s)
         (\<lambda>(r, s).
       if r < 0 then bnd (iunlockput env dp s) (sys_link_bad env ip)
       else bnd (iunlockput env dp s) (\<lambda>s. bnd (iput env ip s) (\<lambda>s. Inr (0, s))))))))))))"

primrec isdirempty_loop :: "('a kst_scheme \<Rightarrow> 'a kst_scheme option) \<Rightarrow> nat \<Rightarrow> nat \<Rightarrow> uint32 \<Rightarrow> 'a kst_scheme
    \<Rightarrow> (bool \<times> 'a kst_scheme) res" where
  "isdirempty_loop env 0 dp off s = Inr (True, s)"
| "isdirempty_loop env (Suc k) dp off s =
     (if off < i_size (inodes s dp) then
        bnd (readi env dp False 0 off 16 s) (\<lambda>(r, de, s).
        if r \<noteq> 16 then Inl (Panic ''isdirempty: readi'')
        else if de_inum de \<noteq> 0 then Inr (False, s)
        else isdirempty_loop env k dp (off + 16) s)
      else Inr (True, s))"

definition isdirempty :: "('a kst_scheme \<Rightarrow> 'a kst_scheme option) \<Rightarrow> nat \<Rightarrow> 'a kst_scheme \<Rightarrow> (bool \<times> 'a kst_scheme) res" where
  "isdirempty env dp s = isdirempty_loop env (Suc (unat (i_size (inodes s dp)) div 16)) dp 32 s"

definition sys_unlink_bad :: "('a kst_scheme \<Rightarrow> 'a kst_scheme option) \<Rightarrow> nat \<Rightarrow> 'a kst_scheme \<Rightarrow> (uint64 \<times> 'a kst_scheme) res" where
  "sys_unlink_bad env dp s = bnd (iunlockput env dp s) (\<lambda>s. Inr (-1, s))"

definition sys_unlink :: "('a kst_scheme \<Rightarrow> 'a kst_scheme option) \<Rightarrow> 'a kst_scheme \<Rightarrow> (uint64 \<times> 'a kst_scheme) res" where
  "sys_unlink env s =
     bnd (argstr 0 MAXPATH s) (\<lambda>path. case path of None \<Rightarrow> Inr (-1, s) | Some path \<Rightarrow>
     bnd (nameiparent env path s) (\<lambda>(dpp, name, s). case dpp of None \<Rightarrow> Inr (-1, s) | Some dp \<Rightarrow>
     bnd (ilock env (Some dp) s) (\<lambda>s.
     if namecmp name (bytes_of ''.'') = 0 \<or> namecmp name (bytes_of ''..'') = 0 then sys_unlink_bad env dp s
     else bnd (dirlookup env dp name s) (\<lambda>(found, s). case found of None \<Rightarrow> sys_unlink_bad env dp s
       | Some (ip, off) \<Rightarrow>
       bnd (ilock env (Some ip) s) (\<lambda>s.
       if sint (i_nlink (inodes s ip)) < 1 then Inl (Panic ''unlink: nlink < 1'')
       else
         bnd (if i_type (inodes s ip) = T_DIR then isdirempty env ip s else Inr (True, s)) (\<lambda>(good, s).
         if \<not> good then bnd (iunlockput env ip s) (sys_unlink_bad env dp)
         else
           bnd (writei env dp False 0 (replicate 16 0) off 16 s) (\<lambda>(r, s).
           if r \<noteq> 16 then Inl (Panic ''unlink: writei'')
           else
             bnd (if i_type (inodes s ip) = T_DIR
                  then iupdate env dp (set_inode dp (\<lambda>i. i\<lparr>i_nlink := i_nlink i - 1\<rparr>) s) else Inr s) (\<lambda>s.
             bnd (iunlockput env dp s) (\<lambda>s.
             bnd (iupdate env ip (set_inode ip (\<lambda>i. i\<lparr>i_nlink := i_nlink i - 1\<rparr>) s)) (\<lambda>s.
             bnd (iunlockput env ip s) (\<lambda>s. Inr (0, s))))))))))))"

definition create_fail :: "('a kst_scheme \<Rightarrow> 'a kst_scheme option) \<Rightarrow> nat \<Rightarrow> nat \<Rightarrow> 'a kst_scheme \<Rightarrow> (nat option \<times> 'a kst_scheme) res" where
  "create_fail env ip dp s =
     bnd (iupdate env ip (set_inode ip (i_nlink_update (\<lambda>_. 0)) s)) (\<lambda>s.
     bnd (iunlockput env ip s) (\<lambda>s. bnd (iunlockput env dp s) (\<lambda>s. Inr (None, s))))"

definition create :: "('a kst_scheme \<Rightarrow> 'a kst_scheme option) \<Rightarrow> uint8 list \<Rightarrow> uint16 \<Rightarrow> uint16 \<Rightarrow> uint16 \<Rightarrow> 'a kst_scheme
    \<Rightarrow> (nat option \<times> 'a kst_scheme) res" where
  "create env path type major minor s =
     bnd (nameiparent env path s) (\<lambda>(dpp, name, s). case dpp of None \<Rightarrow> Inr (None, s) | Some dp \<Rightarrow>
     bnd (ilock env (Some dp) s) (\<lambda>s.
     bnd (dirlookup env dp name s) (\<lambda>(found, s).
     case found of Some (ip, _) \<Rightarrow>
       bnd (iunlockput env dp s) (\<lambda>s.
       bnd (ilock env (Some ip) s) (\<lambda>s.
       if type = T_FILE \<and> (i_type (inodes s ip) = T_FILE \<or> i_type (inodes s ip) = T_DEVICE) then Inr (Some ip, s)
       else bnd (iunlockput env ip s) (\<lambda>s. Inr (None, s))))
     | None \<Rightarrow>
       bnd (ialloc env (i_dev (inodes s dp)) type s) (\<lambda>(ipp, s).
       case ipp of None \<Rightarrow> bnd (iunlockput env dp s) (\<lambda>s. Inr (None, s))
       | Some ip \<Rightarrow>
         bnd (ilock env (Some ip) s) (\<lambda>s.
         bnd (iupdate env ip (set_inode ip (\<lambda>i. i\<lparr>i_major := major, i_minor := minor, i_nlink := 1\<rparr>) s)) (\<lambda>s.
         bnd (if type = T_DIR then
                bnd (dirlink env ip (bytes_of ''.'') (i_inum (inodes s ip)) s) (\<lambda>(r, s).
                if r < 0 then Inr (False, s)
                else bnd (dirlink env ip (bytes_of ''..'') (i_inum (inodes s dp)) s) (\<lambda>(r, s). Inr (\<not> r < 0, s)))
              else Inr (True, s)) (\<lambda>(good, s).
         if \<not> good then create_fail env ip dp s
         else bnd (dirlink env dp name (i_inum (inodes s ip)) s) (\<lambda>(r, s).
           if r < 0 then create_fail env ip dp s
           else
             bnd (if type = T_DIR
                  then iupdate env dp (set_inode dp (\<lambda>i. i\<lparr>i_nlink := i_nlink i + 1\<rparr>) s) else Inr s) (\<lambda>s.
             bnd (iunlockput env dp s) (\<lambda>s. Inr (Some ip, s)))))))))))"

abbreviation (input) O_RDONLY :: int where "O_RDONLY \<equiv> 0"
abbreviation (input) O_WRONLY :: uint32 where "O_WRONLY \<equiv> 1"
abbreviation (input) O_RDWR :: uint32 where "O_RDWR \<equiv> 2"
abbreviation (input) O_CREATE :: uint32 where "O_CREATE \<equiv> 0x200"
abbreviation (input) O_TRUNC :: uint32 where "O_TRUNC \<equiv> 0x400"

text \<open>\<^verbatim>\<open>sys_open\<close> once the inode is found and locked.\<close>

definition open_inode :: "('a kst_scheme \<Rightarrow> 'a kst_scheme option) \<Rightarrow> nat \<Rightarrow> int \<Rightarrow> 'a kst_scheme \<Rightarrow> (uint64 \<times> 'a kst_scheme) res" where
  "open_inode env ip omode s =
     (let m = u32_of_int omode in
      if i_type (inodes s ip) = T_DEVICE \<and> (sint (i_major (inodes s ip)) < 0 \<or> sint (i_major (inodes s ip)) \<ge> int NDEV)
      then bnd (iunlockput env ip s) (\<lambda>s. Inr (-1, s))
      else case filealloc s of
        (None, s) \<Rightarrow> bnd (iunlockput env ip s) (\<lambda>s. Inr (-1, s))
      | (Some f, s) \<Rightarrow>
          bnd (fdalloc f s) (\<lambda>(fd, s). case fd of
            None \<Rightarrow> bnd (fileclose env f s) (\<lambda>s. bnd (iunlockput env ip s) (\<lambda>s. Inr (-1, s)))
          | Some fd \<Rightarrow>
              let s = (if i_type (inodes s ip) = T_DEVICE
                       then set_file f (\<lambda>x. x\<lparr>f_type := FD_DEVICE, f_major := i_major (inodes s ip)\<rparr>) s
                       else set_file f (\<lambda>x. x\<lparr>f_type := FD_INODE, f_off := 0\<rparr>) s);
                  s = set_file f (\<lambda>x. x\<lparr>f_ip := Some ip, f_readable := (m AND O_WRONLY = 0),
                        f_writable := (m AND O_WRONLY \<noteq> 0 \<or> m AND O_RDWR \<noteq> 0)\<rparr>) s in
              bnd (if m AND O_TRUNC \<noteq> 0 \<and> i_type (inodes s ip) = T_FILE then itrunc env ip s else Inr s) (\<lambda>s.
              bnd (iunlock (Some ip) s) (\<lambda>s. Inr (of_nat fd, s)))))"

definition sys_open :: "('a kst_scheme \<Rightarrow> 'a kst_scheme option) \<Rightarrow> 'a kst_scheme \<Rightarrow> (uint64 \<times> 'a kst_scheme) res" where
  "sys_open env s =
     bnd (argint 1 s) (\<lambda>omode.
     bnd (argstr 0 MAXPATH s) (\<lambda>path. case path of None \<Rightarrow> Inr (-1, s) | Some path \<Rightarrow>
     if u32_of_int omode AND O_CREATE \<noteq> 0 then
       bnd (create env path T_FILE 0 0 s) (\<lambda>(ipp, s).
       case ipp of None \<Rightarrow> Inr (-1, s) | Some ip \<Rightarrow> open_inode env ip omode s)
     else
       bnd (namei env path s) (\<lambda>(ipp, s). case ipp of None \<Rightarrow> Inr (-1, s) | Some ip \<Rightarrow>
       bnd (ilock env (Some ip) s) (\<lambda>s.
       if i_type (inodes s ip) = T_DIR \<and> omode \<noteq> O_RDONLY then bnd (iunlockput env ip s) (\<lambda>s. Inr (-1, s))
       else open_inode env ip omode s))))"

definition sys_mkdir :: "('a kst_scheme \<Rightarrow> 'a kst_scheme option) \<Rightarrow> 'a kst_scheme \<Rightarrow> (uint64 \<times> 'a kst_scheme) res" where
  "sys_mkdir env s =
     bnd (argstr 0 MAXPATH s) (\<lambda>path. case path of None \<Rightarrow> Inr (-1, s) | Some path \<Rightarrow>
     bnd (create env path T_DIR 0 0 s) (\<lambda>(ipp, s). case ipp of None \<Rightarrow> Inr (-1, s) | Some ip \<Rightarrow>
     bnd (iunlockput env ip s) (\<lambda>s. Inr (0, s))))"

definition sys_mknod :: "('a kst_scheme \<Rightarrow> 'a kst_scheme option) \<Rightarrow> 'a kst_scheme \<Rightarrow> (uint64 \<times> 'a kst_scheme) res" where
  "sys_mknod env s =
     bnd (argint 1 s) (\<lambda>major. bnd (argint 2 s) (\<lambda>minor.
     bnd (argstr 0 MAXPATH s) (\<lambda>path. case path of None \<Rightarrow> Inr (-1, s) | Some path \<Rightarrow>
     bnd (create env path T_DEVICE (word_of_int major) (word_of_int minor) s) (\<lambda>(ipp, s).
     case ipp of None \<Rightarrow> Inr (-1, s) | Some ip \<Rightarrow> bnd (iunlockput env ip s) (\<lambda>s. Inr (0, s))))))"

definition sys_chdir :: "('a kst_scheme \<Rightarrow> 'a kst_scheme option) \<Rightarrow> 'a kst_scheme \<Rightarrow> (uint64 \<times> 'a kst_scheme) res" where
  "sys_chdir env s =
     (case myproc s of None \<Rightarrow> Inl OutOfBounds
      | Some p \<Rightarrow>
      bnd (argstr 0 MAXPATH s) (\<lambda>path. case path of None \<Rightarrow> Inr (-1, s) | Some path \<Rightarrow>
      bnd (namei env path s) (\<lambda>(ipp, s). case ipp of None \<Rightarrow> Inr (-1, s) | Some ip \<Rightarrow>
      bnd (ilock env (Some ip) s) (\<lambda>s.
      if i_type (inodes s ip) \<noteq> T_DIR then bnd (iunlockput env ip s) (\<lambda>s. Inr (-1, s))
      else bnd (iunlock (Some ip) s) (\<lambda>s. case p_cwd (procs s p) of None \<Rightarrow> Inl OutOfBounds
        | Some c \<Rightarrow> bnd (iput env c s) (\<lambda>s. Inr (0, set_proc p (p_cwd_update (\<lambda>_. Some ip)) s)))))))"

definition set_ofile :: "nat \<Rightarrow> nat \<Rightarrow> nat option \<Rightarrow> 'a pst_scheme \<Rightarrow> 'a pst_scheme" where
  "set_ofile p fd f s = set_proc p (\<lambda>pr. pr\<lparr>p_ofile := (p_ofile pr)(fd := f)\<rparr>) s"

definition sys_pipe :: "('a kst_scheme \<Rightarrow> 'a kst_scheme option) \<Rightarrow> 'a kst_scheme \<Rightarrow> (uint64 \<times> 'a kst_scheme) res" where
  "sys_pipe env s =
     (case myproc s of None \<Rightarrow> Inl OutOfBounds
      | Some p \<Rightarrow>
      bnd (argaddr 0 s) (\<lambda>fdarray.
      bnd (pipealloc env s) (\<lambda>(ends, s). case ends of None \<Rightarrow> Inr (-1, s) | Some (rfile, wfile) \<Rightarrow>
      let close_both = (\<lambda>s. bnd (fileclose env rfile s) (\<lambda>s. bnd (fileclose env wfile s) (\<lambda>s. Inr (-1, s)))) in
      bnd (fdalloc rfile s) (\<lambda>(fd0, s). case fd0 of None \<Rightarrow> close_both s | Some fd0 \<Rightarrow>
      bnd (fdalloc wfile s) (\<lambda>(fd1, s). case fd1 of None \<Rightarrow> close_both (set_ofile p fd0 None s) | Some fd1 \<Rightarrow>
      let pt = p_pagetable (procs s p);
          (r, s) = copyout pt fdarray (le_bytes 4 (of_nat fd0 :: uint32)) 4 s;
          (r, s) = (if r < 0 then (r, s) else copyout pt (fdarray + 4) (le_bytes 4 (of_nat fd1 :: uint32)) 4 s) in
      if r < 0 then close_both (set_ofile p fd1 None (set_ofile p fd0 None s))
      else Inr (0, s))))))"

section \<open>Dispatch\<close>

definition syscalls :: "ksyms \<Rightarrow> ('a kst_scheme \<Rightarrow> 'a kst_scheme option) \<Rightarrow> nat \<Rightarrow> ('a kst_scheme \<Rightarrow> (uint64 \<times> 'a kst_scheme) res) option"
where
  "syscalls sy env n =
     [None, Some (sys_fork sy), Some (sys_exit env), Some (sys_wait env), Some (sys_pipe env), Some (sys_read env),
      Some sys_kill, Some (sys_exec sy env), Some (sys_fstat env), Some (sys_chdir env), Some sys_dup, Some sys_getpid,
      Some sys_sbrk, Some (sys_sleep env), Some sys_uptime, Some (sys_open env), Some (sys_write env), Some (sys_mknod env),
      Some (sys_unlink env), Some (sys_link env), Some (sys_mkdir env), Some (sys_close env)] ! n"

definition syscall :: "ksyms \<Rightarrow> ('a kst_scheme \<Rightarrow> 'a kst_scheme option) \<Rightarrow> 'a kst_scheme \<Rightarrow> 'a kst_scheme res" where
  "syscall sy env s =
     (case myproc s of None \<Rightarrow> Inl OutOfBounds
      | Some p \<Rightarrow>
      let a7 = tf_get p TF_a7 s in
      if a7 \<ge> 22 then bnd (printf ''unkown syscall\<newline>'' [] s) (\<lambda>s. Inr (tf_set p TF_a0 (-1) s))
      else case syscalls sy env (unat a7) of None \<Rightarrow> Inl BadJump
      | Some f \<Rightarrow> bnd (f s) (\<lambda>(r, s). Inr (tf_set p TF_a0 r s)))"

end
