(* ===== verification/Xv6_Trap.thy ===== *)
theory Xv6_Trap
  imports Xv6_Syscall
begin

text \<open>
  \<^verbatim>\<open>kernel/trap.c\<close>, \<^verbatim>\<open>kernel/plic.c\<close>, \<^verbatim>\<open>kernel/start.c\<close> and \<^verbatim>\<open>kernel/main.c\<close>: traps, the interrupt controller and the
  boot sequence, with \<^verbatim>\<open>forkret\<close> of \<^verbatim>\<open>kernel/proc.c\<close>.  The interrupt controller answers the \<open>k\<close>-th claim
  with an arbitrary value; what is written to it is logged.
\<close>

section \<open>The interrupt controller\<close>

record trst = kst +
  plic_in :: "nat \<Rightarrow> uint32"
  plic_claims :: nat
  plic_log :: "(uint64 \<times> uint32) list"

definition PLIC_SENABLE :: "uint64 \<Rightarrow> uint64" where
  "PLIC_SENABLE hart = PLIC + 0x2080 + hart * 0x100"

definition PLIC_SPRIORITY :: "uint64 \<Rightarrow> uint64" where
  "PLIC_SPRIORITY hart = PLIC + 0x201000 + hart * 0x2000"

definition PLIC_SCLAIM :: "uint64 \<Rightarrow> uint64" where
  "PLIC_SCLAIM hart = PLIC + 0x201004 + hart * 0x2000"

definition plic_write :: "uint64 \<Rightarrow> uint32 \<Rightarrow> 'a trst_scheme \<Rightarrow> 'a trst_scheme" where
  "plic_write a v s = s\<lparr>plic_log := plic_log s @ [(a, v)]\<rparr>"

definition plicinit :: "'a trst_scheme \<Rightarrow> 'a trst_scheme" where
  "plicinit s = plic_write (PLIC + u64_of_int (VIRTIO0_IRQ * 4)) 1 (plic_write (PLIC + u64_of_int (UART0_IRQ * 4)) 1 s)"

definition plicinithart :: "'a trst_scheme \<Rightarrow> 'a trst_scheme" where
  "plicinithart s =
     (let hart = of_nat cpuid;
          s = plic_write (PLIC_SENABLE hart) (push_bit (nat UART0_IRQ) 1 OR push_bit (nat VIRTIO0_IRQ) 1) s
      in plic_write (PLIC_SPRIORITY hart) 0 s)"

definition plic_claim :: "'a trst_scheme \<Rightarrow> int \<times> 'a trst_scheme" where
  "plic_claim s = (int_of_u32 (plic_in s (plic_claims s)), s\<lparr>plic_claims := plic_claims s + 1\<rparr>)"

definition plic_complete :: "int \<Rightarrow> 'a trst_scheme \<Rightarrow> 'a trst_scheme" where
  "plic_complete irq s = plic_write (PLIC_SCLAIM (of_nat cpuid)) (u32_of_int irq) s"

section \<open>Interrupts\<close>

definition EXCEPTION_CAUSE :: "string list" where
  "EXCEPTION_CAUSE = [
    ''Instruction address misaligned\<newline>'', ''Instruction access fault\<newline>'', ''Illegal instruction\<newline>'', ''Breakpoint\<newline>'',
    ''Load address misaligned\<newline>'', ''Load access fault\<newline>'', ''Store/AMO address misaligned\<newline>'', ''Store/AMO access fault\<newline>'',
    ''Environment call from U-mode\<newline>'', ''Environment call from S-mode\<newline>'', ''Reserved\<newline>'', ''Environment call from M-mode\<newline>'',
    ''Instruction page fault\<newline>'', ''Load page fault\<newline>'', ''Reserved\<newline>'', ''Store/AMO page fault\<newline>'']"

definition clockintr :: "'a pst_scheme \<Rightarrow> 'a pst_scheme res" where
  "clockintr s = wakeup (Some ChanTicks) (s\<lparr>ticks := ticks s + 1\<rparr>)"

definition devintr :: "'a trst_scheme \<Rightarrow> (int \<times> 'a trst_scheme) res" where
  "devintr s =
     (let cause = r_scause (csr s) in
      if cause AND 0x8000000000000000 \<noteq> 0 \<and> cause AND 0xff = 9 then
        let (irq, s) = plic_claim s in
        bnd (if irq = UART0_IRQ then uartintr s
             else if irq = VIRTIO0_IRQ then virtio_disk_intr s
             else if irq \<noteq> 0 then printf ''unexpected interrupt irq=%d\<newline>'' [ArgInt irq] s
             else Inr s) (\<lambda>s.
        Inr (1, if irq \<noteq> 0 then plic_complete irq s else s))
      else if cause = 0x8000000000000001 then
        bnd (if cpuid = 0 then clockintr s else Inr s) (\<lambda>s.
        Inr (2, s\<lparr>csr := w_sip (r_sip (csr s) AND NOT 2) (csr s)\<rparr>))
      else if unat cause < length EXCEPTION_CAUSE then
        bnd (printf ''%s'' [ArgStr (Some (EXCEPTION_CAUSE ! unat cause))] s) (\<lambda>s. Inr (0, s))
      else Inl OutOfBounds)"

section \<open>User traps\<close>

text \<open>\<^verbatim>\<open>usertrapret\<close> ends in the jump to \<^verbatim>\<open>userret\<close>: its result is the address it jumps to and the argument.\<close>

definition usertrapret :: "ksyms \<Rightarrow> 'a trst_scheme \<Rightarrow> (uint64 \<times> uint64 \<times> 'a trst_scheme) res" where
  "usertrapret sy s =
     (case myproc s of None \<Rightarrow> Inl OutOfBounds
      | Some p \<Rightarrow>
      let s = s\<lparr>csr := intr_off (csr s)\<rparr>;
          s = s\<lparr>csr := w_stvec (sym_uservec sy - sym_tramp_start sy + TRAMPOLINE) (csr s)\<rparr>;
          x = (r_sstatus (csr s) AND NOT SSTATUS_SPP) OR SSTATUS_SPIE;
          s = s\<lparr>csr := w_sstatus x (csr s)\<rparr>;
          s = tf_set p TF_kernel_trap (sym_usertrap sy) s;
          s = tf_set p TF_kernel_satp (r_satp (csr s)) s;
          s = tf_set p TF_kernel_sp (p_kstack (procs s p) + PGSIZE) s;
          s = tf_set p TF_kernel_hartid (r_tp (csr s)) s;
          s = s\<lparr>csr := w_sepc (tf_get p TF_epc s) (csr s)\<rparr>
      in Inr (TRAMPOLINE + (sym_userret sy - sym_trampoline sy), MAKE_SATP (p_pagetable (procs s p)), s))"

text \<open>The body of \<^verbatim>\<open>usertrap\<close> before its second test of \<^verbatim>\<open>killed\<close>: the value of \<^verbatim>\<open>which_dev\<close>.\<close>

definition usertrap_handle :: "ksyms \<Rightarrow> ('a trst_scheme \<Rightarrow> 'a trst_scheme option) \<Rightarrow> nat \<Rightarrow> 'a trst_scheme
    \<Rightarrow> (int \<times> 'a trst_scheme) res" where
  "usertrap_handle sy env p s =
     (if r_scause (csr s) = 8 then
        if killed p s \<noteq> 0 then exit env (-1) s
        else
          let s = tf_set p TF_epc (tf_get p TF_epc s + 4) s;
              s = s\<lparr>csr := intr_on (csr s)\<rparr> in
          bnd (syscall sy env s) (\<lambda>s. Inr (0, s))
      else bnd (devintr s) (\<lambda>(which_dev, s).
        if which_dev \<noteq> 0 then Inr (which_dev, s)
        else
          bnd (printf ''usertrap(): unexpected scause %p pid=%d\<newline>'' [ArgPtr (r_scause (csr s)), ArgInt (p_pid (procs s p))] s) (\<lambda>s.
          bnd (printf ''            sepc=%p stval=%p\<newline>'' [ArgPtr (r_sepc (csr s)), ArgPtr (r_stval (csr s))] s) (\<lambda>s.
          Inr (0, snd (setkilled p s))))))"

definition usertrap :: "ksyms \<Rightarrow> ('a trst_scheme \<Rightarrow> 'a trst_scheme option) \<Rightarrow> 'a trst_scheme
    \<Rightarrow> (uint64 \<times> uint64 \<times> 'a trst_scheme) res" where
  "usertrap sy env s =
     (let s = s\<lparr>csr := w_stvec (sym_kernelvec sy) (csr s)\<rparr> in
      case myproc s of None \<Rightarrow> Inl OutOfBounds
      | Some p \<Rightarrow>
      let s = tf_set p TF_epc (r_sepc (csr s)) s in
      bnd (usertrap_handle sy env p s) (\<lambda>(which_dev, s).
      bnd (if killed p s \<noteq> 0 then exit env (-1) s else Inr s) (\<lambda>s.
      bnd (if which_dev = 2 then yield env s else Inr s) (usertrapret sy))))"

definition kerneltrap :: "'a trst_scheme \<Rightarrow> 'a trst_scheme res" where
  "kerneltrap s =
     (let sepc = r_sepc (csr s); sstatus = r_sstatus (csr s); scause = r_scause (csr s) in
      if sstatus AND SSTATUS_SPP = 0 then Inl (Panic ''kerneltrap: not from supervisor mode'')
      else if intr_get (csr s) then Inl (Panic ''kerneltrap: interrupts enabled'')
      else bnd (devintr s) (\<lambda>(which_dev, s).
        if which_dev = 0 then
          bnd (printf ''scause %p\<newline>'' [ArgPtr scause] s) (\<lambda>s.
          bnd (printf ''sepc=%p stval=%p\<newline>'' [ArgPtr (r_sepc (csr s)), ArgPtr (r_stval (csr s))] s) (\<lambda>s.
          Inl (Panic ''kerneltrap'')))
        else Inr (s\<lparr>csr := w_sstatus sstatus (w_sepc sepc (csr s))\<rparr>)))"

definition forkret :: "ksyms \<Rightarrow> ('a trst_scheme \<Rightarrow> 'a trst_scheme option) \<Rightarrow> 'a trst_scheme
    \<Rightarrow> (uint64 \<times> uint64 \<times> 'a trst_scheme) res" where
  "forkret sy env s =
     (case myproc s of None \<Rightarrow> Inl OutOfBounds
      | Some p \<Rightarrow> bnd (release (ProcLock p) s) (\<lambda>s.
          bnd (if first_ret s then fsinit env ROOTDEV (s\<lparr>first_ret := False\<rparr>) else Inr s) (usertrapret sy)))"

section \<open>Boot\<close>

text \<open>\<^verbatim>\<open>start\<close> up to its \<^verbatim>\<open>mret\<close>, which enters \<^verbatim>\<open>main\<close> in supervisor mode.\<close>

definition start :: "ksyms \<Rightarrow> 'a vmst_scheme \<Rightarrow> 'a vmst_scheme" where
  "start sy s =
     (let c = csr s;
          c = w_mstatus ((r_mstatus c AND NOT MSTATUS_MPP_MASK) OR MSTATUS_MPP_S) c;
          c = w_mepc (sym_main sy) c;
          c = w_satp 0 c;
          c = w_medeleg 0xffff c;
          c = w_mideleg 0xffff c;
          c = w_sie (r_sie c OR SIE_SEIE OR SIE_STIE OR SIE_SSIE) c;
          c = w_pmpaddr0 0x3fffffffffffff c;
          c = w_pmpcfg0 0xf c;
          id = int_of_u64 (r_mhartid c);
          interval = 10000000;
          m = store64 (mem s) (CLINT_MTIMECMP (u64_of_int id)) (load64 (mem s) CLINT_MTIME + interval);
          scratch = sym_timer_scratch sy + 40 * u64_of_int id;
          m = store64 m (scratch + 24) (CLINT_MTIMECMP (u64_of_int id));
          m = store64 m (scratch + 32) interval;
          c = w_mscratch scratch c;
          c = w_mtvec (sym_timervec sy) c;
          c = w_mie (r_mie c OR MIE_MTIE) c;
          c = w_mstatus (r_mstatus c OR MSTATUS_MIE) c;
          c = w_tp (u64_of_int id) c
      in s\<lparr>csr := c, mem := m\<rparr>)"

text \<open>\<^verbatim>\<open>main\<close> up to its call of \<^verbatim>\<open>scheduler\<close>, which does not return.\<close>

definition main_init :: "ksyms \<Rightarrow> ('a trst_scheme \<Rightarrow> 'a trst_scheme option) \<Rightarrow> 'a trst_scheme \<Rightarrow> 'a trst_scheme res" where
  "main_init sy env s =
     (case kinit (sym_end sy) s of None \<Rightarrow> Inl Hang
      | Some s \<Rightarrow>
      bnd (kvminit (sym_etext sy) (sym_trampoline sy) s) (\<lambda>s.
      let s = procinit s;
          s = s\<lparr>csr := w_stvec (sym_kernelvec sy) (csr s)\<rparr>;
          s = binit s;
          s = plicinit s;
          s = plicinithart s in
      bnd (virtio_disk_init s) (\<lambda>s. userinit sy env (consoleinit s))))"

end
