(* ===== verification/Xv6_Locking.thy ===== *)
theory Xv6_Locking
  imports Xv6_Sleeplock
begin

text \<open>
  Equations for code that runs between \<^verbatim>\<open>acquire\<close> and \<^verbatim>\<open>release\<close>.  \<open>held lk s\<close> is the state \<open>s\<close> with the lock \<open>lk\<close>
  taken; it moves outwards over every update of other parts of the state, until \<^verbatim>\<open>release\<close> meets it and leaves
  \<open>settle s\<close>: the state \<open>s\<close> again, but for the saved interrupt setting of the processor.  With these
  equations, an uncontended critical section is computed by rewriting.
\<close>

named_theorems lock_simps \<open>moving the lock state outwards\<close>

section \<open>One critical section\<close>

definition held :: "lockid \<Rightarrow> 'a mach_scheme \<Rightarrow> 'a mach_scheme" where
  "held lk s = s\<lparr>csr := intr_off (csr s),
     cpus := (cpus s)\<lparr>noff := noff (cpus s) + 1, intena := if noff (cpus s) = 0 then intr_get (csr s) else intena (cpus s)\<rparr>,
     locks := (locks s)(lk := (locks s lk)\<lparr>locked := 1, lk_cpu := Some cpuid\<rparr>)\<rparr>"

definition settle :: "'a mach_scheme \<Rightarrow> 'a mach_scheme" where
  "settle s = s\<lparr>cpus := (cpus s)\<lparr>intena := if noff (cpus s) = 0 then intr_get (csr s) else intena (cpus s)\<rparr>\<rparr>"

definition cpu_ok :: "'a mach_scheme \<Rightarrow> bool" where
  "cpu_ok s \<longleftrightarrow> noff (cpus s) \<ge> 0 \<and> (noff (cpus s) > 0 \<longrightarrow> \<not> intr_get (csr s))"

definition lock_free :: "lockid \<Rightarrow> 'a mach_scheme \<Rightarrow> bool" where
  "lock_free lk s \<longleftrightarrow> locked (locks s lk) = 0 \<and> lk_cpu (locks s lk) = None"

lemma acquire_held: "lock_free lk s \<Longrightarrow> acquire lk s = Inr (held lk s)"
  by (simp add: lock_free_def acquire_Inr held_def)

lemma release_held:
  assumes "cpu_ok s" "lock_free lk s"
  shows "release lk (held lk s) = Inr (settle s)"
proof -
  have "holding lk (held lk s)" "\<not> intr_get (csr (held lk s))" "noff (cpus (held lk s)) > 0"
    using assms by (simp_all add: held_def holding_def cpu_ok_def)
  note rel = release_Inr[OF this]
  have l: "(locks s lk)\<lparr>locked := 0, lk_cpu := None\<rparr> = locks s lk"
    using assms(2) by (cases "locks s lk") (simp add: lock_free_def)
  show ?thesis
  proof (cases "noff (cpus s) = 0")
    case True
    then show ?thesis
      using l unfolding rel
      by (cases s) (cases "locks s lk"; auto simp: held_def settle_def intr_on_off intr_off_id)
  next
    case False
    then have "\<not> intr_get (csr s)" "noff (cpus s) > 0"
      using assms(1) by (auto simp: cpu_ok_def)
    then show ?thesis
      using l unfolding rel
      by (cases s) (cases "locks s lk"; auto simp: held_def settle_def intr_off_id)
  qed
qed

section \<open>Moving the lock state outwards\<close>

lemma cpu_ok_held [simp]: "cpu_ok s \<Longrightarrow> cpu_ok (held lk s)"
  by (auto simp: cpu_ok_def held_def)

lemma cpu_ok_settle [simp]: "cpu_ok (settle s) = cpu_ok s"
  by (simp add: cpu_ok_def settle_def)

lemma lock_free_held [simp]: "lk \<noteq> lk' \<Longrightarrow> lock_free lk (held lk' s) = lock_free lk s"
  by (simp add: lock_free_def held_def)

lemma not_lock_free_held [simp]: "\<not> lock_free lk (held lk s)"
  by (simp add: lock_free_def held_def)

lemma lock_free_settle [simp]: "lock_free lk (settle s) = lock_free lk s"
  by (simp add: lock_free_def settle_def)

lemma holding_held [simp]: "holding lk (held lk s)"
  by (simp add: holding_def held_def)

lemma holding_held_other [simp]: "lk \<noteq> lk' \<Longrightarrow> holding lk (held lk' s) = holding lk s"
  by (simp add: holding_def held_def)

lemma holding_settle [simp]: "holding lk (settle s) = holding lk s"
  by (simp add: holding_def settle_def)

lemma settle_idem [simp]: "settle (settle s) = settle s"
  by (simp add: settle_def)

lemma settle_held [simp]: "cpu_ok s \<Longrightarrow> settle (held lk s) = held lk s"
  by (cases s) (auto simp: settle_def held_def cpu_ok_def)

lemma held_settle [simp]: "held lk (settle s) = held lk s"
  by (cases s) (auto simp: settle_def held_def)

lemma held_commute: "cpu_ok s \<Longrightarrow> lk \<noteq> lk' \<Longrightarrow> held lk (held lk' s) = held lk' (held lk s)"
  by (cases s) (auto simp: held_def cpu_ok_def fun_upd_twist intr_off_id)

lemma held_fields [simp]:
  "mem (held lk s) = mem s" "klist_next (held lk s) = klist_next s" "kernel_pagetable (held lk s) = kernel_pagetable s"
  "mach.more (held lk s) = mach.more s" "cpu_proc (cpus (held lk s)) = cpu_proc (cpus s)"
  by (simp_all add: held_def)

lemma settle_fields [simp]:
  "mem (settle s) = mem s" "klist_next (settle s) = klist_next s" "kernel_pagetable (settle s) = kernel_pagetable s"
  "csr (settle s) = csr s" "locks (settle s) = locks s" "noff (cpus (settle s)) = noff (cpus s)"
  "mach.more (settle s) = mach.more s" "cpu_proc (cpus (settle s)) = cpu_proc (cpus s)"
  by (simp_all add: settle_def)

text \<open>The process table and the sleeplocks under a lock.\<close>

lemma held_pst [simp]:
  "procs (held lk s) = procs s" "initproc (held lk s) = initproc s" "next_pid (held lk s) = next_pid s"
  "first_ret (held lk s) = first_ret s" "ticks (held lk s) = ticks s" "pst.more (held lk s) = pst.more s"
  "myproc (held lk s) = myproc s"
  by (simp_all add: held_def myproc_def mycpu_def)

lemma settle_pst [simp]:
  "procs (settle s) = procs s" "initproc (settle s) = initproc s" "next_pid (settle s) = next_pid s"
  "first_ret (settle s) = first_ret s" "ticks (settle s) = ticks s" "pst.more (settle s) = pst.more s"
  "myproc (settle s) = myproc s"
  by (simp_all add: settle_def myproc_def mycpu_def)

lemma held_sleeplocks [simp]: "sleeplocks (held lk s) = sleeplocks s" "slst.more (held lk s) = slst.more s"
  by (simp_all add: held_def)

lemma settle_sleeplocks [simp]: "sleeplocks (settle s) = sleeplocks s" "slst.more (settle s) = slst.more s"
  by (simp_all add: settle_def)

lemma upd_held [lock_simps]:
  "(held lk s)\<lparr>mem := m\<rparr> = held lk (s\<lparr>mem := m\<rparr>)" "(held lk s)\<lparr>klist_next := k\<rparr> = held lk (s\<lparr>klist_next := k\<rparr>)"
  by (cases s; simp add: held_def)+

lemma upd_settle [lock_simps]:
  "(settle s)\<lparr>mem := m\<rparr> = settle (s\<lparr>mem := m\<rparr>)" "(settle s)\<lparr>klist_next := k\<rparr> = settle (s\<lparr>klist_next := k\<rparr>)"
  by (cases s; simp add: settle_def)+

lemma pst_upd_held [lock_simps]:
  "(held lk s)\<lparr>procs := x\<rparr> = held lk (s\<lparr>procs := x\<rparr>)" "(held lk s)\<lparr>ticks := t\<rparr> = held lk (s\<lparr>ticks := t\<rparr>)"
  "(settle s)\<lparr>procs := x\<rparr> = settle (s\<lparr>procs := x\<rparr>)" "(settle s)\<lparr>ticks := t\<rparr> = settle (s\<lparr>ticks := t\<rparr>)"
  "set_proc p f (held lk s) = held lk (set_proc p f s)" "set_proc p f (settle s) = settle (set_proc p f s)"
  by (cases s; simp add: held_def settle_def set_proc_def)+

lemma sleeplocks_upd_held [lock_simps]:
  "(held lk s)\<lparr>sleeplocks := y\<rparr> = held lk (s\<lparr>sleeplocks := y\<rparr>)" "(settle s)\<lparr>sleeplocks := y\<rparr> = settle (s\<lparr>sleeplocks := y\<rparr>)"
  by (cases s; simp add: held_def settle_def)+

lemma cpu_ok_upd [simp]:
  "cpu_ok (s\<lparr>mem := m\<rparr>) = cpu_ok s" "cpu_ok (s\<lparr>klist_next := k\<rparr>) = cpu_ok s"
  by (simp_all add: cpu_ok_def)

lemma cpu_ok_pst [simp]:
  "cpu_ok (s\<lparr>procs := x\<rparr>) = cpu_ok s" "cpu_ok (s\<lparr>ticks := t\<rparr>) = cpu_ok s" "cpu_ok (set_proc p f s) = cpu_ok s"
  by (simp_all add: cpu_ok_def set_proc_def)

lemma cpu_ok_sleeplocks [simp]: "cpu_ok (s\<lparr>sleeplocks := y\<rparr>) = cpu_ok s"
  by (simp add: cpu_ok_def)

lemma lock_free_upd [simp]:
  "lock_free lk (s\<lparr>mem := m\<rparr>) = lock_free lk s" "lock_free lk (s\<lparr>klist_next := k\<rparr>) = lock_free lk s"
  by (simp_all add: lock_free_def)

lemma lock_free_pst [simp]:
  "lock_free lk (s\<lparr>procs := x\<rparr>) = lock_free lk s" "lock_free lk (s\<lparr>ticks := t\<rparr>) = lock_free lk s"
  "lock_free lk (set_proc p f s) = lock_free lk s"
  by (simp_all add: lock_free_def set_proc_def)

lemma lock_free_sleeplocks [simp]: "lock_free lk (s\<lparr>sleeplocks := y\<rparr>) = lock_free lk s"
  by (simp add: lock_free_def)

section \<open>Wakeup\<close>

text \<open>What \<^verbatim>\<open>wakeup\<close> is for: the processes that sleep on the channel, except the current one, become runnable.\<close>

definition woken :: "chan option \<Rightarrow> nat list \<Rightarrow> 'a pst_scheme \<Rightarrow> 'a pst_scheme" where
  "woken ch ps s = s\<lparr>procs := \<lambda>p. if p \<in> set ps \<and> myproc s \<noteq> Some p \<and> p_status (procs s p) = SLEEPING \<and> p_chan (procs s p) = ch
     then (procs s p)\<lparr>p_status := RUNNABLE\<rparr> else procs s p\<rparr>"

definition procs_free :: "'a pst_scheme \<Rightarrow> bool" where
  "procs_free s \<longleftrightarrow> (\<forall>p<N_PROC. myproc s \<noteq> Some p \<longrightarrow> lock_free (ProcLock p) s)"

lemma myproc_upd [simp]: "myproc (s\<lparr>procs := x\<rparr>) = myproc s" "myproc (set_proc p f s) = myproc s"
  by (simp_all add: myproc_def mycpu_def set_proc_def)

lemma wakeup_loop_woken:
  assumes "cpu_ok s" "\<forall>p\<in>set ps. myproc s \<noteq> Some p \<longrightarrow> lock_free (ProcLock p) s" "distinct ps"
  shows "\<exists>s'\<in>{s, settle s}. wakeup_loop ps ch s = Inr (woken ch ps s') \<and> ((\<exists>p\<in>set ps. myproc s \<noteq> Some p) \<longrightarrow> s' = settle s)"
  using assms
proof (induction ps arbitrary: s)
  case Nil
  then show ?case by (simp add: woken_def)
next
  case (Cons p ps)
  show ?case
  proof (cases "myproc s = Some p")
    case True
    have "woken ch (p # ps) s' = woken ch ps s'" if "s' \<in> {s, settle s}" for s'
      using that True by (auto simp: woken_def intro!: arg_cong[where f = "\<lambda>x. procs_update (\<lambda>_. x) _"])
    with True show ?thesis
      using Cons.IH[of s] Cons.prems by auto
  next
    case False
    let ?s = "if p_status (procs s p) = SLEEPING \<and> p_chan (procs s p) = ch
           then set_proc p (p_status_update (\<lambda>_. RUNNABLE)) s else s"
    have run: "wakeup_loop (p # ps) ch s = wakeup_loop ps ch (settle ?s)"
      using False Cons.prems by (simp add: acquire_held release_held lock_simps)
    have "\<exists>s'\<in>{settle ?s, settle (settle ?s)}. wakeup_loop ps ch (settle ?s) = Inr (woken ch ps s')"
      using Cons.IH[of "settle ?s"] Cons.prems by (auto split: if_splits)
    moreover have "woken ch ps (settle ?s) = woken ch (p # ps) (settle s)"
      using Cons.prems(3) False
      by (auto simp: woken_def lock_simps set_proc_def fun_eq_iff intro!: arg_cong[where f = settle] pst.equality)
    ultimately show ?thesis
      using run False by auto
  qed
qed

lemma woken_settle [lock_simps]: "woken ch ps (settle s) = settle (woken ch ps s)"
  by (simp add: woken_def lock_simps cong: if_cong)

lemma woken_held [lock_simps]: "woken ch ps (held lk s) = held lk (woken ch ps s)"
  by (simp add: woken_def lock_simps cong: if_cong)

lemma wakeup_woken:
  assumes "cpu_ok s" "procs_free s"
  shows "wakeup ch s = Inr (settle (woken ch [0..<N_PROC] s))"
proof -
  have "\<exists>p\<in>set [0..<N_PROC]. myproc s \<noteq> Some p"
    by (cases "myproc s = Some 0") (auto intro: bexI[of _ 1] bexI[of _ 0])
  moreover have "\<forall>p\<in>set [0..<N_PROC]. myproc s \<noteq> Some p \<longrightarrow> lock_free (ProcLock p) s"
    using assms(2) by (simp add: procs_free_def)
  ultimately have "wakeup_loop [0..<N_PROC] ch s = Inr (woken ch [0..<N_PROC] (settle s))"
    using wakeup_loop_woken[OF assms(1), of "[0..<N_PROC]" ch] by (metis distinct_upt)
  then show ?thesis
    by (simp add: wakeup_def woken_settle)
qed

lemma woken_simps [simp]:
  "cpu_ok (woken ch ps s) = cpu_ok s" "lock_free lk (woken ch ps s) = lock_free lk s" "myproc (woken ch ps s) = myproc s"
  "mem (woken ch ps s) = mem s" "locks (woken ch ps s) = locks s" "csr (woken ch ps s) = csr s" "cpus (woken ch ps s) = cpus s"
  by (simp_all add: woken_def)

lemma procs_free_simps [simp]:
  "procs_free (settle s) = procs_free s" "(\<forall>p. ProcLock p \<noteq> lk) \<Longrightarrow> procs_free (held lk s) = procs_free s"
  "procs_free (set_proc p f s) = procs_free s" "procs_free (woken ch ps s) = procs_free s"
  by (simp_all add: procs_free_def)

text \<open>
  C14: \<^verbatim>\<open>wakeup\<close> is exact.  When no other process is in a critical section, it makes runnable precisely the processes that sleep on the
  channel, the current process excepted; it changes nothing else of any process, and it leaves memory, locks and the
  interrupt setting as they were.
\<close>

theorem wakeup_exact:
  assumes "cpu_ok s" "procs_free s"
  shows "\<exists>s'. wakeup ch s = Inr s' \<and> mem s' = mem s \<and> locks s' = locks s \<and> csr s' = csr s \<and> pst.more s' = pst.more s \<and>
    (\<forall>p. procs s' p =
       (if p < N_PROC \<and> myproc s \<noteq> Some p \<and> p_status (procs s p) = SLEEPING \<and> p_chan (procs s p) = ch
        then (procs s p)\<lparr>p_status := RUNNABLE\<rparr> else procs s p))"
  using wakeup_woken[OF assms, of ch] by (simp add: woken_def)

definition two_sleepers :: pst where
  "two_sleepers = set_proc 4 (\<lambda>pr. pr\<lparr>p_status := SLEEPING, p_chan := Some ChanTicks\<rparr>)
     (set_proc 5 (\<lambda>pr. pr\<lparr>p_status := SLEEPING, p_chan := Some ChanConsR\<rparr>) reset_pst)"

lemma reset_pst_fields [simp]:
  "cpus reset_pst = reset_cpu" "locks reset_pst lk = reset_lock" "csr reset_pst = intr_on reset_csrs" "procs reset_pst p = reset_proc"
  by (simp_all add: reset_pst_def mach.defs reset_mach_def)

theorem wakeup_exact_witness:
  "\<exists>s'. wakeup (Some ChanTicks) two_sleepers = Inr s' \<and> p_status (procs s' 4) = RUNNABLE \<and> p_status (procs s' 5) = SLEEPING"
proof -
  have "cpu_ok two_sleepers" "procs_free two_sleepers"
    by (simp_all add: two_sleepers_def cpu_ok_def procs_free_def lock_free_def set_proc_def)
  from wakeup_exact[OF this, of "Some ChanTicks"] show ?thesis
    by (auto simp: two_sleepers_def set_proc_def myproc_def mycpu_def)
qed

section \<open>Sleeplocks that are free\<close>

lemma sleeplocks_procs [simp]:
  "myproc (s\<lparr>sleeplocks := y\<rparr>) = myproc s" "procs_free (s\<lparr>sleeplocks := y\<rparr>) = procs_free s"
  by (simp_all add: myproc_def mycpu_def procs_free_def lock_free_def)

lemma acquiresleep_free:
  assumes "sl_locked (sleeplocks s lk) = 0" "lock_free (SleepGuard lk) s" "cpu_ok s" "myproc s = Some p"
  shows "acquiresleep env lk s = Inr (settle (s\<lparr>sleeplocks := (sleeplocks s)(lk := (sleeplocks s lk)\<lparr>sl_locked := 1,
    sl_pid := p_pid (procs s p)\<rparr>)\<rparr>))"
  using assms
  by (simp add: acquiresleep_def acquiresleep_loop.simps acquire_held mypid_def lock_simps release_held unhang_def)

lemma releasesleep_held:
  assumes "sl_locked (sleeplocks s lk) \<noteq> 0" "sl_pid (sleeplocks s lk) = p_pid (procs s p)" "myproc s = Some p"
    "lock_free (SleepGuard lk) s" "cpu_ok s" "procs_free s"
  shows "releasesleep lk s = Inr (settle (woken (Some (ChanSleep lk)) [0..<N_PROC]
    (s\<lparr>sleeplocks := (sleeplocks s)(lk := (sleeplocks s lk)\<lparr>sl_locked := 0, sl_pid := 0\<rparr>)\<rparr>)))"
  using assms
  by (simp add: releasesleep_def holdingsleep_def mypid_def acquire_held lock_simps release_held wakeup_woken)

end
