(* ===== verification/Xv6_Sched.thy ===== *)
theory Xv6_Sched
  imports Xv6_Locking
begin

text \<open>
  The scheduling protocol of \<^verbatim>\<open>kernel/proc.c\<close>: how \<^verbatim>\<open>scheduler\<close>, \<^verbatim>\<open>yield\<close>, \<^verbatim>\<open>sleep\<close>, \<^verbatim>\<open>wakeup\<close> and \<^verbatim>\<open>kill\<close> work together.  The
  code between two switches is one step.  A process that gave up the processor is described by what it will do when
  \<^verbatim>\<open>swtch\<close> returns to it, which is what its saved context stands for; \<open>yield_split\<close> and \<open>sleep_split\<close> show that
  the two halves are those of the model's \<^verbatim>\<open>yield\<close> and \<^verbatim>\<open>sleep\<close>.
\<close>

section \<open>Halves of a switch\<close>

datatype resume = Fresh | Yielded int bool | Slept "lockid option" int bool

definition restore_cpu :: "int \<Rightarrow> bool \<Rightarrow> 'a mach_scheme \<Rightarrow> 'a mach_scheme" where
  "restore_cpu n i s = s\<lparr>cpus := (cpus s)\<lparr>intena := i, noff := n\<rparr>\<rparr>"

text \<open>A process that sleeps under a lock releases it some time after it is back.\<close>

definition resume_proc :: "nat \<Rightarrow> resume \<Rightarrow> 'a pst_scheme \<Rightarrow> 'a pst_scheme res" where
  "resume_proc p r s = (case r of
     Fresh \<Rightarrow> release (ProcLock p) s
   | Yielded n i \<Rightarrow> release (ProcLock p) (restore_cpu n i s)
   | Slept lk n i \<Rightarrow> sleep_end p lk (restore_cpu n i s))"

definition yield_begin :: "nat \<Rightarrow> 'a pst_scheme \<Rightarrow> 'a pst_scheme res" where
  "yield_begin p s = bnd (acquire (ProcLock p) s) (\<lambda>s. Inr (set_proc p (p_status_update (\<lambda>_. RUNNABLE)) s))"

lemma yield_split:
  assumes "myproc s = Some p" "yield_begin p s = Inr s1" "env s1 = Some s2"
  shows "yield env s = resume_proc p (Yielded (noff (cpus s1)) (intena (cpus s1))) s2"
proof -
  from assms(2) obtain s0 where s0: "acquire (ProcLock p) s = Inr s0"
    "s1 = set_proc p (p_status_update (\<lambda>_. RUNNABLE)) s0"
    by (auto simp: yield_begin_def bnd_Inr_iff)
  then have "myproc s1 = Some p" "p_status (procs s1 p) \<noteq> RUNNING"
    using assms(1) by (auto simp: acquire_def push_off_def mycpu_def Let_def set_proc_def myproc_def split: if_splits)
  then show ?thesis
    using s0 assms by (simp add: yield_def sched_def resume_proc_def restore_cpu_def mycpu_def Let_def)
qed

lemma sleep_split:
  assumes "myproc s = Some p" "sleep_begin p ch lk s = Inr s1" "env s1 = Some s2" "myproc s1 = Some p"
    "p_status (procs s1 p) \<noteq> RUNNING"
  shows "sleep env ch lk s = resume_proc p (Slept lk (noff (cpus s1)) (intena (cpus s1))) s2"
  using assms by (simp add: sleep_def sched_def resume_proc_def restore_cpu_def mycpu_def Let_def)

section \<open>Steps\<close>

text \<open>The scheduler picks a process, which runs on until it is out of the switch.\<close>

definition dispatch :: "nat \<Rightarrow> resume \<Rightarrow> 'a pst_scheme \<Rightarrow> ((bool \<times> int) option \<times> 'a pst_scheme) res" where
  "dispatch i r s = bnd (scheduler_pick i s) (\<lambda>(v, s).
     case v of None \<Rightarrow> Inr (None, s)
     | Some v \<Rightarrow> bnd (resume_proc i r s) (\<lambda>s.
         bnd (case r of Slept (Some l) _ _ \<Rightarrow> release l s | _ \<Rightarrow> Inr s) (\<lambda>s. Inr (Some v, s))))"

text \<open>The current process goes from \<^verbatim>\<open>yield\<close>, or from \<^verbatim>\<open>sleep\<close> under a lock it has just taken, to the scheduler.\<close>

definition yield_away :: "nat \<Rightarrow> bool \<times> int \<Rightarrow> 'a pst_scheme \<Rightarrow> (resume \<times> 'a pst_scheme) res" where
  "yield_away p v s = bnd (yield_begin p s) (\<lambda>s.
     bnd (scheduler_back p v s) (\<lambda>s'. Inr (Yielded (noff (cpus s)) (intena (cpus s)), s')))"

definition sleep_away :: "nat \<Rightarrow> chan \<Rightarrow> lockid option \<Rightarrow> bool \<times> int \<Rightarrow> 'a pst_scheme \<Rightarrow> (resume \<times> 'a pst_scheme) res" where
  "sleep_away p ch lk v s = bnd (case lk of None \<Rightarrow> Inr s | Some l \<Rightarrow> acquire l s) (\<lambda>s.
     bnd (sleep_begin p ch lk s) (\<lambda>s.
     bnd (scheduler_back p v s) (\<lambda>s'. Inr (Slept lk (noff (cpus s)) (intena (cpus s)), s'))))"

inductive sched_step :: "'a pst_scheme \<times> (nat \<Rightarrow> resume) \<times> (bool \<times> int)
    \<Rightarrow> 'a pst_scheme \<times> (nat \<Rightarrow> resume) \<times> (bool \<times> int) \<Rightarrow> bool" where
  run: "myproc s = None \<Longrightarrow> i < N_PROC \<Longrightarrow> dispatch i (r i) s = Inr (Some v', s') \<Longrightarrow> sched_step (s, r, v) (s', r, v')"
| skip: "myproc s = None \<Longrightarrow> i < N_PROC \<Longrightarrow> dispatch i (r i) s = Inr (None, s') \<Longrightarrow> sched_step (s, r, v) (s', r, v)"
| yld: "myproc s = Some p \<Longrightarrow> yield_away p v s = Inr (q, s') \<Longrightarrow> sched_step (s, r, v) (s', r(p := q), v)"
| slp: "myproc s = Some p \<Longrightarrow> \<forall>i. lk \<noteq> Some (ProcLock i) \<Longrightarrow> sleep_away p ch lk v s = Inr (q, s')
     \<Longrightarrow> sched_step (s, r, v) (s', r(p := q), v)"
| wake: "wakeup ch s = Inr s' \<Longrightarrow> sched_step (s, r, v) (s', r, v)"
| kil: "kill pid s = Inr (res, s') \<Longrightarrow> sched_step (s, r, v) (s', r, v)"
| intr: "sched_step (s, r, v) (s\<lparr>csr := (if b then intr_on (csr s) else intr_off (csr s))\<rparr>, r, v)"

text \<open>
  Between steps no lock is held, exactly the current process is running, and a process that was left waiting holds one lock, its own,
  when the scheduler returns to it.
\<close>

definition saved_ok :: "resume \<Rightarrow> bool" where
  "saved_ok r = (case r of Fresh \<Rightarrow> True | Yielded n i \<Rightarrow> n = 1
     | Slept lk n i \<Rightarrow> n = 1 \<and> (\<forall>p. lk \<noteq> Some (ProcLock p)))"

definition sched_inv :: "'a pst_scheme \<times> (nat \<Rightarrow> resume) \<times> (bool \<times> int) \<Rightarrow> bool" where
  "sched_inv = (\<lambda>(s, r, v). noff (cpus s) = 0 \<and> (\<forall>lk. lock_free lk s) \<and> (\<forall>p. saved_ok (r p)) \<and>
     (\<forall>p<N_PROC. p_status (procs s p) = RUNNING \<longleftrightarrow> myproc s = Some p) \<and>
     (\<forall>p. myproc s = Some p \<longrightarrow> p < N_PROC \<and> snd v = 1))"

section \<open>The processor across a switch\<close>

definition with_intr :: "bool \<Rightarrow> 'a mach_scheme \<Rightarrow> 'a mach_scheme" where
  "with_intr i s = s\<lparr>csr := (if i then intr_on (csr s) else intr_off (csr s)), cpus := (cpus s)\<lparr>intena := i\<rparr>\<rparr>"

lemma intr_off_on [simp]: "intr_off (intr_on c) = intr_off c" "intr_off (intr_off c) = intr_off c"
proof -
  have "(sstatus c OR SSTATUS_SIE) AND NOT SSTATUS_SIE = sstatus c AND NOT SSTATUS_SIE"
    "sstatus c AND NOT SSTATUS_SIE AND NOT SSTATUS_SIE = sstatus c AND NOT SSTATUS_SIE"
    by (auto intro!: bit_word_eqI simp: bit_simps)
  then show "intr_off (intr_on c) = intr_off c" "intr_off (intr_off c) = intr_off c"
    by (simp_all add: intr_off_def intr_on_def r_sstatus_def w_sstatus_def)
qed

lemma restore_held:
  "noff (cpus s) = 0 \<Longrightarrow> restore_cpu 1 i (held lk s) = held lk (with_intr i s)"
  by (cases s) (auto simp: restore_cpu_def held_def with_intr_def)

definition set_current :: "nat option \<Rightarrow> 'a mach_scheme \<Rightarrow> 'a mach_scheme" where
  "set_current p s = s\<lparr>cpus := (cpus s)\<lparr>cpu_proc := p\<rparr>\<rparr>"

lemma set_current_held: "set_current p (held lk s) = held lk (set_current p s)"
  by (cases s) (auto simp: set_current_def held_def)

lemma back_held:
  assumes "noff (cpus s) = 0"
  shows "(held lk s)\<lparr>cpus := (cpus (held lk s))\<lparr>noff := 1, intena := i, cpu_proc := None\<rparr>\<rparr> = held lk (with_intr i (set_current None s))"
  using assms by (cases s) (auto simp: held_def with_intr_def set_current_def)

lemma cpu_ok_0 [simp]: "noff (cpus s) = 0 \<Longrightarrow> cpu_ok s"
  by (simp add: cpu_ok_def)

lemma with_intr_simps [simp]:
  "lock_free lk (with_intr i s) = lock_free lk s" "noff (cpus (with_intr i s)) = noff (cpus s)"
  by (simp_all add: with_intr_def lock_free_def)

lemma set_current_simps [simp]:
  "lock_free lk (set_current q s) = lock_free lk s" "noff (cpus (set_current q s)) = noff (cpus s)"
  "csr (set_current q s) = csr s"
  by (simp_all add: set_current_def lock_free_def)

lemma switch_pst [simp]:
  "procs (with_intr i s) = procs s" "procs (set_current q s) = procs s"
  "myproc (with_intr i s) = myproc s" "myproc (set_current q s) = q"
  "set_proc p f (with_intr i s) = with_intr i (set_proc p f s)"
  by (cases s; simp add: with_intr_def set_current_def myproc_def mycpu_def set_proc_def)+

lemma set_proc_fields [simp]:
  "noff (cpus (set_proc p f s)) = noff (cpus s)" "csr (set_proc p f s) = csr s" "cpus (set_proc p f s) = cpus s"
  by (simp_all add: set_proc_def)

lemma pick_eq:
  assumes "noff (cpus s) = 0" "lock_free (ProcLock i) s"
  shows "scheduler_pick i s = Inr (if p_status (procs s i) \<noteq> RUNNABLE then (None, settle s)
    else (Some (intr_get (csr s), 1), held (ProcLock i) (set_current (Some i) (set_proc i (p_status_update (\<lambda>_. RUNNING)) s))))"
proof -
  have "noff (cpus (held lk s)) = 1" "intena (cpus (held lk s)) = intr_get (csr s)" for lk
    using assms by (simp_all add: held_def)
  then show ?thesis
    using assms by (simp add: scheduler_pick_def acquire_held release_held mycpu_def lock_simps set_current_held[symmetric])
      (simp add: set_current_def set_proc_def held_def)
qed

lemma back_eq:
  assumes "noff (cpus s) = 0" "lock_free (ProcLock p) s"
  shows "scheduler_back p (i, 1) (held (ProcLock p) s) = Inr (settle (with_intr i (set_current None s)))"
  using assms by (simp add: scheduler_back_def back_held release_held)

text \<open>Coming out of a switch changes nothing that the protocol depends on.\<close>

definition same_sched :: "'a pst_scheme \<Rightarrow> 'a pst_scheme \<Rightarrow> bool" where
  "same_sched s s' \<longleftrightarrow> noff (cpus s') = noff (cpus s) \<and> (\<forall>lk. lock_free lk s' = lock_free lk s) \<and>
     (\<forall>p. p_status (procs s' p) = p_status (procs s p)) \<and> myproc s' = myproc s"

lemma resume_eq:
  assumes "noff (cpus s) = 0" "\<forall>lk. lock_free lk s" "saved_ok r"
  shows "\<exists>s'. bnd (resume_proc p r (held (ProcLock p) s)) (\<lambda>s. case r of Slept (Some l) _ _ \<Rightarrow> release l s | _ \<Rightarrow> Inr s) = Inr s' \<and>
    same_sched s s'"
proof (cases r)
  case Fresh
  then show ?thesis using assms by (simp add: resume_proc_def release_held same_sched_def)
next
  case (Yielded n i)
  then show ?thesis
    using assms by (simp add: saved_ok_def resume_proc_def restore_held release_held same_sched_def)
next
  case (Slept lk n i)
  let ?t = "with_intr i (set_proc p (p_chan_update (\<lambda>_. None)) s)"
  have n: "n = 1" using assms Slept by (simp add: saved_ok_def)
  have t: "cpu_ok ?t" "lock_free l ?t" for l using assms by simp_all
  show ?thesis
  proof (cases lk)
    case None
    then have "resume_proc p r (held (ProcLock p) s) = Inr (settle ?t)"
      using Slept n assms t by (simp add: resume_proc_def sleep_end_def restore_held lock_simps release_held)
    then show ?thesis using Slept None by (simp add: same_sched_def set_proc_def)
  next
    case (Some l)
    then have "l \<noteq> ProcLock p" using assms Slept by (auto simp: saved_ok_def)
    then have "resume_proc p r (held (ProcLock p) s) = Inr (held l ?t)"
      using Slept n Some assms t
      by (simp add: resume_proc_def sleep_end_def restore_held acquire_held lock_simps held_commute[of _ l] release_held)
    then show ?thesis using Slept Some t by (simp add: release_held same_sched_def set_proc_def)
  qed
qed

section \<open>The invariant\<close>

lemma dispatch_inv:
  assumes inv: "sched_inv (s, r, v)" and cur: "myproc s = None" and i: "i < N_PROC"
  shows "\<exists>v' s'. dispatch i (r i) s = Inr (v', s') \<and>
    (if p_status (procs s i) = RUNNABLE then \<exists>w. v' = Some w \<and> sched_inv (s', r, w) \<and> myproc s' = Some i
     else v' = None \<and> sched_inv (s', r, v) \<and> myproc s' = None)"
proof -
  let ?t = "set_current (Some i) (set_proc i (p_status_update (\<lambda>_. RUNNING)) s)"
  have s: "noff (cpus s) = 0" "\<forall>lk. lock_free lk s" "saved_ok (r i)"
    using inv by (auto simp: sched_inv_def)
  show ?thesis
  proof (cases "p_status (procs s i) = RUNNABLE")
    case True
    have "noff (cpus ?t) = 0" "\<forall>lk. lock_free lk ?t"
      using s by simp_all
    from resume_eq[OF this s(3), of i] obtain s' where
      run: "bnd (resume_proc i (r i) (held (ProcLock i) ?t)) (\<lambda>s. case r i of Slept (Some l) _ _ \<Rightarrow> release l s | _ \<Rightarrow> Inr s) = Inr s'"
      and same: "same_sched ?t s'" by blast
    have "dispatch i (r i) s = Inr (Some (intr_get (csr s), 1), s')"
      using s True run by (simp add: dispatch_def pick_eq bnd_assoc[symmetric])
    moreover have "sched_inv (s', r, (intr_get (csr s), 1))" "myproc s' = Some i"
      using inv same cur i by (auto simp: sched_inv_def same_sched_def set_proc_def)
    ultimately show ?thesis using True by auto
  next
    case False
    then have "dispatch i (r i) s = Inr (None, settle s)"
      using s by (simp add: dispatch_def pick_eq)
    moreover have "sched_inv (settle s, r, v)"
      using inv by (auto simp: sched_inv_def)
    ultimately show ?thesis using False cur by simp
  qed
qed

lemma away_inv:
  assumes inv: "sched_inv (s, r, v)" and cur: "myproc s = Some p" and q: "saved_ok q" and st: "p_status (f (procs s p)) \<noteq> RUNNING"
  shows "\<exists>s'. scheduler_back p v (held (ProcLock p) (set_proc p f s)) = Inr s' \<and> sched_inv (s', r(p := q), v) \<and> myproc s' = None"
proof -
  obtain i where v: "v = (i, 1)" using inv cur by (cases v) (auto simp: sched_inv_def)
  have "noff (cpus (set_proc p f s)) = 0" "lock_free (ProcLock p) (set_proc p f s)"
    using inv by (simp_all add: sched_inv_def)
  note bk = back_eq[OF this, of i]
  have "sched_inv (settle (with_intr i (set_current None (set_proc p f s))), r(p := q), v)"
    using inv cur q st by (auto simp: sched_inv_def set_proc_def)
  then show ?thesis using bk v by simp
qed

lemma yield_away_inv:
  assumes inv: "sched_inv (s, r, v)" and cur: "myproc s = Some p"
  shows "\<exists>q s'. yield_away p v s = Inr (q, s') \<and> sched_inv (s', r(p := q), v) \<and> myproc s' = None"
proof -
  let ?s = "held (ProcLock p) (set_proc p (p_status_update (\<lambda>_. RUNNABLE)) s)"
  have beg: "yield_begin p s = Inr ?s"
    using inv by (simp add: yield_begin_def sched_inv_def acquire_held lock_simps)
  have "saved_ok (Yielded (noff (cpus ?s)) (intena (cpus ?s)))"
    using inv by (simp add: saved_ok_def sched_inv_def held_def)
  from away_inv[OF inv cur this, of "p_status_update (\<lambda>_. RUNNABLE)"] beg show ?thesis
    by (auto simp: yield_away_def)
qed

lemma sleep_begin_eq:
  assumes inv: "sched_inv (s, r, v)" and lk: "\<forall>i. lk \<noteq> Some (ProcLock i)"
  shows "bnd (case lk of None \<Rightarrow> Inr s | Some l \<Rightarrow> acquire l s) (sleep_begin p ch lk) =
    Inr (held (ProcLock p) (set_proc p (\<lambda>pr. pr\<lparr>p_chan := Some ch, p_status := SLEEPING\<rparr>) s))"
proof (cases lk)
  case None
  then show ?thesis using inv by (simp add: sleep_begin_def sched_inv_def acquire_held lock_simps)
next
  case (Some l)
  have "l \<noteq> ProcLock p" using lk Some by auto
  then show ?thesis
    using inv Some
    by (simp add: sleep_begin_def sched_inv_def acquire_held lock_simps held_commute[of _ "ProcLock p"] release_held)
qed

lemma sleep_away_inv:
  assumes inv: "sched_inv (s, r, v)" and cur: "myproc s = Some p" and lk: "\<forall>i. lk \<noteq> Some (ProcLock i)"
  shows "\<exists>q s'. sleep_away p ch lk v s = Inr (q, s') \<and> sched_inv (s', r(p := q), v) \<and> myproc s' = None"
proof -
  let ?f = "\<lambda>pr. pr\<lparr>p_chan := Some ch, p_status := SLEEPING\<rparr>"
  let ?s = "held (ProcLock p) (set_proc p ?f s)"
  have "saved_ok (Slept lk (noff (cpus ?s)) (intena (cpus ?s)))"
    using inv lk by (simp add: saved_ok_def sched_inv_def held_def)
  from away_inv[OF inv cur this, of ?f] show ?thesis
    using sleep_begin_eq[OF inv lk, of p ch]
    by (auto simp: sleep_away_def bnd_assoc[symmetric])
qed

lemma kill_loop_inv:
  assumes "kill_loop ps pid s = Inr (res, s')" "noff (cpus s) = 0" "\<forall>lk. lock_free lk s"
  shows "noff (cpus s') = 0 \<and> (\<forall>lk. lock_free lk s') \<and> myproc s' = myproc s \<and>
    (\<forall>p. p_status (procs s' p) = RUNNING \<longleftrightarrow> p_status (procs s p) = RUNNING)"
  using assms
  by (induction ps) (auto simp: acquire_held release_held lock_simps Let_def set_proc_def split: if_splits)

lemma sched_step_inv: "sched_step x y \<Longrightarrow> sched_inv x \<Longrightarrow> sched_inv y"
proof (induction rule: sched_step.induct)
  case (run s i r v' s' v)
  then show ?case using dispatch_inv[OF run(4,1,2)] by (auto split: if_splits)
next
  case (skip s i r s' v)
  then show ?case using dispatch_inv[OF skip(4,1,2)] by (auto split: if_splits)
next
  case (yld s p v q s' r)
  then show ?case using yield_away_inv[OF yld(3,1)] by auto
next
  case (slp s p lk ch v q s' r)
  then show ?case using sleep_away_inv[OF slp(4,1,2), of ch] by auto
next
  case (wake ch s s' r v)
  then have "s' = settle (woken ch [0..<N_PROC] s)"
    using wakeup_woken[of s ch] by (auto simp: sched_inv_def procs_free_def)
  with wake(2) show ?case by (auto simp: sched_inv_def woken_def)
next
  case (kil pid s res s' r v)
  then show ?case using kill_loop_inv[OF kil(1)[unfolded kill_def]] by (auto simp: sched_inv_def)
next
  case (intr s r v b)
  then show ?case by (auto simp: sched_inv_def lock_free_def myproc_def mycpu_def)
qed

text \<open>
  C15: the scheduling protocol works.  However the scheduler's choices, the processes' \<^verbatim>\<open>yield\<close> and \<^verbatim>\<open>sleep\<close> calls (alone or under any
  lock), wakeups, kills and interrupt settings follow one another, exactly the current process is in state \<^verbatim>\<open>RUNNING\<close> and no lock
  is left held.  No switch ever fails: the scheduler can always run any runnable process, and the current process can always yield
  or go to sleep, on any channel and under any lock but a process lock; in each case the lock handed over
  through \<^verbatim>\<open>swtch\<close> is released on the other side.
\<close>

theorem scheduling_protocol:
  assumes "sched_step\<^sup>*\<^sup>* (s0, r0, v0) (s, r, v)" and "sched_inv (s0, r0, v0)"
  shows "(\<forall>p<N_PROC. p_status (procs s p) = RUNNING \<longleftrightarrow> myproc s = Some p) \<and> (\<forall>lk. lock_free lk s) \<and>
    (myproc s = None \<longrightarrow> (\<forall>i<N_PROC. p_status (procs s i) = RUNNABLE \<longrightarrow>
       (\<exists>w s'. dispatch i (r i) s = Inr (Some w, s') \<and> myproc s' = Some i))) \<and>
    (\<forall>p. myproc s = Some p \<longrightarrow> (\<exists>q s'. yield_away p v s = Inr (q, s') \<and> myproc s' = None) \<and>
       (\<forall>ch lk. (\<forall>i. lk \<noteq> Some (ProcLock i)) \<longrightarrow> (\<exists>q s'. sleep_away p ch lk v s = Inr (q, s') \<and> myproc s' = None)))"
proof -
  have inv: "sched_inv (s, r, v)"
    using assms by (induction rule: rtranclp_induct) (auto intro: sched_step_inv)
  have "\<exists>w s'. dispatch i (r i) s = Inr (Some w, s') \<and> myproc s' = Some i"
    if "myproc s = None" "i < N_PROC" "p_status (procs s i) = RUNNABLE" for i
    using dispatch_inv[OF inv that(1,2)] that(3) by auto
  moreover have "\<exists>q s'. yield_away p v s = Inr (q, s') \<and> myproc s' = None" if "myproc s = Some p" for p
    using yield_away_inv[OF inv that] by blast
  moreover have "\<exists>q s'. sleep_away p ch lk v s = Inr (q, s') \<and> myproc s' = None"
    if "myproc s = Some p" "\<forall>i. lk \<noteq> Some (ProcLock i)" for p ch lk
    using sleep_away_inv[OF inv that] by blast
  moreover have "(\<forall>p<N_PROC. p_status (procs s p) = RUNNING \<longleftrightarrow> myproc s = Some p) \<and> (\<forall>lk. lock_free lk s)"
    using inv by (simp add: sched_inv_def)
  ultimately show ?thesis by blast
qed

definition one_runnable :: pst where
  "one_runnable = set_proc 3 (p_status_update (\<lambda>_. RUNNABLE)) reset_pst"

theorem scheduling_protocol_witness:
  "sched_inv (one_runnable, \<lambda>_. Fresh, (False, 0)) \<and>
   (\<exists>s v. sched_step\<^sup>*\<^sup>* (one_runnable, \<lambda>_. Fresh, (False, 0)) (s, \<lambda>_. Fresh, v) \<and> myproc s = Some 3 \<and>
     p_status (procs s 3) = RUNNING \<and> (\<exists>q s'. sleep_away 3 ChanTicks None v s = Inr (q, s') \<and> myproc s' = None))"
proof -
  let ?r = "\<lambda>_ :: nat. Fresh"
  have inv: "sched_inv (one_runnable, ?r, (False, 0))" and none: "myproc one_runnable = None"
    and st: "p_status (procs one_runnable 3) = RUNNABLE"
    by (auto simp: sched_inv_def one_runnable_def lock_free_def saved_ok_def myproc_def mycpu_def set_proc_def)
  have three: "(3 :: nat) < N_PROC" by simp
  have "\<forall>i<N_PROC. p_status (procs one_runnable i) = RUNNABLE \<longrightarrow>
      (\<exists>w s'. dispatch i Fresh one_runnable = Inr (Some w, s') \<and> myproc s' = Some i)"
    using scheduling_protocol[OF rtranclp.rtrancl_refl inv] none by blast
  from this[rule_format, OF three st] obtain w s' where
    run: "dispatch 3 Fresh one_runnable = Inr (Some w, s')" and cur: "myproc s' = Some 3" by blast
  have reach: "sched_step\<^sup>*\<^sup>* (one_runnable, ?r, (False, 0)) (s', ?r, w)"
    by (rule r_into_rtranclp) (rule sched_step.run[OF none three run])
  note all = scheduling_protocol[OF reach inv]
  have "p_status (procs s' 3) = RUNNING" using all three cur by blast
  moreover have "\<exists>q s''. sleep_away 3 ChanTicks None w s' = Inr (q, s'') \<and> myproc s'' = None"
    using all cur by blast
  ultimately show ?thesis using inv reach cur by blast
qed

end
