(* ===== verification/Xv6_Printf.thy ===== *)
theory Xv6_Printf
  imports Xv6_Uart
begin

text \<open>
  The numbers that \<^verbatim>\<open>printf\<close> of \<^verbatim>\<open>kernel/printf.c\<close> prints, read back.
\<close>

declare printint_digits.simps [simp del]

text \<open>Reading a number: the value of a digit, of digits from the least significant one on, and of a signed numeral.\<close>

definition digit :: "char \<Rightarrow> nat" where
  "digit c = length (takeWhile (\<lambda>d. d \<noteq> c) digits)"

primrec digits_val :: "nat \<Rightarrow> string \<Rightarrow> nat" where
  "digits_val base [] = 0"
| "digits_val base (c # cs) = digit c + base * digits_val base cs"

definition read_int :: "nat \<Rightarrow> string \<Rightarrow> int" where
  "read_int base cs = (case cs of [] \<Rightarrow> 0
     | c # ds \<Rightarrow> if c = CHR ''-'' then - int (digits_val base (rev ds)) else int (digits_val base (rev cs)))"

lemma digit_digits: "k < 16 \<Longrightarrow> digit (digits ! k) = k"
proof -
  assume "k < 16"
  then have "k \<in> set [0..<16]" by simp
  moreover have "\<forall>k\<in>set [0..<16]. digit (digits ! k) = k"
    by (simp add: upt_rec digit_def digits_def)
  ultimately show ?thesis by blast
qed

lemma digits_not_minus: "k < 16 \<Longrightarrow> digits ! k \<noteq> CHR ''-''"
proof -
  assume "k < 16"
  then have "digits ! k \<in> set digits" by (intro nth_mem) (simp add: digits_def)
  then show ?thesis by (auto simp: digits_def)
qed

lemma printint_digits_val:
  "1 < base \<Longrightarrow> base \<le> 16 \<Longrightarrow> digits_val (unat base) (printint_digits x base) = unat x"
proof (induction x base rule: printint_digits.induct)
  case (1 x base)
  have m: "unat (x mod base) < 16" "digit (digits ! unat (x mod base)) = unat x mod unat base"
  proof -
    have "unat x mod unat base < unat base"
      using 1(2) by (intro mod_less_divisor) (auto simp: word_less_nat_alt)
    then show "unat (x mod base) < 16"
      using 1(3) by (simp add: unat_mod word_le_nat_alt)
    then show "digit (digits ! unat (x mod base)) = unat x mod unat base"
      by (simp add: digit_digits unat_mod)
  qed
  show ?case
  proof (cases "x div base = 0")
    case True
    then have "unat x div unat base = 0" by (metis unat_0 unat_div)
    then have "unat x mod unat base = unat x"
      by (metis div_mult_mod_eq add_0 mult_0)
    with True m show ?thesis
      by (subst printint_digits.simps) (simp add: Let_def)
  next
    case False
    then have "digits_val (unat base) (printint_digits (x div base) base) = unat x div unat base"
      using 1 by (simp add: unat_div)
    with False 1(2) m show ?thesis
      by (subst printint_digits.simps) (simp add: Let_def)
  qed
qed

lemma printint_digits_chars: "base \<le> 16 \<Longrightarrow> 1 < base \<Longrightarrow> c \<in> set (printint_digits x base) \<Longrightarrow> c \<noteq> CHR ''-''"
proof (induction x base rule: printint_digits.induct)
  case (1 x base)
  have "unat x mod unat base < unat base"
    using 1(3) by (intro mod_less_divisor) (auto simp: word_less_nat_alt)
  then have "unat (x mod base) < 16"
    using 1(2) by (simp add: unat_mod word_le_nat_alt)
  then have d: "digits ! unat (x mod base) \<noteq> CHR ''-''" by (rule digits_not_minus)
  show ?case
  proof (cases "c = digits ! unat (x mod base)")
    case False
    then have "c \<in> set (printint_digits (x div base) base) \<and> x div base \<noteq> 0 \<and> 1 < base"
      using 1(4) by (subst (asm) printint_digits.simps) (auto simp: Let_def split: if_splits)
    then show ?thesis using 1(1)[OF refl refl] 1(2,3) by blast
  qed (use d in simp)
qed

lemma printint_digits_length:
  "1 < base \<Longrightarrow> unat x < unat base ^ n \<Longrightarrow> 0 < n \<Longrightarrow> length (printint_digits x base) \<le> n"
proof (induction x base arbitrary: n rule: printint_digits.induct)
  case (1 x base)
  show ?case
  proof (cases "x div base = 0")
    case False
    then have "unat x div unat base \<noteq> 0" by (metis unat_div unat_eq_zero)
    then have "unat base \<le> unat x" by (metis div_less not_le)
    with 1(3,4) obtain m where n: "n = Suc m" "0 < m"
      by (cases n; cases "n = 1") auto
    have "unat (x div base) < unat base ^ m"
      using 1(3) n(1) by (simp add: unat_div less_mult_imp_div_less mult.commute)
    then have "length (printint_digits (x div base) base) \<le> m"
      using 1(1)[OF refl refl _ 1(2) _ n(2)] False 1(2) by simp
    then show ?thesis
      using False 1(2) n by (subst printint_digits.simps) (simp add: Let_def)
  next
    case True
    then show ?thesis using 1(4) by (subst printint_digits.simps) (simp add: Let_def)
  qed
qed

lemma unat_u32_of_int: "0 \<le> i \<Longrightarrow> i < 2 ^ 32 \<Longrightarrow> unat (u32_of_int i) = nat i"
  unfolding unat_eq_nat_uint u32_of_int_def by (simp add: uint_word_of_int_eq take_bit_int_eq_self)

text \<open>
  C16: \<^verbatim>\<open>printint\<close> prints what it is given: for every \<^verbatim>\<open>int\<close>, the most negative one included, reading back the characters it sends gives the
  number, in decimal and in hexadecimal, and the characters fit in its buffer of 16.
\<close>

theorem printint_reads_back:
  assumes "base = 10 \<or> base = 16" and "- (2 ^ 31) \<le> xx" "xx < 2 ^ 31"
  shows "read_int (unat base) (printint_str xx base True) = xx \<and> length (printint_str xx base True) \<le> 16"
proof -
  have base: "1 < base" "base \<le> 16" using assms(1) by auto
  let ?x = "if xx < 0 then u32_of_int (- xx) else u32_of_int xx"
  let ?ds = "printint_digits ?x base"
  have str: "printint_str xx base True = (if xx < 0 then ''-'' else []) @ rev ?ds"
    by (simp add: printint_str_def Let_def)
  have x: "unat ?x = nat \<bar>xx\<bar>"
    using assms(2,3) by (simp add: unat_u32_of_int)
  have ne: "?ds \<noteq> []" by (subst printint_digits.simps) (simp add: Let_def)
  have "read_int (unat base) (printint_str xx base True) = xx"
  proof (cases "xx < 0")
    case True
    then show ?thesis
      using x printint_digits_val[OF base, of ?x] by (simp add: str read_int_def)
  next
    case False
    obtain c cs where c: "rev ?ds = c # cs" using ne by (metis list.exhaust rev_is_Nil_conv)
    then have "c \<in> set ?ds" by (metis list.set_intros(1) set_rev)
    then have "c \<noteq> CHR ''-''" using printint_digits_chars[OF base(2,1)] by blast
    with False c x printint_digits_val[OF base, of ?x] show ?thesis
      by (simp add: str read_int_def)
  qed
  moreover have "length ?ds \<le> 15"
  proof (rule printint_digits_length[OF base(1)])
    have "unat ?x \<le> 2 ^ 31" using x assms(2,3) by (simp add: nat_le_iff)
    then show "unat ?x < unat base ^ 15" using assms(1) by (auto simp del: x)
  qed simp
  ultimately show ?thesis by (cases "xx < 0") (simp_all add: str)
qed

theorem printint_reads_back_witness:
  "read_int 10 (printint_str (- 2147483648) 10 True) = - 2147483648"
  using printint_reads_back[of 10 "- 2147483648"] by simp

end
