(* ===== verification/Xv6_Ring.thy ===== *)
theory Xv6_Ring
  imports Xv6_Prelude
begin

text \<open>
  The ring buffers of the kernel: pipes, the transmit buffer of the UART and the input of the console all keep two
  free-running counters, which wrap around with the width of their type, and use them modulo the size of the
  buffer.  The locale holds for every size that divides the range of the counters.
\<close>

text \<open>The elements from the counter \<open>r\<close> up to \<open>w\<close>.\<close>

definition ring_list :: "'w::len word \<Rightarrow> (nat \<Rightarrow> 'b) \<Rightarrow> 'w word \<Rightarrow> 'w word \<Rightarrow> 'b list" where
  "ring_list n buf r w = map (\<lambda>k. buf (unat ((r + of_nat k) mod n))) [0..<unat (w - r)]"

lemma length_ring_list [simp]: "length (ring_list n buf r w) = unat (w - r)"
  by (simp add: ring_list_def)

lemma ring_list_empty [simp]: "ring_list n buf r r = []"
  by (simp add: ring_list_def)

lemma unat_step: "w \<noteq> r \<Longrightarrow> unat (w - r) = Suc (unat (w - (r + 1)))" for w r :: "'w::len word"
proof -
  assume "w \<noteq> r"
  then have "w - r \<noteq> 0" by simp
  then have "unat (w - r - 1) = unat (w - r) - 1"
    by (simp add: unat_minus_one)
  moreover have "unat (w - r) \<noteq> 0" using \<open>w - r \<noteq> 0\<close> by (simp add: unat_eq_0)
  ultimately show ?thesis by (simp add: algebra_simps)
qed

locale ring =
  fixes n :: "'w::len word"
  assumes size_dvd: "unat n dvd 2 ^ LENGTH('w)" and size_pos: "n \<noteq> 0"
begin

lemma slot: "unat ((r + of_nat k) mod n) = (unat r + k) mod unat n"
  using size_dvd by (simp add: unat_mod unat_word_ariths unat_of_nat mod_mod_cancel mod_add_right_eq take_bit_eq_mod)

lemma slot_0: "unat (r mod n) = unat r mod unat n"
  using slot[of r 0] by simp

lemma slot_inj: "k < j \<Longrightarrow> j < k + unat n \<Longrightarrow> unat ((r + of_nat k) mod n) \<noteq> unat ((r + of_nat j) mod n)"
proof
  assume kj: "k < j" "j < k + unat n" and "unat ((r + of_nat k) mod n) = unat ((r + of_nat j) mod n)"
  then have "(unat r + k) mod unat n = (unat r + j) mod unat n"
    by (simp only: slot)
  then have "unat n dvd j - k"
    using kj(1) by (metis mod_eq_dvd_iff_nat add_le_cancel_left diff_cancel2 add.commute less_imp_le)
  then show False
    using kj by (auto dest: dvd_imp_le)
qed

text \<open>Storing at the write counter appends.\<close>

lemma put:
  assumes "unat (w - r) < unat n"
  shows "ring_list n (buf(unat (w mod n) := c)) r (w + 1) = ring_list n buf r w @ [c]"
    "unat (w + 1 - r) = Suc (unat (w - r))"
proof -
  have "w + 1 \<noteq> r"
  proof
    assume "w + 1 = r"
    then have "w - r = - 1" by (simp add: algebra_simps)
    then have "n \<le> w - r"
      using word_n1_ge[of n] by simp
    with assms show False by (simp add: word_le_nat_alt)
  qed
  then show len: "unat (w + 1 - r) = Suc (unat (w - r))"
    using unat_step[of "w + 1" r] by (simp add: algebra_simps)
  have w: "w = r + of_nat (unat (w - r))"
    by simp
  have "(buf(unat (w mod n) := c)) (unat ((r + of_nat k) mod n)) = buf (unat ((r + of_nat k) mod n))"
    if "k < unat (w - r)" for k
    using slot_inj[of k "unat (w - r)" r] that assms by simp
  then show "ring_list n (buf(unat (w mod n) := c)) r (w + 1) = ring_list n buf r w @ [c]"
    by (simp add: ring_list_def len)
qed

text \<open>The element at the read counter is the first; the one before the write counter is the last.\<close>

lemma get: "w \<noteq> r \<Longrightarrow> ring_list n buf r w = buf (unat (r mod n)) # ring_list n buf (r + 1) w"
  by (simp add: ring_list_def unat_step[of w r] map_upt_Suc add.assoc del: upt_Suc)

lemma unput: "w \<noteq> r \<Longrightarrow> ring_list n buf r w = ring_list n buf r (w - 1) @ [buf (unat ((w - 1) mod n))]"
proof -
  assume "w \<noteq> r"
  then have "unat (w - r) = Suc (unat (w - 1 - r))"
    using unat_step[of w r] by (simp add: algebra_simps)
  then show ?thesis
    by (simp add: ring_list_def)
qed

lemma split_at:
  assumes "unat (m - r) \<le> unat (w - r)"
  shows "ring_list n buf r w = ring_list n buf r m @ ring_list n buf m w"
proof -
  have "w - m = (w - r) - (m - r)" by simp
  then have "unat (w - m) = unat (w - r) - unat (m - r)"
    using assms by (metis unat_sub word_le_nat_alt)
  then have len: "unat (w - r) = unat (m - r) + unat (w - m)"
    using assms by simp
  show ?thesis
  proof (rule nth_equalityI)
    fix i assume i: "i < length (ring_list n buf r w)"
    have "m + of_nat (i - unat (m - r)) = r + of_nat i" if "unat (m - r) \<le> i"
      using that by (simp add: of_nat_diff)
    then show "ring_list n buf r w ! i = (ring_list n buf r m @ ring_list n buf m w) ! i"
      using i len by (simp add: nth_append) (auto simp: ring_list_def add.commute)
  qed (simp add: len)
qed

lemma get_many:
  assumes "j \<le> unat (w - r)"
  shows "ring_list n buf (r + of_nat j) w = drop j (ring_list n buf r w)" "unat (w - (r + of_nat j)) = unat (w - r) - j"
proof -
  have j: "unat (r + of_nat j - r) = j"
    using assms order_le_less_trans[OF assms unsigned_less] by (simp add: unat_of_nat)
  then show "ring_list n buf (r + of_nat j) w = drop j (ring_list n buf r w)"
    using split_at[of "r + of_nat j" r w buf] assms by simp
  then have "length (ring_list n buf (r + of_nat j) w) = length (drop j (ring_list n buf r w))"
    by (rule arg_cong)
  then show "unat (w - (r + of_nat j)) = unat (w - r) - j"
    by (simp only: length_ring_list length_drop)
qed

lemma is_full: "w = r + n \<longleftrightarrow> unat (w - r) = unat n"
  by (metis add_diff_cancel_left' diff_add_cancel add.commute word_unat_eq_iff)

end

end
