(* ===== verification/Xv6_Frame.thy ===== *)
theory Xv6_Frame
  imports Xv6_Vm_Props
begin

text \<open>
  The memory operations touch memory and the free list only: every other part of the kernel's state is as before.
  These lemmas hold without any assumption on the page tables.
\<close>

named_theorems more_frame \<open>operations that keep the rest of the state\<close>

lemma kalloc_more [more_frame]: "kalloc s = (p, s') \<Longrightarrow> phys.more s' = phys.more s"
  by (auto simp: kalloc_def Let_def split: if_splits)

lemma push_free_more [simp]: "phys.more (push_free pa s) = phys.more s"
  by (simp add: push_free_def)

lemma kfree_more [more_frame]: "kfree pa s = Inr s' \<Longrightarrow> phys.more s' = phys.more s"
  by (auto simp: kfree_def split: if_splits)

lemma walk_from_more: "walk_from i alloc pt va s = (pte, s') \<Longrightarrow> phys.more s' = phys.more s"
  by (induction i arbitrary: pt s) (auto simp: Let_def split: if_splits prod.splits dest: kalloc_more)

lemma walk_more [more_frame]: "walk pt va alloc s = (pte, s') \<Longrightarrow> phys.more s' = phys.more s"
  unfolding walk_def by (rule walk_from_more)

lemma mappages_loop_more:
  "mappages_loop pt va lim pa perm v s = Some r \<Longrightarrow> case r of Inl _ \<Rightarrow> True | Inr (_, s') \<Rightarrow> phys.more s' = phys.more s"
proof (induction rule: mappages_loop.raw_induct[rotated, consumes 1])
  case (1 f pt va lim pa perm v s r)
  show ?case
  proof (cases "v + PGSIZE \<le> lim")
    case True
    obtain pte s1 where w: "walk pt v True s = (pte, s1)" by fastforce
    show ?thesis
      using 1(2) True w walk_more[OF w] 1(1) by (fastforce split: if_splits sum.splits)
  next
    case False
    then show ?thesis using 1(2) by (auto split: if_splits)
  qed
qed

lemma mappages_more [more_frame]: "mappages pt va sz pa perm s = Inr (r, s') \<Longrightarrow> phys.more s' = phys.more s"
  unfolding mappages_def unhang_Inr by (drule mappages_loop_more) simp

lemma freewalk_from_more:
  "freewalk_from pt i s = Some r \<Longrightarrow> case r of Inl _ \<Rightarrow> True | Inr s' \<Rightarrow> phys.more s' = phys.more s"
proof (induction rule: freewalk_from.raw_induct[rotated, consumes 1])
  case (1 f pt i s r)
  then show ?case
    by (fastforce simp: Let_def bind_eq_Some_conv split: if_splits sum.splits dest: kfree_more)
qed

lemma freewalk_more [more_frame]: "freewalk pt s = Inr s' \<Longrightarrow> phys.more s' = phys.more s"
  unfolding freewalk_def unhang_Inr by (drule freewalk_from_more) simp

lemma uvmunmap_loop_more: "uvmunmap_loop pt n dofree va s = Inr s' \<Longrightarrow> phys.more s' = phys.more s"
  by (induction n arbitrary: va s)
    (fastforce simp: Let_def bnd_Inr_iff split: if_splits prod.splits dest: walk_more kfree_more)+

lemma uvmunmap_more [more_frame]: "uvmunmap pt va n dofree s = Inr s' \<Longrightarrow> phys.more s' = phys.more s"
  by (auto simp: uvmunmap_def split: if_splits dest: uvmunmap_loop_more)

lemma uvmfree_more [more_frame]: "uvmfree pt sz s = Inr s' \<Longrightarrow> phys.more s' = phys.more s"
  by (auto simp: uvmfree_def bnd_Inr_iff split: if_splits dest!: uvmunmap_more freewalk_more)

lemma uvmalloc_loop_more:
  "uvmalloc_loop pt lim xperm va s = Some r \<Longrightarrow> case r of Inl _ \<Rightarrow> True | Inr (_, s') \<Rightarrow> phys.more s' = phys.more s"
proof (induction rule: uvmalloc_loop.raw_induct[rotated, consumes 1])
  case (1 f pt lim xperm va s r)
  obtain pa s1 where k: "kalloc s = (pa, s1)" by fastforce
  show ?case
    using 1(2) k kalloc_more[OF k] 1(1)
    by (fastforce simp: bnd_Inr_iff split: if_splits sum.splits prod.splits dest!: mappages_more kfree_more)
qed

lemma uvmalloc_more [more_frame]: "uvmalloc pt oldsz newsz xperm s = Inr (r, s') \<Longrightarrow> phys.more s' = phys.more s"
  by (auto simp: uvmalloc_def unhang_Inr split: if_splits dest: uvmalloc_loop_more)

lemma uvmdealloc_more [more_frame]: "uvmdealloc pt oldsz newsz s = Inr (r, s') \<Longrightarrow> phys.more s' = phys.more s"
  by (auto simp: uvmdealloc_def bnd_Inr_iff split: if_splits dest: uvmunmap_more)

lemma copyout_mem: "copyout pt va bs len s = (r, s') \<Longrightarrow> s' = s\<lparr>mem := mem s'\<rparr>"
proof (induction pt va bs len s rule: copyout.induct)
  case (1 pt va bs len s)
  have u: "(r, s') = (if len = 0 then (0, s) else
      let va0 = PGROUNDDOWN va; pa0 = walkaddr pt va0 s in
      if pa0 = 0 then (- 1, s)
      else let n = chunk va len; s1 = s\<lparr>mem := store_bytes (mem s) (pa0 + (va - va0)) (take (unat n) bs)\<rparr> in
        copyout pt (va0 + PGSIZE) (drop (unat n) bs) (len - n) s1)"
    using 1(2)[symmetric] unfolding copyout.simps[of pt va bs len s] Let_def .
  show ?case
    using u 1(1) by (fastforce simp: Let_def split: if_splits)
qed

section \<open>Writing the memory of one process\<close>

text \<open>A write to the user pages of one root keeps every table and the memory of every other root.\<close>

lemma user_writes:
  assumes ok: "uvm_ok s R W ps" and r: "r \<in> R"
    and diff: "\<forall>x. PGROUNDDOWN x \<notin> user_page (mem s) r ` {..<2 ^ 27} \<longrightarrow> m' x = mem s x"
  shows "uvm_ok (s\<lparr>mem := m'\<rparr>) R W ps"
    "\<And>r' a. r' \<in> R \<Longrightarrow> r' \<noteq> r \<Longrightarrow> unat a < 2 ^ 39 \<Longrightarrow> umem m' r' a = umem (mem s) r' a"
proof -
  let ?s = "s\<lparr>mem := m'\<rparr>" and ?T = "user_page (mem s) r ` {..<2 ^ 27}"
  have T: "?T \<subseteq> insert 0 (opage (mem s) ` {rn \<in> W. fst rn = r})"
    using uvm_ok_user[OF ok r] user_page_opage by (fastforce simp: image_iff)
  have free: "?T \<inter> set ps = {}"
    using T uvm_okD(6)[OF ok] free_list_aligned uvm_okD(3)[OF ok] unfolding free_pages_def by blast
  have tb: "m' x = mem s x" if "PGROUNDDOWN x \<in> tables (mem s) R" for x
    using copyout_frame_tables[OF ok r diff that] .
  note wf = uvm_okD(2)[OF ok]
  have leaf: "leaf m' r' n' = leaf (mem s) r' n'" if "r' \<in> R" for r' n'
    using leaf_frame[OF wf tb that] by blast
  have tables: "tables m' R = tables (mem s) R"
    using tables_cong[OF tbl_frame[OF wf tb]] by blast
  have "pt_wf m' R"
    using pt_wf_frame[OF wf tb] by blast
  moreover have "free_list m' (klist_next s) ps"
  proof (rule free_list_frame[OF _ _ free])
    show "free_list (mem s) (klist_next s) ps"
      using uvm_okD(3)[OF ok] by (simp add: free_pages_def)
    show "mem s x = m' x" if "PGROUNDDOWN x \<notin> ?T" for x
      using diff that by simp
  qed
  ultimately have "vm_ok ?s R ps"
    using uvm_okD(8)[OF ok] by (simp add: vm_ok_def free_pages_def tables)
  then show "uvm_ok ?s R W ps"
    using leaf tables uvm_okD(6)[OF ok] by (intro uvm_ok_frame[OF ok]) auto
  fix r' a assume r': "r' \<in> R" "r' \<noteq> r" and a: "unat (a :: uint64) < 2 ^ 39"
  have "umem (mem ?s) r' a = umem (mem s) r' a"
  proof (rule umem_same[OF ok _ r'(1) a])
    fix x assume x: "(r', vpn a) \<in> W" "PGROUNDDOWN x = opage (mem s) (r', vpn a)"
    have "opage (mem s) (r', vpn a) \<notin> ?T"
    proof
      assume "opage (mem s) (r', vpn a) \<in> ?T"
      then consider "opage (mem s) (r', vpn a) = 0"
        | n where "(r, n) \<in> W" "opage (mem s) (r', vpn a) = opage (mem s) (r, n)"
        using T by auto
      then show False
        using uvm_okD(7)[OF ok] x(1) inj_onD[OF uvm_okD(5)[OF ok]] r'(2) by cases (auto simp: image_iff)
    qed
    then show "mem ?s x = mem s x"
      using diff x(2) by simp
  qed (simp add: leaf[OF r'(1)])
  then show "umem m' r' a = umem (mem s) r' a" by simp
qed

text \<open>\<^verbatim>\<open>copyout\<close> to a range that is mapped.\<close>

lemma copyout_mapped:
  assumes ok: "uvm_ok s R W ps" and r: "r \<in> R" and len: "unat va + unat len \<le> 2 ^ 39" "length bs = unat len"
    and mapped: "None \<notin> set (urange (mem s) r va (unat len))"
  obtains m' where "copyout r va bs len s = (0, s\<lparr>mem := m'\<rparr>)" "uvm_ok (s\<lparr>mem := m'\<rparr>) R W ps"
    "\<And>r' a. r' \<in> R \<Longrightarrow> unat a < 2 ^ 39 \<Longrightarrow>
       umem m' r' a = (if r' = r then uwrite (umem (mem s) r) va bs a else umem (mem s) r' a)"
proof -
  obtain res s' where run: "copyout r va bs len s = (res, s')" by fastforce
  note out = copyout_uwrite[OF uvm_okD(2)[OF ok] r uvm_ok_upages_ok[OF ok r] len refl run]
  have "\<forall>u\<in>set (urange (mem s) r va (unat len)). u \<noteq> None"
    using mapped by metis
  then have all: "takeWhile (\<lambda>u. u \<noteq> None) (urange (mem s) r va (unat len)) = urange (mem s) r va (unat len)"
    by (simp only: takeWhile_eq_all_conv)
  have diff: "\<forall>x. PGROUNDDOWN x \<notin> user_page (mem s) r ` {..<2 ^ 27} \<longrightarrow> mem s' x = mem s x"
    using out by blast
  have "copyout r va bs len s = (0, s\<lparr>mem := mem s'\<rparr>)"
    using run out mapped by simp
  then show ?thesis
    using user_writes[OF ok r diff] out[unfolded all] len(2) by (intro that[of "mem s'"]) auto
qed

end
