(* ===== verification/Xv6_Reset.thy ===== *)
theory Xv6_Reset
  imports Xv6_Trap Xv6_Locking
begin

text \<open>
  A machine after reset, for the examples: memory and devices read as zero, every lock is free, the process table is empty and
  process 0 runs with interrupts on.
\<close>

definition reset :: trst where
  "reset = \<lparr>mem = \<lambda>_. 0, klist_next = 0, kernel_pagetable = 0, csr = intr_on reset_csrs,
     cpus = reset_cpu\<lparr>cpu_proc := Some 0\<rparr>, locks = \<lambda>_. reset_lock,
     procs = \<lambda>_. reset_proc, initproc = None, next_pid = 0, first_ret = True, ticks = 0,
     sleeplocks = \<lambda>_. \<lparr>sl_locked = 0, sl_name = [], sl_pid = 0\<rparr>,
     lsr_in = \<lambda>_. 0, lsr_reads = 0, rhr_in = \<lambda>_. 0, rhr_reads = 0, uart_log = [], uart_tx_buf = \<lambda>_. 0, uart_tx_w = 0,
     uart_tx_r = 0, panicked = False,
     cons_buf = \<lambda>_. 0, cons_r = 0, cons_w = 0, cons_e = 0, devsw = \<lambda>_. \<lparr>dev_read = None, dev_write = None\<rparr>,
     bufs = \<lambda>_. \<lparr>b_prev = Head, b_next = Head, b_blockno = 0, b_dev = 0, b_refcnt = 0, b_disk = 0, b_valid = 0,
       b_data = replicate 1024 0\<rparr>,
     head_prev = Head, head_next = Head, vio_dev = \<lambda>_ _. 0, vio_log = [], disk_pages = (0, 0, 0),
     desc = \<lambda>_. \<lparr>d_addr = DmaNone, d_len = 0, d_flags = 0, d_next = 0\<rparr>, avail_idx = 0, avail_ring = \<lambda>_. 0,
     used_dev_idx = 0, used_ring = \<lambda>_. 0, disk_free = \<lambda>_. True, used_idx = 0, info_b = \<lambda>_. None, info_status = \<lambda>_. 0,
     disk_ops = \<lambda>_. \<lparr>req_type = 0, req_reserved = 0, req_sector = 0\<rparr>, platter = \<lambda>_. replicate 1024 0,
     sb = \<lparr>sb_magic = 0, sb_size = 0, sb_nblocks = 0, sb_ninodes = 0, sb_nlog = 0, sb_logstart = 0, sb_inodestart = 0,
       sb_bmapstart = 0\<rparr>,
     inodes = \<lambda>_. \<lparr>i_dev = 0, i_inum = 0, i_ref = 0, i_valid = 0, i_type = 0, i_major = 0, i_minor = 0, i_nlink = 0,
       i_size = 0, i_addrs = replicate 13 0\<rparr>,
     pipes = \<lambda>_. \<lparr>pi_readable = 1, pi_writable = 1, pi_rd = 0, pi_wt = 0, pi_buf = \<lambda>_. 0\<rparr>,
     files = \<lambda>_. \<lparr>f_type = FD_NONE, f_ref = 0, f_readable = False, f_writable = False, f_pipe = 0, f_ip = None, f_off = 0,
       f_major = 0\<rparr>,
     plic_in = \<lambda>_. 0, plic_claims = 0, plic_log = []\<rparr>"

lemma reset_ok [simp]: "cpu_ok reset" "procs_free reset" "lock_free lk reset" "myproc reset = Some 0"
  by (simp_all add: reset_def cpu_ok_def procs_free_def lock_free_def myproc_def mycpu_def)

end
