(* ===== verification/Xv6_Pipe.thy ===== *)
theory Xv6_Pipe
  imports Xv6_Ring Xv6_Frame Xv6_Reset
begin

text \<open>
  Pipes are queues of bytes.  The contents of a pipe are read off its ring buffer; \<^verbatim>\<open>pipewrite\<close> appends bytes of
  user memory to them and \<^verbatim>\<open>piperead\<close> moves bytes from their front to user memory.
\<close>

interpretation pr: ring PIPESIZE
  by unfold_locales simp_all

definition pipe_contents :: "pipe \<Rightarrow> uint8 list" where
  "pipe_contents x = ring_list PIPESIZE (pi_buf x) (pi_rd x) (pi_wt x)"

definition pipe_ok :: "pipe \<Rightarrow> bool" where
  "pipe_ok x \<longleftrightarrow> length (pipe_contents x) \<le> 512"

lemma length_pipe_contents: "length (pipe_contents x) = unat (pi_wt x - pi_rd x)"
  by (simp add: pipe_contents_def)

lemma pipe_put:
  "length (pipe_contents x) < 512 \<Longrightarrow>
   pipe_contents (x\<lparr>pi_buf := (pi_buf x)(unat (pi_wt x mod PIPESIZE) := c), pi_wt := pi_wt x + 1\<rparr>) = pipe_contents x @ [c]"
  using pr.put(1)[of "pi_wt x" "pi_rd x"] by (simp add: pipe_contents_def)

lemma pipe_get:
  "pi_rd x \<noteq> pi_wt x \<Longrightarrow>
   pipe_contents x = pi_buf x (unat (pi_rd x mod PIPESIZE)) # pipe_contents (x\<lparr>pi_rd := pi_rd x + 1\<rparr>)"
  using pr.get[of "pi_wt x" "pi_rd x"] by (simp add: pipe_contents_def)

lemma pipe_empty: "pi_rd x = pi_wt x \<longleftrightarrow> pipe_contents x = []"
  using length_pipe_contents[of x] unat_eq_zero[of "pi_wt x - pi_rd x"] by (metis length_0_conv right_minus_eq)

lemma pipe_full: "pi_wt x = pi_rd x + PIPESIZE \<longleftrightarrow> length (pipe_contents x) = 512"
  using pr.is_full[of "pi_wt x" "pi_rd x"] by (simp add: length_pipe_contents)

section \<open>The loops\<close>

lemma urange_Suc: "urange m r va (Suc k) = umem m r va # urange m r (va + 1) k"
  using urange_append[of m r va 1 k] by (simp add: urange_def)

lemma uvm_ok_cong: "mem s' = mem s \<Longrightarrow> klist_next s' = klist_next s \<Longrightarrow> uvm_ok s' R W ps = uvm_ok s R W ps"
  by (simp add: uvm_ok_def vm_ok_def free_pages_def)

lemma u64_of_int_nat [simp]: "u64_of_int (int i) = of_nat i" "u64_of_int (int i + 1) = of_nat i + 1"
  by (simp_all add: u64_of_int_def)

lemma unat_offset: "unat v + k < 2 ^ 64 \<Longrightarrow> unat (v + of_nat k) = unat v + k" for v :: uint64
  using unat_add_lem[of v "of_nat k"] by (simp add: unat_of_nat)

lemma mapped_iff: "None \<notin> set (urange m r va k) \<longleftrightarrow> (\<forall>j<k. umem m r (va + of_nat j) \<noteq> None)"
  by (force simp: urange_def)

lemma pipes_mem: "s\<lparr>pipes := p, mem := m\<rparr> = s\<lparr>mem := m, pipes := p\<rparr>"
  by (cases s) simp

text \<open>One byte out of a pipe that is not empty.\<close>

lemma piperead_step:
  assumes ok: "uvm_ok s R W ps" and r: "p_pagetable (procs s pr) = r" "r \<in> R"
    and va: "unat (va + of_nat i) + 1 \<le> 2 ^ 39" "umem (mem s) r (va + of_nat i) \<noteq> None"
    and ne: "pipe_contents (pipes s pi) = c # cs"
  obtains m1 x1 where "piperead_loop pi pr va (int i) (Suc k) s =
      piperead_loop pi pr va (int (Suc i)) k (s\<lparr>mem := m1, pipes := (pipes s)(pi := x1)\<rparr>)"
    "x1 = (pipes s pi)\<lparr>pi_rd := pi_rd (pipes s pi) + 1\<rparr>" "pipe_contents x1 = cs" "uvm_ok (s\<lparr>mem := m1\<rparr>) R W ps"
    "\<And>r' a. r' \<in> R \<Longrightarrow> unat a < 2 ^ 39 \<Longrightarrow>
       umem m1 r' a = (if r' = r then uwrite (umem (mem s) r) (va + of_nat i) [c] a else umem (mem s) r' a)"
proof -
  let ?x = "pipes s pi"
  have ne': "pi_rd ?x \<noteq> pi_wt ?x" using ne pipe_empty[of ?x] by simp
  define s1 where "s1 = s\<lparr>pipes := (pipes s)(pi := ?x\<lparr>pi_rd := pi_rd ?x + 1\<rparr>)\<rparr>"
  have ok1: "uvm_ok s1 R W ps"
    using ok by (subst uvm_ok_cong[of s1 s]) (simp_all add: s1_def)
  have "None \<notin> set (urange (mem s1) r (va + of_nat i) (unat (1 :: uint64)))"
    using va(2) by (auto simp: s1_def urange_def)
  then obtain m1 where out: "copyout r (va + of_nat i) [c] 1 s1 = (0, s1\<lparr>mem := m1\<rparr>)"
    "uvm_ok (s1\<lparr>mem := m1\<rparr>) R W ps" "\<And>r' a. r' \<in> R \<Longrightarrow> unat a < 2 ^ 39 \<Longrightarrow>
        umem m1 r' a = (if r' = r then uwrite (umem (mem s1) r) (va + of_nat i) [c] a else umem (mem s1) r' a)"
    using copyout_mapped[OF ok1 r(2), of "va + of_nat i" 1 "[c]"] va(1) by auto
  have "pi_buf ?x (unat (pi_rd ?x mod PIPESIZE)) = c" "pipe_contents (?x\<lparr>pi_rd := pi_rd ?x + 1\<rparr>) = cs"
    using ne pipe_get[OF ne'] by simp_all
  then show ?thesis
    using out ne' r(1) uvm_ok_cong[of "s\<lparr>mem := m1\<rparr>" "s1\<lparr>mem := m1\<rparr>"]
    by (intro that[of "?x\<lparr>pi_rd := pi_rd ?x + 1\<rparr>" m1]) (simp_all add: s1_def set_pipe_def pipes_mem ac_simps)
qed

lemma piperead_loop_takes:
  assumes "uvm_ok s R W ps" "p_pagetable (procs s pr) = r" "r \<in> R"
    and "unat (va + of_nat i) + k \<le> 2 ^ 39" "None \<notin> set (urange (mem s) r (va + of_nat i) k)"
    and "pipe_contents (pipes s pi) = xs"
  shows "\<exists>m' d. piperead_loop pi pr va (int i) k s =
      (int i + int (min k (length xs)), s\<lparr>mem := m', pipes := (pipes s)(pi := (pipes s pi)\<lparr>pi_rd := d\<rparr>)\<rparr>) \<and>
    pipe_contents ((pipes s pi)\<lparr>pi_rd := d\<rparr>) = drop k xs \<and>
    uvm_ok (s\<lparr>mem := m'\<rparr>) R W ps \<and>
    (\<forall>r'\<in>R. \<forall>a. unat a < 2 ^ 39 \<longrightarrow>
       umem m' r' a = (if r' = r then uwrite (umem (mem s) r) (va + of_nat i) (take k xs) a else umem (mem s) r' a))"
  using assms
proof (induction k arbitrary: i s xs)
  case 0
  then show ?case by (intro exI[of _ "mem s"] exI[of _ "pi_rd (pipes s pi)"]) simp
next
  case (Suc k)
  let ?va = "va + of_nat i"
  show ?case
  proof (cases xs)
    case Nil
    then have "piperead_loop pi pr va (int i) (Suc k) s = (int i, s)"
      using Suc.prems(6) pipe_empty[of "pipes s pi"] by simp
    with Nil Suc.prems show ?thesis
      by (intro exI[of _ "mem s"] exI[of _ "pi_rd (pipes s pi)"]) (simp del: piperead_loop.simps)
  next
    case (Cons c cs)
    have pre: "unat ?va + 1 \<le> 2 ^ 39" "umem (mem s) r ?va \<noteq> None" "pipe_contents (pipes s pi) = c # cs"
      using Suc.prems(4,6) Cons Suc.prems(5)[unfolded mapped_iff, THEN spec[of _ 0]] by simp_all
    obtain m1 x1 where step: "piperead_loop pi pr va (int i) (Suc k) s =
        piperead_loop pi pr va (int (Suc i)) k (s\<lparr>mem := m1, pipes := (pipes s)(pi := x1)\<rparr>)"
      "x1 = (pipes s pi)\<lparr>pi_rd := pi_rd (pipes s pi) + 1\<rparr>" "pipe_contents x1 = cs" "uvm_ok (s\<lparr>mem := m1\<rparr>) R W ps"
      "\<And>r' a. r' \<in> R \<Longrightarrow> unat a < 2 ^ 39 \<Longrightarrow>
         umem m1 r' a = (if r' = r then uwrite (umem (mem s) r) ?va [c] a else umem (mem s) r' a)"
      by (rule piperead_step[OF Suc.prems(1-3) pre, of k]) (rule that)
    let ?s = "s\<lparr>mem := m1, pipes := (pipes s)(pi := x1)\<rparr>"
    have va': "va + of_nat (Suc i) = ?va + 1" by (simp add: ac_simps)
    have nowrap: "unat (va + of_nat (Suc i)) = unat ?va + 1"
      using Suc.prems(4) unat_add_lem[of ?va 1] unfolding va' by simp
    have "umem m1 r (va + of_nat (Suc i) + of_nat j) \<noteq> None" if j: "j < k" for j
    proof -
      have a: "va + of_nat (Suc i) + of_nat j = ?va + of_nat (Suc j)" by (simp add: ac_simps)
      have "unat (?va + of_nat (Suc j)) < 2 ^ 39"
        using Suc.prems(4) j unat_offset[of ?va "Suc j"] by simp
      moreover have "umem (mem s) r (?va + of_nat (Suc j)) \<noteq> None"
        using Suc.prems(5) j unfolding mapped_iff by blast
      ultimately show ?thesis
        using step(5)[OF Suc.prems(3)] unfolding a by (simp add: uwrite_def)
    qed
    then have "None \<notin> set (urange (mem ?s) r (va + of_nat (Suc i)) k)"
      by (simp add: mapped_iff)
    moreover have "uvm_ok ?s R W ps" "unat (va + of_nat (Suc i)) + k \<le> 2 ^ 39"
      "p_pagetable (procs ?s pr) = r" "pipe_contents (pipes ?s pi) = cs"
      using step(3,4) Suc.prems(2,4) nowrap by (simp_all add: uvm_ok_cong[of ?s "s\<lparr>mem := m1\<rparr>"])
    ultimately obtain m' d where IH: "piperead_loop pi pr va (int (Suc i)) k ?s =
        (int (Suc i) + int (min k (length cs)), ?s\<lparr>mem := m', pipes := (pipes ?s)(pi := (pipes ?s pi)\<lparr>pi_rd := d\<rparr>)\<rparr>)"
      "pipe_contents ((pipes ?s pi)\<lparr>pi_rd := d\<rparr>) = drop k cs" "uvm_ok (?s\<lparr>mem := m'\<rparr>) R W ps"
      "\<forall>r'\<in>R. \<forall>a. unat a < 2 ^ 39 \<longrightarrow> umem m' r' a =
         (if r' = r then uwrite (umem (mem ?s) r) (va + of_nat (Suc i)) (take k cs) a else umem (mem ?s) r' a)"
      using Suc.IH[of ?s "Suc i" cs] Suc.prems(3) by blast
    have "uwrite (umem m1 r) (va + of_nat (Suc i)) (take k cs) a = uwrite (umem (mem s) r) ?va (take (Suc k) xs) a"
      if "unat a < 2 ^ 39" for a
      using uwrite_append[of "va + of_nat (Suc i)" ?va "[c]" "umem (mem s) r" "take k cs"] nowrap Cons
        step(5)[OF Suc.prems(3) that] by (auto simp: uwrite_def)
    moreover have "uvm_ok (s\<lparr>mem := m'\<rparr>) R W ps"
      using IH(3) by (subst uvm_ok_cong[of "s\<lparr>mem := m'\<rparr>" "?s\<lparr>mem := m'\<rparr>"]) simp_all
    ultimately show ?thesis
      using step IH Cons by (intro exI[of _ m'] exI[of _ d]) (auto simp: pipes_mem fun_upd_def cong: if_cong)
  qed
qed

text \<open>Bytes into a pipe that has room for them.\<close>

lemma copyin_one:
  "uvm_ok s R W ps \<Longrightarrow> r \<in> R \<Longrightarrow> umem (mem s) r va = Some b \<Longrightarrow> copyin r va 1 s = (0, [b])"
  by (simp add: copyin_urange[OF uvm_okD(2)] urange_def)

lemma pipewrite_loop_appends:
  assumes "uvm_ok s R W ps" "p_pagetable (procs s pr) = r" "r \<in> R" "pi_readable (pipes s pi) \<noteq> 0" "killed pr s = 0"
    and "length (pipe_contents (pipes s pi)) + length bs \<le> 512" "urange (mem s) r (va + of_nat i) (length bs) = map Some bs"
    and "n = i + length bs"
  shows "\<exists>b w. pipewrite_loop env pi pr va (int n) (int i) s =
      Some (Inr (Some (int n), s\<lparr>pipes := (pipes s)(pi := (pipes s pi)\<lparr>pi_buf := b, pi_wt := w\<rparr>)\<rparr>)) \<and>
    pipe_contents ((pipes s pi)\<lparr>pi_buf := b, pi_wt := w\<rparr>) = pipe_contents (pipes s pi) @ bs"
  using assms
proof (induction bs arbitrary: i s)
  case Nil
  then show ?case
    by (intro exI[of _ "pi_buf (pipes s pi)"] exI[of _ "pi_wt (pipes s pi)"]) (simp add: pipewrite_loop.simps)
next
  case (Cons c bs)
  let ?x = "pipes s pi"
  let ?x1 = "?x\<lparr>pi_buf := (pi_buf ?x)(unat (pi_wt ?x mod PIPESIZE) := c), pi_wt := pi_wt ?x + 1\<rparr>"
  let ?s = "s\<lparr>pipes := (pipes s)(pi := ?x1)\<rparr>"
  have "copyin r (va + of_nat i) 1 s = (0, [c])"
    using Cons.prems by (intro copyin_one) (auto simp: urange_Suc)
  then have step: "pipewrite_loop env pi pr va (int n) (int i) s = pipewrite_loop env pi pr va (int n) (int (Suc i)) ?s"
    using Cons.prems by (subst pipewrite_loop.simps) (simp add: pipe_full set_pipe_def ac_simps)
  have c1: "pipe_contents ?x1 = pipe_contents ?x @ [c]"
    using Cons.prems(6) by (intro pipe_put) simp
  have "uvm_ok ?s R W ps" "p_pagetable (procs ?s pr) = r" "pi_readable (pipes ?s pi) \<noteq> 0" "killed pr ?s = 0"
    "length (pipe_contents (pipes ?s pi)) + length bs \<le> 512" "n = Suc i + length bs"
    "urange (mem ?s) r (va + of_nat (Suc i)) (length bs) = map Some bs"
    using Cons.prems c1 uvm_ok_cong[of ?s s] by (simp_all add: killed_def urange_Suc ac_simps)
  then obtain b w where "pipewrite_loop env pi pr va (int n) (int (Suc i)) ?s =
      Some (Inr (Some (int n), ?s\<lparr>pipes := (pipes ?s)(pi := (pipes ?s pi)\<lparr>pi_buf := b, pi_wt := w\<rparr>)\<rparr>))"
    "pipe_contents ((pipes ?s pi)\<lparr>pi_buf := b, pi_wt := w\<rparr>) = pipe_contents (pipes ?s pi) @ bs"
    using Cons.IH[of ?s "Suc i"] Cons.prems(3) by blast
  with step c1 show ?case
    by (intro exI[of _ b] exI[of _ w]) (simp add: fun_upd_def cong: if_cong)
qed

section \<open>The operations\<close>

lemma pipes_held [simp]:
  "pipes (held lk s) = pipes s" "pipes (settle s) = pipes s" "pipes (woken ch ps s) = pipes s"
  by (simp_all add: held_def settle_def woken_def)

lemma killed_held [simp]: "killed p (held lk s) = killed p s"
  by (simp add: killed_def)

lemma pipes_upd_held [lock_simps]:
  "(held lk s)\<lparr>pipes := y\<rparr> = held lk (s\<lparr>pipes := y\<rparr>)" "(settle s)\<lparr>pipes := y\<rparr> = settle (s\<lparr>pipes := y\<rparr>)"
  by (cases s; simp add: held_def settle_def)+

lemma pipes_upd_procs [simp]:
  "myproc (s\<lparr>pipes := y\<rparr>) = myproc s" "procs_free (s\<lparr>pipes := y\<rparr>) = procs_free s"
  "cpu_ok (s\<lparr>pipes := y\<rparr>) = cpu_ok s" "lock_free lk (s\<lparr>pipes := y\<rparr>) = lock_free lk s"
  by (simp_all add: myproc_def mycpu_def procs_free_def lock_free_def cpu_ok_def)

lemma mem_upd_procs [simp]: "myproc (s\<lparr>mem := y\<rparr>) = myproc s" "procs_free (s\<lparr>mem := y\<rparr>) = procs_free s"
  by (simp_all add: myproc_def mycpu_def procs_free_def lock_free_def)

lemma uvm_ok_held [simp]: "uvm_ok (held lk s) R W ps = uvm_ok s R W ps" "uvm_ok (settle s) R W ps = uvm_ok s R W ps"
  by (simp_all add: uvm_ok_cong[of "held lk s" s] uvm_ok_cong[of "settle s" s])

text \<open>No process is in a critical section, and the pipe's lock is free.\<close>

definition quiet :: "addr \<Rightarrow> 'a kst_scheme \<Rightarrow> bool" where
  "quiet pi s \<longleftrightarrow> cpu_ok s \<and> (\<forall>p. lock_free (ProcLock p) s) \<and> lock_free (PipeLock pi) s"

lemma pipewrite_run:
  assumes "uvm_ok s R W ps" "myproc s = Some pr" "p_pagetable (procs s pr) = r" "r \<in> R" "quiet pi s"
    and "pi_readable (pipes s pi) \<noteq> 0" "p_killed (procs s pr) = 0"
    and "length (pipe_contents (pipes s pi)) + length bs \<le> 512" "urange (mem s) r va (length bs) = map Some bs"
  obtains b w where "pipewrite env pi va (int (length bs)) s = Inr (int (length bs), settle (woken (Some (ChanPipeRd pi)) [0..<N_PROC]
      (s\<lparr>pipes := (pipes s)(pi := (pipes s pi)\<lparr>pi_buf := b, pi_wt := w\<rparr>)\<rparr>)))"
    "pipe_contents ((pipes s pi)\<lparr>pi_buf := b, pi_wt := w\<rparr>) = pipe_contents (pipes s pi) @ bs"
proof -
  have "cpu_ok s" "procs_free s" "lock_free (PipeLock pi) s"
    using assms(5) by (auto simp: quiet_def procs_free_def)
  note q = this
  obtain b w where loop: "pipewrite_loop env pi pr va (int (length bs)) (int 0) (held (PipeLock pi) s) =
      Some (Inr (Some (int (length bs)), (held (PipeLock pi) s)\<lparr>pipes := (pipes (held (PipeLock pi) s))
        (pi := (pipes (held (PipeLock pi) s) pi)\<lparr>pi_buf := b, pi_wt := w\<rparr>)\<rparr>))"
    "pipe_contents ((pipes (held (PipeLock pi) s) pi)\<lparr>pi_buf := b, pi_wt := w\<rparr>) =
       pipe_contents (pipes (held (PipeLock pi) s) pi) @ bs"
    using pipewrite_loop_appends[of "held (PipeLock pi) s" R W ps pr r pi bs va 0 "length bs" env] assms
    by (auto simp: killed_def)
  show ?thesis
    using loop assms(2) q by (intro that[of w b])
      (simp_all add: pipewrite_def acquire_held unhang_def wakeup_woken lock_simps release_held)
qed

lemma piperead_run:
  assumes "uvm_ok s R W ps" "myproc s = Some pr" "p_pagetable (procs s pr) = r" "r \<in> R" "quiet pi s"
    and "pipe_contents (pipes s pi) = xs" "xs \<noteq> [] \<or> pi_writable (pipes s pi) = 0"
    and "unat va + k \<le> 2 ^ 39" "None \<notin> set (urange (mem s) r va k)"
  obtains m' d where "piperead env pi va (int k) s = Inr (int (min k (length xs)), settle (woken (Some (ChanPipeWt pi)) [0..<N_PROC]
      (s\<lparr>mem := m', pipes := (pipes s)(pi := (pipes s pi)\<lparr>pi_rd := d\<rparr>)\<rparr>)))"
    "pipe_contents ((pipes s pi)\<lparr>pi_rd := d\<rparr>) = drop k xs" "uvm_ok (s\<lparr>mem := m'\<rparr>) R W ps"
    "\<And>r' a. r' \<in> R \<Longrightarrow> unat a < 2 ^ 39 \<Longrightarrow>
       umem m' r' a = (if r' = r then uwrite (umem (mem s) r) va (take k xs) a else umem (mem s) r' a)"
proof -
  have "cpu_ok s" "procs_free s" "lock_free (PipeLock pi) s"
    using assms(5) by (auto simp: quiet_def procs_free_def)
  note q = this
  let ?s = "held (PipeLock pi) s"
  obtain m' d where loop: "piperead_loop pi pr va (int 0) k ?s = (int 0 + int (min k (length xs)),
      ?s\<lparr>mem := m', pipes := (pipes ?s)(pi := (pipes ?s pi)\<lparr>pi_rd := d\<rparr>)\<rparr>)"
    "pipe_contents ((pipes ?s pi)\<lparr>pi_rd := d\<rparr>) = drop k xs" "uvm_ok (?s\<lparr>mem := m'\<rparr>) R W ps"
    "\<forall>r'\<in>R. \<forall>a. unat a < 2 ^ 39 \<longrightarrow> umem m' r' a =
       (if r' = r then uwrite (umem (mem ?s) r) (va + of_nat 0) (take k xs) a else umem (mem ?s) r' a)"
    using piperead_loop_takes[of ?s R W ps pr r va 0 k pi xs] assms by auto
  have "piperead_wait env pi pr ?s = Some (Inr (False, ?s))"
    using assms(6,7) pipe_empty[of "pipes s pi"] by (subst piperead_wait.simps) auto
  then show ?thesis
    using loop assms(2) q by (intro that[of d m'])
      (simp_all add: piperead_def acquire_held unhang_def wakeup_woken lock_simps release_held)
qed

lemma woken_proc [simp]:
  "p_pagetable (procs (woken ch ps s) p) = p_pagetable (procs s p)" "klist_next (woken ch ps s) = klist_next s"
  by (simp_all add: woken_def)

lemma woken_status:
  "q < N_PROC \<Longrightarrow> myproc t \<noteq> Some q \<Longrightarrow> p_status (procs t q) = SLEEPING \<Longrightarrow> p_chan (procs t q) = ch \<Longrightarrow>
   p_status (procs (woken ch [0..<N_PROC] t) q) = RUNNABLE"
  by (simp add: woken_def)

lemma urange_written:
  assumes "\<And>a. unat a < 2 ^ 39 \<Longrightarrow> umem m r a = uwrite f va xs a" "unat va + length xs \<le> 2 ^ 39"
  shows "urange m r va (length xs) = map Some xs"
proof (rule nth_equalityI)
  fix i assume "i < length (urange m r va (length xs))"
  then have i: "i < length xs" by simp
  then have "unat (va + of_nat i) = unat va + i"
    using assms(2) by (intro unat_offset) simp
  then show "urange m r va (length xs) ! i = map Some xs ! i"
    using i assms by (simp add: urange_def uwrite_def)
qed simp

lemma quiet_switch: "quiet pi (settle s) = quiet pi s" "quiet pi (woken ch ps s) = quiet pi s"
  "quiet pi (s\<lparr>pipes := y\<rparr>) = quiet pi s" "quiet pi (s\<lparr>cpus := (cpus s)\<lparr>cpu_proc := p\<rparr>\<rparr>) = quiet pi s"
  by (simp_all add: quiet_def) (simp add: cpu_ok_def lock_free_def)


text \<open>A process with the bytes 7, 8, 9 in its memory and an empty pipe at \<open>pg5\<close>.\<close>

definition talker :: trst where
  "talker = (let d = snd (copyout pg1 0x10 [7, 8, 9] 3 demo) in
     reset\<lparr>mem := mem d, klist_next := klist_next d, procs := \<lambda>_. reset_proc\<lparr>p_pagetable := pg1\<rparr>\<rparr>)"

lemma talker_ok:
  obtains ps where "uvm_ok talker {pg1, pg2} (rows pg1 0 1) ps" "urange (mem talker) pg1 0x10 3 = [Some 7, Some 8, Some 9]"
    "None \<notin> set (urange (mem talker) pg1 0x40 3)" "umem (mem talker) pg1 0x5000 = None"
proof (rule demo_ok)
  fix ps assume ok: "uvm_ok demo {pg1, pg2} (rows pg1 0 1) ps"
    and um: "\<forall>a. unat a < 2 ^ 39 \<longrightarrow> umem (mem demo) pg1 a = (if unat a < 4096 then Some 0 else None)"
  then have "None \<notin> set (urange (mem demo) pg1 0x10 (unat (3 :: uint64)))"
    by (simp add: urange_def upt_rec)
  note mapped = this
  obtain m' where out: "copyout pg1 0x10 [7, 8, 9] 3 demo = (0, demo\<lparr>mem := m'\<rparr>)"
    and ok': "uvm_ok (demo\<lparr>mem := m'\<rparr>) {pg1, pg2} (rows pg1 0 1) ps"
    and um': "\<And>r a. r \<in> {pg1, pg2} \<Longrightarrow> unat a < 2 ^ 39 \<Longrightarrow>
       umem m' r a = (if r = pg1 then uwrite (umem (mem demo) pg1) 0x10 [7, 8, 9] a else umem (mem demo) r a)"
    by (rule copyout_mapped[OF ok insertI1 _ _ mapped, of "[7, 8, 9]"]) simp_all
  have t: "mem talker = m'" "klist_next talker = klist_next demo"
    using out by (simp_all add: talker_def Let_def)
  have "umem m' pg1 a = (if unat a < 4096 then Some (if unat a \<in> {16..18} then [7, 8, 9] ! (unat a - 16) else 0) else None)"
    if "unat a < 2 ^ 39" for a
    using um'[OF insertI1 that] um that by (auto simp: uwrite_def)
  then show ?thesis
    using ok' t uvm_ok_cong[of talker "demo\<lparr>mem := m'\<rparr>"]
    by (intro that[of ps]) (simp_all add: urange_def upt_rec)
qed


text \<open>
  C20: \<^verbatim>\<open>piperead\<close> takes what there is.  On a pipe that holds bytes, or whose write end is closed, it returns without waiting
  the number of bytes it moved: as many as were asked for or all there were, 0 at the end of the stream.
  These bytes leave the front of the pipe and appear in the memory of the reader; no other user memory changes and
  the writers that wait for room become runnable.
\<close>

theorem piperead_takes:
  assumes "uvm_ok s R W ps" "myproc s = Some p" "p_pagetable (procs s p) = r" "r \<in> R" "quiet pi s"
    and "pipe_contents (pipes s pi) = xs" "xs \<noteq> [] \<or> pi_writable (pipes s pi) = 0"
    and "unat va + k \<le> 2 ^ 39" "None \<notin> set (urange (mem s) r va k)"
  shows "\<exists>s'. piperead env pi va (int k) s = Inr (int (min k (length xs)), s') \<and>
    pipe_contents (pipes s' pi) = drop k xs \<and>
    (\<forall>r'\<in>R. \<forall>a. unat a < 2 ^ 39 \<longrightarrow> umem (mem s') r' a =
       (if r' = r then uwrite (umem (mem s) r) va (take k xs) a else umem (mem s) r' a)) \<and>
    (\<forall>q<N_PROC. q \<noteq> p \<and> p_status (procs s q) = SLEEPING \<and> p_chan (procs s q) = Some (ChanPipeWt pi) \<longrightarrow>
       p_status (procs s' q) = RUNNABLE)"
proof -
  obtain m' d where rd: "piperead env pi va (int k) s = Inr (int (min k (length xs)), settle (woken (Some (ChanPipeWt pi)) [0..<N_PROC]
      (s\<lparr>mem := m', pipes := (pipes s)(pi := (pipes s pi)\<lparr>pi_rd := d\<rparr>)\<rparr>)))"
    "pipe_contents ((pipes s pi)\<lparr>pi_rd := d\<rparr>) = drop k xs"
    "\<And>r' a. r' \<in> R \<Longrightarrow> unat a < 2 ^ 39 \<Longrightarrow>
       umem m' r' a = (if r' = r then uwrite (umem (mem s) r) va (take k xs) a else umem (mem s) r' a)"
    by (rule piperead_run[OF assms, of env]) (rule that)
  then show ?thesis
    using assms(2) by (simp add: woken_status)
qed

theorem piperead_takes_witness:
  "\<exists>s'. piperead (\<lambda>_. None) pg5 0x40 3 (talker\<lparr>pipes := \<lambda>_. \<lparr>pi_readable = 1, pi_writable = 0, pi_rd = 511, pi_wt = 513,
      pi_buf = \<lambda>i. of_nat i\<rparr>\<rparr>) = Inr (2, s') \<and> pipe_contents (pipes s' pg5) = [] \<and>
    umem (mem s') pg1 0x40 = Some 255 \<and> umem (mem s') pg1 0x41 = Some 0"
proof (rule talker_ok)
  let ?x = "\<lparr>pi_readable = 1, pi_writable = 0, pi_rd = 511, pi_wt = 513, pi_buf = \<lambda>i. of_nat i\<rparr> :: pipe"
  let ?s = "talker\<lparr>pipes := \<lambda>_. ?x\<rparr>"
  fix ps assume t: "uvm_ok talker {pg1, pg2} (rows pg1 0 1) ps" "None \<notin> set (urange (mem talker) pg1 0x40 3)"
  have f: "myproc ?s = Some 0" "p_pagetable (procs ?s 0) = pg1" "quiet pg5 ?s"
    by (simp_all add: talker_def Let_def reset_def myproc_def mycpu_def quiet_def cpu_ok_def lock_free_def)
  have xs: "pipe_contents (pipes ?s pg5) = [255, 0]"
    by (simp add: pipe_contents_def ring_list_def upt_rec)
  have ok: "uvm_ok ?s {pg1, pg2} (rows pg1 0 1) ps"
    using t(1) by (simp add: uvm_ok_cong[of ?s talker])
  have "unat (0x40 :: uint64) + 3 \<le> 2 ^ 39" "None \<notin> set (urange (mem ?s) pg1 0x40 3)"
    using t(2) by simp_all
  from piperead_takes[OF ok f(1,2) insertI1 f(3) xs _ this, of "\<lambda>_. None"] show ?thesis
    by (auto simp: uwrite_def)
qed

text \<open>
  C21: a \<^verbatim>\<open>piperead\<close> into memory that is not mapped reports that nothing was read, and the first byte of the pipe
  is gone: the counter is advanced before the copy to the user can fail.
\<close>

theorem piperead_fault_drops_byte:
  assumes ok: "uvm_ok s R W ps" and p: "myproc s = Some p" "p_pagetable (procs s p) = r" "r \<in> R" and q: "quiet pi s"
    and xs: "pipe_contents (pipes s pi) = c # cs" and va: "umem (mem s) r va = None" and n: "0 < n"
  shows "\<exists>s'. piperead env pi va n s = Inr (0, s') \<and> pipe_contents (pipes s' pi) = cs \<and> mem s' = mem s"
proof -
  let ?l = "PipeLock pi" and ?x = "pipes s pi"
  have q': "cpu_ok s" "procs_free s" "lock_free ?l s"
    using q by (auto simp: quiet_def procs_free_def)
  have ne: "pi_rd ?x \<noteq> pi_wt ?x"
    using xs pipe_empty[of ?x] by simp
  have fault: "copyout r va [b] 1 t = (-1, t)" if "mem t = mem s" for t :: "'a kst_scheme" and b
    using walkaddr_user_page[of t R r] uvm_okD(2)[OF ok] p(3) va that
    by (subst copyout.simps) (auto simp: umem_def Let_def split: if_splits)
  obtain k where k: "nat n = Suc k"
    using n by (metis nat_0_iff not_le old.nat.exhaust)
  have wait: "piperead_wait env pi p (held ?l s) = Some (Inr (False, held ?l s))"
    using ne by (subst piperead_wait.simps) auto
  have "piperead_loop pi p va 0 (Suc k) (held ?l s) = (0, set_pipe pi (\<lambda>x. x\<lparr>pi_rd := pi_rd x + 1\<rparr>) (held ?l s))"
    using ne fault p(2) by (simp add: u64_of_int_def set_pipe_def)
  then show ?thesis
    using wait p(1) q' k pipe_get[OF ne] xs
    by (simp add: piperead_def acquire_held unhang_def set_pipe_def wakeup_woken lock_simps release_held)
qed

theorem piperead_fault_drops_byte_witness:
  "\<exists>s'. piperead (\<lambda>_. None) pg5 0x5000 1 (talker\<lparr>pipes := \<lambda>_. \<lparr>pi_readable = 1, pi_writable = 1, pi_rd = 0, pi_wt = 1,
      pi_buf = \<lambda>_. 42\<rparr>\<rparr>) = Inr (0, s') \<and> pipe_contents (pipes s' pg5) = []"
proof (rule talker_ok)
  let ?x = "\<lparr>pi_readable = 1, pi_writable = 1, pi_rd = 0, pi_wt = 1, pi_buf = \<lambda>_. 42\<rparr> :: pipe"
  let ?s = "talker\<lparr>pipes := \<lambda>_. ?x\<rparr>"
  fix ps assume t: "uvm_ok talker {pg1, pg2} (rows pg1 0 1) ps" "umem (mem talker) pg1 0x5000 = None"
  have f: "myproc ?s = Some 0" "p_pagetable (procs ?s 0) = pg1" "quiet pg5 ?s"
    by (simp_all add: talker_def Let_def reset_def myproc_def mycpu_def quiet_def cpu_ok_def lock_free_def)
  have xs: "pipe_contents (pipes ?s pg5) = [42]"
    by (simp add: pipe_contents_def ring_list_def upt_rec)
  have ok: "uvm_ok ?s {pg1, pg2} (rows pg1 0 1) ps" "umem (mem ?s) pg1 0x5000 = None"
    using t by (simp_all add: uvm_ok_cong[of ?s talker])
  from piperead_fault_drops_byte[OF ok(1) f(1,2) insertI1 f(3) xs ok(2), of 1 "\<lambda>_. None"] show ?thesis
    by auto
qed

end
