(* ===== verification/Xv6_Ulib.thy ===== *)
theory Xv6_Ulib
  imports Xv6_String
begin

text \<open>
  \<^verbatim>\<open>user/ulib.c\<close>, the library of the user programs.  The string routines run over the memory of the process; a scan
  for a terminator that is not there has no result.  The system calls are an argument of the programs, as a record of
  functions on a state \<open>'w\<close> of the world outside the process: what the kernel answers is up to it, and a theorem
  that relies on an answer says so.  A program that calls \<^verbatim>\<open>exit\<close> stops with the outcome \<open>Exit\<close>.
\<close>

section \<open>System calls\<close>

datatype ('a, 'w) uout = Ret 'a 'w | Exit int 'w

record 'w usys =
  u_read :: "int \<Rightarrow> int \<Rightarrow> 'w \<Rightarrow> int \<times> uint8 list \<times> 'w"
  u_write :: "int \<Rightarrow> uint8 list \<Rightarrow> 'w \<Rightarrow> int \<times> 'w"
  u_open :: "uint8 list \<Rightarrow> int \<Rightarrow> 'w \<Rightarrow> int \<times> 'w"
  u_close :: "int \<Rightarrow> 'w \<Rightarrow> int \<times> 'w"
  u_fstat :: "int \<Rightarrow> 'w \<Rightarrow> int \<times> uint8 list \<times> 'w"

section \<open>Strings in memory\<close>

text \<open>\<^verbatim>\<open>strcpy\<close> returns its destination; the memory it leaves is the value here.\<close>

partial_function (option) strcpy_u :: "memory \<Rightarrow> addr \<Rightarrow> addr \<Rightarrow> memory option" where
  "strcpy_u m s t = (if m t \<noteq> 0 then strcpy_u (m(s := m t)) (s + 1) (t + 1) else Some (m(s := m t)))"

partial_function (option) strcmp_u :: "memory \<Rightarrow> addr \<Rightarrow> addr \<Rightarrow> int option" where
  "strcmp_u m p q =
     (if m p \<noteq> 0 \<and> m p = m q then strcmp_u m (p + 1) (q + 1) else Some (uint (m p) - uint (m q)))"

partial_function (option) strlen_loop_u :: "memory \<Rightarrow> addr \<Rightarrow> nat \<Rightarrow> uint32 option" where
  "strlen_loop_u m s n = (if m (s + of_nat n) \<noteq> 0 then strlen_loop_u m s (Suc n) else Some (of_nat n))"

definition strlen_u :: "memory \<Rightarrow> addr \<Rightarrow> uint32 option" where
  "strlen_u m s = strlen_loop_u m s 0"

fun memset_loop_u :: "memory \<Rightarrow> addr \<Rightarrow> uint8 \<Rightarrow> nat \<Rightarrow> nat \<Rightarrow> memory" where
  "memset_loop_u m dst c i 0 = m"
| "memset_loop_u m dst c i (Suc k) = memset_loop_u (m(dst + of_nat i := c)) dst c (Suc i) k"

definition memset_u :: "memory \<Rightarrow> addr \<Rightarrow> int \<Rightarrow> uint32 \<Rightarrow> memory" where
  "memset_u m dst c n = memset_loop_u m dst (word_of_int c) 0 (unat n)"

partial_function (option) strchr_u :: "memory \<Rightarrow> addr \<Rightarrow> uint8 \<Rightarrow> addr option" where
  "strchr_u m s c = (if m s = 0 then Some 0 else if m s = c then Some s else strchr_u m (s + 1) c)"

text \<open>\<^verbatim>\<open>int\<close> arithmetic is 32 bits wide.\<close>

partial_function (option) atoi_loop :: "memory \<Rightarrow> addr \<Rightarrow> uint32 \<Rightarrow> int option" where
  "atoi_loop m s n =
     (if 48 \<le> m s \<and> m s \<le> 57 then atoi_loop m (s + 1) (n * 10 + ucast (m s) - 48) else Some (int_of_u32 n))"

definition atoi :: "memory \<Rightarrow> addr \<Rightarrow> int option" where
  "atoi m s = atoi_loop m s 0"

definition memmove_u :: "memory \<Rightarrow> addr \<Rightarrow> addr \<Rightarrow> int \<Rightarrow> memory" where
  "memmove_u m dst src n =
     (if dst < src then copy_up m dst src (nat n)
      else copy_down m (dst + u64_of_int n) (src + u64_of_int n) (nat n))"

fun memcmp_loop_u :: "memory \<Rightarrow> addr \<Rightarrow> addr \<Rightarrow> nat \<Rightarrow> int" where
  "memcmp_loop_u m p1 p2 0 = 0"
| "memcmp_loop_u m p1 p2 (Suc n) =
     (if m p1 \<noteq> m p2 then uint (m p1) - uint (m p2) else memcmp_loop_u m (p1 + 1) (p2 + 1) n)"

definition memcmp_u :: "memory \<Rightarrow> addr \<Rightarrow> addr \<Rightarrow> uint32 \<Rightarrow> int" where
  "memcmp_u m s1 s2 n = memcmp_loop_u m s1 s2 (unat n)"

definition memcpy_u :: "memory \<Rightarrow> addr \<Rightarrow> addr \<Rightarrow> uint32 \<Rightarrow> memory" where
  "memcpy_u m dst src n = memmove_u m dst src (int_of_u32 n)"

section \<open>Input and files\<close>

text \<open>
  \<^verbatim>\<open>gets\<close>: the bytes it puts before the terminating zero, with \<open>k\<close> the rounds its bound leaves.
\<close>

primrec gets_loop :: "'w usys \<Rightarrow> nat \<Rightarrow> 'w \<Rightarrow> uint8 list \<times> 'w" where
  "gets_loop K 0 w = ([], w)"
| "gets_loop K (Suc k) w =
     (let (cc, d, w) = u_read K 0 1 w in
      if cc < 1 then ([], w)
      else let c = hd d in
        if c = 10 \<or> c = 13 then ([c], w)
        else let (cs, w) = gets_loop K k w in (c # cs, w))"

definition gets :: "'w usys \<Rightarrow> int \<Rightarrow> 'w \<Rightarrow> uint8 list \<times> 'w" where
  "gets K maxlen w = gets_loop K (nat (maxlen - 1)) w"

definition stat_u :: "'w usys \<Rightarrow> uint8 list \<Rightarrow> 'w \<Rightarrow> int \<times> uint8 list \<times> 'w" where
  "stat_u K n w =
     (let (fd, w) = u_open K n 0 w in
      if fd < 0 then (-1, [], w)
      else let (r, st, w) = u_fstat K fd w; (_, w) = u_close K fd w in (r, st, w))"

text \<open>
  What programs rely on when they read a file and write to their standard output: \<open>inp\<close> is what is left to read from
  descriptor \<open>fd\<close>, \<open>outp\<close> what has been written.  A \<^verbatim>\<open>read\<close> delivers the next bytes, at most as many as asked for and at
  least one unless there are none; a \<^verbatim>\<open>write\<close> takes all bytes.
\<close>

definition stdio :: "'w usys \<Rightarrow> int \<Rightarrow> ('w \<Rightarrow> uint8 list) \<Rightarrow> ('w \<Rightarrow> uint8 list) \<Rightarrow> bool" where
  "stdio K fd inp outp \<longleftrightarrow>
     (\<forall>w n. 0 \<le> n \<longrightarrow> (\<exists>d w'. u_read K fd n w = (int (length d), d, w') \<and> inp w = d @ inp w' \<and> int (length d) \<le> n \<and>
        (0 < n \<and> inp w \<noteq> [] \<longrightarrow> d \<noteq> []) \<and> outp w' = outp w)) \<and>
     (\<forall>w bs. \<exists>w'. u_write K 1 bs w = (int (length bs), w') \<and> inp w' = inp w \<and> outp w' = outp w @ bs)"

lemma stdio_read:
  assumes "stdio K fd inp outp" "0 \<le> n"
  obtains d w' where "u_read K fd n w = (int (length d), d, w')" "inp w = d @ inp w'" "int (length d) \<le> n"
    "0 < n \<Longrightarrow> inp w \<noteq> [] \<Longrightarrow> d \<noteq> []" "outp w' = outp w"
  using assms unfolding stdio_def by metis

lemma stdio_write:
  assumes "stdio K fd inp outp"
  shows "inp (snd (u_write K 1 bs w)) = inp w" "outp (snd (u_write K 1 bs w)) = outp w @ bs" "fst (u_write K 1 bs w) = int (length bs)"
  using assms unfolding stdio_def by (metis fst_conv snd_conv)+

text \<open>A file that is read at most \<open>k\<close> bytes at a time.\<close>

definition pieces :: "nat \<Rightarrow> (uint8 list \<times> uint8 list) usys" where
  "pieces k = \<lparr>u_read = \<lambda>fd n (i, ob). let d = take (min (nat n) k) i in (int (length d), d, drop (length d) i, ob),
     u_write = \<lambda>fd bs (i, ob). (int (length bs), i, ob @ bs), u_open = \<lambda>f m w. (3, w), u_close = \<lambda>fd w. (0, w),
     u_fstat = \<lambda>fd w. (-1, [], w)\<rparr>"

lemma stdio_pieces: "0 < k \<Longrightarrow> stdio (pieces k) fd fst snd"
  by (auto simp: stdio_def pieces_def Let_def min_def)

section \<open>What the string routines compute\<close>

text \<open>The position of a byte in a C string.\<close>

fun find_char :: "uint8 list \<Rightarrow> uint8 \<Rightarrow> nat option" where
  "find_char [] c = None"
| "find_char (b # bs) c = (if b = 0 then None else if b = c then Some 0 else map_option Suc (find_char bs c))"

lemma find_char_Some: "find_char bs c = Some k \<Longrightarrow> k < length bs \<and> bs ! k = c \<and> c \<notin> set (take k bs) \<and> 0 \<notin> set (take (Suc k) bs)"
  by (induction bs c arbitrary: k rule: find_char.induct) (auto split: if_splits)

lemma find_char_None: "0 \<notin> set bs \<Longrightarrow> find_char bs c = None \<longleftrightarrow> c \<notin> set bs"
  by (induction bs c rule: find_char.induct) auto

lemma strchr_u_find:
  "cstring m s bs \<Longrightarrow> strchr_u m s c = Some (case find_char bs c of None \<Rightarrow> 0 | Some k \<Rightarrow> s + of_nat k)"
proof (induction bs arbitrary: s)
  case Nil
  then show ?case by (simp add: strchr_u.simps)
next
  case (Cons b bs)
  then show ?case
    by (subst strchr_u.simps) (auto split: option.splits)
qed

lemma strlen_loop_u_cstring:
  "cstring m (s + of_nat k) bs \<Longrightarrow> strlen_loop_u m s k = Some (of_nat (k + length bs))"
proof (induction bs arbitrary: k)
  case Nil
  then show ?case by (subst strlen_loop_u.simps) simp
next
  case (Cons b bs)
  then have "strlen_loop_u m s (Suc k) = Some (of_nat (Suc k + length bs))"
    by (intro Cons.IH) (simp add: ac_simps)
  with Cons.prems show ?case by (subst strlen_loop_u.simps) simp
qed

lemma strlen_u_cstring: "cstring m s bs \<Longrightarrow> strlen_u m s = Some (of_nat (length bs))"
  using strlen_loop_u_cstring[of m s 0 bs] by (simp add: strlen_u_def)

lemma memcmp_u_kernel: "memcmp_loop_u m p q n = memcmp_loop m p q n"
  by (induction n arbitrary: p q) simp_all



end
