(* ===== verification/Xv6_Uprintf.thy ===== *)
theory Xv6_Uprintf
  imports Xv6_Ulib
begin

text \<open>
  \<^verbatim>\<open>user/printf.c\<close>: formatted output of the user programs, a byte per system call.  The arguments after the format
  are a list; taking one of another kind, or more than there are, is undefined in C and the fault \<open>OutOfBounds\<close>.
\<close>

datatype uarg = UInt int | ULong uint64 | UPtr uint64 | UStr "uint8 list option" | UChar uint32

definition ascii :: "string \<Rightarrow> uint8 list" where
  "ascii cs = map of_char cs"

definition digits_u :: "uint8 list" where
  "digits_u = ascii ''0123456789ABCDEF''"

definition putc_u :: "'w usys \<Rightarrow> int \<Rightarrow> uint8 \<Rightarrow> 'w \<Rightarrow> 'w" where
  "putc_u K fd c w = snd (u_write K fd [c] w)"

primrec puts_u :: "'w usys \<Rightarrow> int \<Rightarrow> uint8 list \<Rightarrow> 'w \<Rightarrow> 'w" where
  "puts_u K fd [] w = w"
| "puts_u K fd (c # cs) w = puts_u K fd cs (putc_u K fd c w)"

text \<open>The digits of \<^verbatim>\<open>printint\<close>, least significant first; its base is 10 or 16, and the test \<open>1 < base\<close> holds in every call.\<close>

function printint_digits_u :: "uint32 \<Rightarrow> uint32 \<Rightarrow> uint8 list" where
  "printint_digits_u x base =
     (let c = digits_u ! unat (x mod base); x' = x div base in
      if x' \<noteq> 0 \<and> 1 < base then c # printint_digits_u x' base else [c])"
  by pat_completeness auto
termination
proof (relation "measure (\<lambda>(x, base). unat x)", goal_cases)
  case (2 x base c x')
  then have "x \<noteq> 0" by auto
  then have "unat x div unat base < unat x"
    using 2 by (intro div_less_dividend) (auto simp: word_less_nat_alt unat_gt_0)
  then show ?case using 2 by (simp add: unat_div)
qed simp

declare printint_digits_u.simps [simp del]

text \<open>The buffer that \<^verbatim>\<open>printint\<close> sends backwards.\<close>

definition printint_u :: "int \<Rightarrow> uint32 \<Rightarrow> bool \<Rightarrow> uint8 list" where
  "printint_u xx base sign =
     (let neg = (sign \<and> xx < 0); x = (if neg then u32_of_int (- xx) else u32_of_int xx)
      in rev (printint_digits_u x base @ (if neg then ascii ''-'' else [])))"

primrec printptr_loop_u :: "nat \<Rightarrow> uint64 \<Rightarrow> uint8 list" where
  "printptr_loop_u 0 x = []"
| "printptr_loop_u (Suc n) x = digits_u ! unat (drop_bit 60 x) # printptr_loop_u n (push_bit 4 x)"

definition printptr_u :: "uint64 \<Rightarrow> uint8 list" where
  "printptr_u x = ascii ''0x'' @ printptr_loop_u 16 x"

text \<open>\<^verbatim>\<open>vprintf\<close> is a machine with two states, after a percent sign (\<open>pct\<close>) or not.\<close>

fun vprintf :: "'w usys \<Rightarrow> int \<Rightarrow> bool \<Rightarrow> uint8 list \<Rightarrow> uarg list \<Rightarrow> 'w \<Rightarrow> 'w res" where
  "vprintf K fd pct [] args w = Inr w"
| "vprintf K fd False (c # fmt) args w =
     (if c = of_char CHR ''%'' then vprintf K fd True fmt args w else vprintf K fd False fmt args (putc_u K fd c w))"
| "vprintf K fd True (c # fmt) args w =
     (if c = of_char CHR ''d'' then
        (case args of UInt i # as \<Rightarrow> vprintf K fd False fmt as (puts_u K fd (printint_u i 10 True) w) | _ \<Rightarrow> Inl OutOfBounds)
      else if c = of_char CHR ''l'' then
        (case args of ULong x # as \<Rightarrow> vprintf K fd False fmt as (puts_u K fd (printint_u (int_of_u64 x) 10 False) w)
         | _ \<Rightarrow> Inl OutOfBounds)
      else if c = of_char CHR ''x'' then
        (case args of UInt i # as \<Rightarrow> vprintf K fd False fmt as (puts_u K fd (printint_u i 16 False) w) | _ \<Rightarrow> Inl OutOfBounds)
      else if c = of_char CHR ''p'' then
        (case args of UPtr x # as \<Rightarrow> vprintf K fd False fmt as (puts_u K fd (printptr_u x) w) | _ \<Rightarrow> Inl OutOfBounds)
      else if c = of_char CHR ''s'' then
        (case args of UStr so # as \<Rightarrow>
           vprintf K fd False fmt as (puts_u K fd (case so of None \<Rightarrow> ascii ''(null)'' | Some t \<Rightarrow> t) w)
         | _ \<Rightarrow> Inl OutOfBounds)
      else if c = of_char CHR ''c'' then
        (case args of UChar x # as \<Rightarrow> vprintf K fd False fmt as (putc_u K fd (ucast x) w) | _ \<Rightarrow> Inl OutOfBounds)
      else if c = of_char CHR ''%'' then vprintf K fd False fmt args (putc_u K fd c w)
      else vprintf K fd False fmt args (putc_u K fd c (putc_u K fd (of_char CHR ''%'') w)))"

definition fprintf_u :: "'w usys \<Rightarrow> int \<Rightarrow> uint8 list \<Rightarrow> uarg list \<Rightarrow> 'w \<Rightarrow> 'w res" where
  "fprintf_u K fd fmt args w = vprintf K fd False fmt args w"

definition printf_u :: "'w usys \<Rightarrow> uint8 list \<Rightarrow> uarg list \<Rightarrow> 'w \<Rightarrow> 'w res" where
  "printf_u K fmt args w = vprintf K 1 False fmt args w"

section \<open>Numbers\<close>

text \<open>The decimal value of digits, most significant first, and its computation by \<^verbatim>\<open>atoi\<close>.\<close>

definition dec_val :: "uint8 list \<Rightarrow> nat" where
  "dec_val ds = foldl (\<lambda>n d. 10 * n + (unat d - 48)) 0 ds"

definition is_digit :: "uint8 \<Rightarrow> bool" where
  "is_digit d \<longleftrightarrow> 48 \<le> d \<and> d \<le> 57"

lemma foldl_dec_mono: "n \<le> foldl (\<lambda>n d. 10 * n + (unat d - 48)) n (ds :: uint8 list)"
proof (induction ds arbitrary: n)
  case (Cons d ds)
  have "n \<le> 10 * n + (unat d - 48)" by simp
  also have "\<dots> \<le> foldl (\<lambda>n d. 10 * n + (unat d - 48)) (10 * n + (unat d - 48)) ds" by (rule Cons.IH)
  finally show ?case by simp
qed simp

lemma atoi_loop_val:
  "cstring m s ds \<Longrightarrow> \<forall>d\<in>set ds. is_digit d \<Longrightarrow> foldl (\<lambda>n d. 10 * n + (unat d - 48)) n ds < 2 ^ 31 \<Longrightarrow>
   atoi_loop m s (of_nat n) = Some (int (foldl (\<lambda>n d. 10 * n + (unat d - 48)) n ds))"
proof (induction ds arbitrary: s n)
  case Nil
  then show ?case
    using signed_take_bit_int_eq_self[of 31 "int n"]
    by (subst atoi_loop.simps) (simp add: int_of_u32_def sint_uint unsigned_of_nat take_bit_nat_eq_self)
next
  case (Cons d ds)
  then have d: "m s = d" "48 \<le> d" "d \<le> 57" by (auto simp: is_digit_def)
  have "(of_nat (10 * n + (unat d - 48)) :: uint32) = of_nat n * 10 + ucast d - 48"
    using d(2) by (simp add: of_nat_diff word_le_nat_alt mult.commute)
  then have "atoi_loop m s (of_nat n) = atoi_loop m (s + 1) (of_nat (10 * n + (unat d - 48)))"
    using d by (subst atoi_loop.simps) (simp only: if_True simp_thms)
  also have "\<dots> = Some (int (foldl (\<lambda>n d. 10 * n + (unat d - 48)) (10 * n + (unat d - 48)) ds))"
    using Cons.prems by (intro Cons.IH) simp_all
  finally show ?case by simp
qed

lemma atoi_val: "cstring m s ds \<Longrightarrow> \<forall>d\<in>set ds. is_digit d \<Longrightarrow> dec_val ds < 2 ^ 31 \<Longrightarrow> atoi m s = Some (int (dec_val ds))"
  using atoi_loop_val[of m s ds 0] by (simp add: atoi_def dec_val_def)

lemma dec_digit: "k < 10 \<Longrightarrow> is_digit (digits_u ! k) \<and> unat (digits_u ! k) - 48 = k"
proof -
  assume "k < 10"
  then have "k \<in> set [0..<10]" by simp
  moreover have "\<forall>k\<in>set [0..<10]. is_digit (digits_u ! k) \<and> unat (digits_u ! k) - 48 = k"
    by (simp add: upt_rec digits_u_def ascii_def is_digit_def)
  ultimately show ?thesis by blast
qed

lemma printint_digits_u_dec:
  "(\<forall>d\<in>set (printint_digits_u x 10). is_digit d) \<and> dec_val (rev (printint_digits_u x 10)) = unat x"
proof (induction x "10 :: uint32" rule: printint_digits_u.induct)
  case (1 x)
  have d: "is_digit (digits_u ! unat (x mod 10))" "unat (digits_u ! unat (x mod 10)) - 48 = unat x mod 10"
    using dec_digit[of "unat (x mod 10)"] by (simp_all add: unat_mod)
  show ?case
  proof (cases "x div 10 = 0")
    case True
    then have "unat x div 10 = 0" using unat_div[of x 10] by simp
    with True d show ?thesis
      by (subst (1 2) printint_digits_u.simps) (simp add: Let_def dec_val_def)
  next
    case False
    then have "(\<forall>d\<in>set (printint_digits_u (x div 10) 10). is_digit d) \<and>
        dec_val (rev (printint_digits_u (x div 10) 10)) = unat x div 10"
      using 1[OF refl refl] by (simp add: unat_div)
    with False d show ?thesis
      by (subst (1 2) printint_digits_u.simps) (simp add: Let_def dec_val_def)
  qed
qed

text \<open>
  C30: \<^verbatim>\<open>atoi\<close> reads what \<^verbatim>\<open>printf\<close> writes.  For every \<^verbatim>\<open>int\<close> that is not negative, \<^verbatim>\<open>atoi\<close> on a terminated string that holds
  the characters \<^verbatim>\<open>%d\<close> prints for it returns the number.
\<close>

theorem atoi_reads_printint:
  assumes "0 \<le> xx" "xx < 2 ^ 31" "cstring m s (printint_u xx 10 True)"
  shows "atoi m s = Some xx"
proof -
  have u: "unat (u32_of_int xx) = nat xx"
    unfolding unat_eq_nat_uint u32_of_int_def
    using assms(1,2) by (simp add: uint_word_of_int_eq take_bit_int_eq_self)
  have "printint_u xx 10 True = rev (printint_digits_u (u32_of_int xx) 10)"
    using assms(1) by (simp add: printint_u_def Let_def)
  then show ?thesis
    using atoi_val[of m s "printint_u xx 10 True"] printint_digits_u_dec[of "u32_of_int xx"] assms u
    by (simp add: nat_less_iff)
qed

theorem atoi_reads_printint_witness:
  "atoi (\<lambda>a. if a = 0 then 52 else if a = 1 then 50 else 0) 0 = Some 42"
proof -
  have "printint_u 42 10 True = [52, 50]"
    by (simp add: printint_u_def printint_digits_u.simps Let_def u32_of_int_def digits_u_def ascii_def)
  then show ?thesis
    by (intro atoi_reads_printint) simp_all
qed

end
