(* ===== verification/Xv6_Grep.thy ===== *)
theory Xv6_Grep
  imports Xv6_Uprintf "HOL-Library.More_List"
begin

text \<open>
  \<^verbatim>\<open>user/grep.c\<close>: the matcher for regular expressions and the search through a file.  A C string is the list of the bytes
  before its terminator, \<open>s[i]\<close> is \<open>nth_default 0 s i\<close> and \<open>s + i\<close> is \<open>drop i s\<close>.
\<close>

section \<open>The matcher\<close>

abbreviation (input) STAR :: uint8 where "STAR \<equiv> 42"
abbreviation (input) DOT :: uint8 where "DOT \<equiv> 46"
abbreviation (input) DOLLAR :: uint8 where "DOLLAR \<equiv> 36"
abbreviation (input) CARET :: uint8 where "CARET \<equiv> 94"

lemma nth_default_nz: "nth_default 0 xs i \<noteq> (0 :: uint8) \<Longrightarrow> i < length xs"
  by (rule ccontr) (simp add: nth_default_def)

function matchhere :: "uint8 list \<Rightarrow> uint8 list \<Rightarrow> bool"
  and matchstar :: "uint8 \<Rightarrow> uint8 list \<Rightarrow> uint8 list \<Rightarrow> bool" where
  "matchhere re tx =
     (if nth_default 0 re 0 = 0 then True
      else if nth_default 0 re 1 = STAR then matchstar (nth_default 0 re 0) (drop 2 re) tx
      else if nth_default 0 re 0 = DOLLAR \<and> nth_default 0 re 1 = 0 then nth_default 0 tx 0 = 0
      else if nth_default 0 tx 0 \<noteq> 0 \<and> (nth_default 0 re 0 = DOT \<or> nth_default 0 re 0 = nth_default 0 tx 0)
      then matchhere (drop 1 re) (drop 1 tx)
      else False)"
| "matchstar c re tx =
     (if matchhere re tx then True
      else if nth_default 0 tx 0 \<noteq> 0 \<and> (nth_default 0 tx 0 = c \<or> c = DOT) then matchstar c re (drop 1 tx)
      else False)"
  by pat_completeness auto
termination
proof (relation "measure (\<lambda>x. case x of Inl (re, tx) \<Rightarrow> 2 * (length re + length tx)
    | Inr (c, re, tx) \<Rightarrow> Suc (2 * (length re + length tx)))", goal_cases)
  case (2 re tx)
  then have "1 < length re" by (intro nth_default_nz) simp
  then show ?case by simp
next
  case (3 re tx)
  then have "0 < length re" by (intro nth_default_nz) simp
  then show ?case by (cases re) auto
next
  case (5 c re tx)
  then have "0 < length tx" by (intro nth_default_nz) simp
  then show ?case by simp
qed simp_all

declare matchhere.simps [simp del] matchstar.simps [simp del]

text \<open>The \<^verbatim>\<open>do\<close> loop of \<^verbatim>\<open>match\<close> tries every suffix of the text, the empty one included.\<close>

fun match_loop :: "uint8 list \<Rightarrow> uint8 list \<Rightarrow> bool" where
  "match_loop re tx =
     (if matchhere re tx then True
      else if nth_default 0 tx 0 \<noteq> 0 then (case tx of [] \<Rightarrow> False | _ # t \<Rightarrow> match_loop re t)
      else False)"

definition match :: "uint8 list \<Rightarrow> uint8 list \<Rightarrow> bool" where
  "match re tx = (if nth_default 0 re 0 = CARET then matchhere (drop 1 re) tx else match_loop re tx)"

section \<open>What an expression denotes\<close>

text \<open>
  A reference reading of expressions: a sequence of items, each a symbol or a starred symbol, and a final dollar.  The
  language of the items is a set of words; a trailing dollar ties the word to the end of the text.
\<close>

datatype item = Sym uint8 | Many uint8

fun items :: "uint8 list \<Rightarrow> item list" where
  "items (c # d # re) = (if d = STAR then Many c # items re else Sym c # items (d # re))"
| "items [c] = (if c = DOLLAR then [] else [Sym c])"
| "items [] = []"

fun anchored :: "uint8 list \<Rightarrow> bool" where
  "anchored (c # d # re) = (if d = STAR then anchored re else anchored (d # re))"
| "anchored [c] \<longleftrightarrow> c = DOLLAR"
| "anchored [] \<longleftrightarrow> False"

definition sym_set :: "uint8 \<Rightarrow> uint8 set" where
  "sym_set c = (if c = DOT then UNIV else {c})"

primrec lang :: "item list \<Rightarrow> uint8 list set" where
  "lang [] = {[]}"
| "lang (i # is) = (case i of
       Sym c \<Rightarrow> {x # v | x v. x \<in> sym_set c \<and> v \<in> lang is}
     | Many c \<Rightarrow> {u @ v | u v. set u \<subseteq> sym_set c \<and> v \<in> lang is})"

definition denotes :: "uint8 list \<Rightarrow> uint8 list \<Rightarrow> bool" where
  "denotes re tx \<longleftrightarrow> (\<exists>v rest. tx = v @ rest \<and> v \<in> lang (items re) \<and> (anchored re \<longrightarrow> rest = []))"

lemma denotes_Nil [simp]: "denotes [] tx"
  by (simp add: denotes_def)

lemma denotes_dollar [simp]: "denotes [DOLLAR] tx \<longleftrightarrow> tx = []"
  by (auto simp: denotes_def)

lemma denotes_sym:
  assumes "re = [] \<longrightarrow> c \<noteq> DOLLAR" "re \<noteq> [] \<longrightarrow> hd re \<noteq> STAR"
  shows "denotes (c # re) tx \<longleftrightarrow> (\<exists>x t. tx = x # t \<and> x \<in> sym_set c \<and> denotes re t)"
proof -
  have "items (c # re) = Sym c # items re" "anchored (c # re) = anchored re"
    using assms by (cases re; simp)+
  note eqs = this
  have "denotes (c # re) tx \<longleftrightarrow>
      (\<exists>x v rest. tx = x # v @ rest \<and> x \<in> sym_set c \<and> v \<in> lang (items re) \<and> (anchored re \<longrightarrow> rest = []))"
    unfolding denotes_def eqs by (rule iffI, force, elim exE, rule_tac x = "x # v" in exI, force)
  then show ?thesis
    unfolding denotes_def by blast
qed

lemma denotes_many:
  "denotes (c # STAR # re) tx \<longleftrightarrow> (\<exists>u t. tx = u @ t \<and> set u \<subseteq> sym_set c \<and> denotes re t)"
proof -
  have "denotes (c # STAR # re) tx \<longleftrightarrow>
      (\<exists>u v rest. tx = (u @ v) @ rest \<and> set u \<subseteq> sym_set c \<and> v \<in> lang (items re) \<and> (anchored re \<longrightarrow> rest = []))"
    unfolding denotes_def by (rule iffI, force, elim exE, rule_tac x = "u @ v" in exI, force)
  then show ?thesis
    unfolding denotes_def append_assoc by blast
qed

lemma denotes_many_step:
  "denotes (c # STAR # re) tx \<longleftrightarrow>
   denotes re tx \<or> (\<exists>x t. tx = x # t \<and> x \<in> sym_set c \<and> denotes (c # STAR # re) t)"
proof
  assume "denotes (c # STAR # re) tx"
  then obtain u t where "tx = u @ t" "set u \<subseteq> sym_set c" "denotes re t"
    unfolding denotes_many by blast
  then show "denotes re tx \<or> (\<exists>x t. tx = x # t \<and> x \<in> sym_set c \<and> denotes (c # STAR # re) t)"
    unfolding denotes_many by (cases u) auto
next
  assume "denotes re tx \<or> (\<exists>x t. tx = x # t \<and> x \<in> sym_set c \<and> denotes (c # STAR # re) t)"
  then show "denotes (c # STAR # re) tx"
  proof (elim disjE exE conjE)
    assume "denotes re tx"
    then show ?thesis unfolding denotes_many by (intro exI[of _ "[]"] exI[of _ tx]) simp
  next
    fix x t assume "tx = x # t" "x \<in> sym_set c" "denotes (c # STAR # re) t"
    then show ?thesis
      unfolding denotes_many by (elim exE conjE) (rule_tac x = "x # u" in exI, auto)
  qed
qed

section \<open>The matcher decides what is denoted\<close>

lemma matchhere_denotes:
  "0 \<notin> set re \<Longrightarrow> 0 \<notin> set tx \<Longrightarrow> matchhere re tx = denotes re tx"
  "0 \<notin> set re \<Longrightarrow> 0 \<notin> set tx \<Longrightarrow> matchstar c re tx = denotes (c # STAR # re) tx"
proof (induction re tx and c re tx rule: matchhere_matchstar.induct)
  case (1 re tx)
  show ?case
  proof (cases re)
    case (Cons c re')
    with 1(3) have c: "c \<noteq> 0" "0 \<notin> set re'" by auto
    show ?thesis
    proof (cases re')
      case Nil
      show ?thesis
        using 1(2) Cons c Nil 1(4) by (subst matchhere.simps; cases tx; cases "c = DOLLAR")
          (auto simp: denotes_sym sym_set_def nth_default_def)
    next
      case (Cons d re'')
      note re = \<open>re = c # re'\<close> Cons
      show ?thesis
      proof (cases "d = STAR")
        case True
        then show ?thesis
          using 1(1) re c 1(4) by (subst matchhere.simps) (simp add: nth_default_def)
      next
        case False
        then show ?thesis
          using 1(2) re c 1(4) by (subst matchhere.simps; cases tx)
            (auto simp: denotes_sym sym_set_def nth_default_def)
      qed
    qed
  qed (simp add: matchhere.simps nth_default_def)
next
  case (2 c re tx)
  then show ?case
    by (subst matchstar.simps, subst denotes_many_step)
      (cases tx; auto simp: nth_default_def sym_set_def)
qed

lemma match_loop_denotes:
  "0 \<notin> set re \<Longrightarrow> 0 \<notin> set tx \<Longrightarrow> match_loop re tx \<longleftrightarrow> (\<exists>pre suf. tx = pre @ suf \<and> denotes re suf)"
proof (induction tx)
  case Nil
  then show ?case by (simp add: matchhere_denotes nth_default_def)
next
  case (Cons x tx)
  have "(\<exists>pre suf. x # tx = pre @ suf \<and> denotes re suf) \<longleftrightarrow>
      denotes re (x # tx) \<or> (\<exists>pre suf. tx = pre @ suf \<and> denotes re suf)"
    by (metis append_Cons append_Nil list.exhaust list.inject)
  with Cons show ?case by (simp add: matchhere_denotes nth_default_def)
qed

declare match_loop.simps [simp del]

text \<open>
  C27: the matcher of \<^verbatim>\<open>grep\<close> decides the language of the expression.  \<^verbatim>\<open>match\<close> always returns, and it accepts a line exactly
  when a word of the language of the expression occurs in it, with \<^verbatim>\<open>c\<close> standing for itself, \<^verbatim>\<open>.\<close> for any byte, \<^verbatim>\<open>x*\<close> for any
  number of such, a leading \<^verbatim>\<open>^\<close> tying the word to the start of the line and a trailing \<^verbatim>\<open>$\<close> to its end.
\<close>

theorem match_denotes:
  assumes "0 \<notin> set re" "0 \<notin> set tx"
  shows "match re tx \<longleftrightarrow> (if re \<noteq> [] \<and> hd re = CARET then denotes (tl re) tx
    else \<exists>pre suf. tx = pre @ suf \<and> denotes re suf)"
  using assms matchhere_denotes(1)[of "tl re" tx] match_loop_denotes[of re tx]
  by (cases re) (auto simp: match_def nth_default_def)

theorem match_denotes_witness: "match (ascii ''a*b$'') (ascii ''xaab'')"
proof -
  have re: "ascii ''a*b$'' = [97, STAR, 98, DOLLAR]" and tx: "ascii ''xaab'' = [120, 97, 97, 98]"
    by (simp_all add: ascii_def)
  have "denotes [97, STAR, 98, DOLLAR] [97, 97, 98]"
    unfolding denotes_many by (intro exI[of _ "[97, 97]"] exI[of _ "[98]"]) (simp add: denotes_sym sym_set_def)
  then have "\<exists>pre suf. [120, 97, 97, 98] = pre @ suf \<and> denotes [97, STAR, 98, DOLLAR] suf"
    by (intro exI[of _ "[120]"] exI[of _ "[97, 97, 98]"]) simp
  then show ?thesis
    unfolding re tx by (subst match_denotes) simp_all
qed

section \<open>Searching a file\<close>

text \<open>
  The inner loop of \<^verbatim>\<open>grep\<close> over the bytes from \<^verbatim>\<open>p\<close> to the end of the data, which it returns when they hold no complete line.
\<close>

function grep_lines :: "'w usys \<Rightarrow> uint8 list \<Rightarrow> uint8 list \<Rightarrow> 'w \<Rightarrow> uint8 list \<times> 'w" where
  "grep_lines K re p w =
     (case find_char p 10 of None \<Rightarrow> (p, w)
      | Some q \<Rightarrow>
          let w = (if match re (take q p) then snd (u_write K 1 (take (q + 1) p) w) else w)
          in grep_lines K re (drop (q + 1) p) w)"
  by pat_completeness auto
termination
  by (relation "measure (\<lambda>(K, re, p, w). length p)") (auto dest: find_char_Some)

declare grep_lines.simps [simp del]

text \<open>\<open>b\<close> holds the bytes of \<^verbatim>\<open>buf\<close> below \<^verbatim>\<open>m\<close>.\<close>

partial_function (option) grep_loop :: "'w usys \<Rightarrow> uint8 list \<Rightarrow> int \<Rightarrow> uint8 list \<Rightarrow> 'w \<Rightarrow> 'w option" where
  "grep_loop K re fd b w =
     (let (n, d, w) = u_read K fd (1024 - int (length b) - 1) w in
      if n > 0 then let (b, w) = grep_lines K re (b @ d) w in grep_loop K re fd b w
      else Some w)"

definition grep :: "'w usys \<Rightarrow> uint8 list \<Rightarrow> int \<Rightarrow> 'w \<Rightarrow> 'w option" where
  "grep K pattern fd w = grep_loop K pattern fd [] w"

text \<open>\<^verbatim>\<open>main\<close>, over the files named on the command line; the result is the exit status.\<close>

primrec grep_files :: "'w usys \<Rightarrow> uint8 list \<Rightarrow> uint8 list list \<Rightarrow> 'w \<Rightarrow> (int \<times> 'w) res" where
  "grep_files K pattern [] w = Inr (0, w)"
| "grep_files K pattern (f # fs) w =
     (let (fd, w) = u_open K f 0 w in
      if fd < 0 then bnd (printf_u K (ascii ''grep: cannot open %s\<newline>'') [UStr (Some f)] w) (\<lambda>w. Inr (1, w))
      else case grep K pattern fd w of None \<Rightarrow> Inl Hang
        | Some w \<Rightarrow> grep_files K pattern fs (snd (u_close K fd w)))"

definition grep_main :: "'w usys \<Rightarrow> uint8 list list \<Rightarrow> 'w \<Rightarrow> (int \<times> 'w) res" where
  "grep_main K argv w =
     (case argv of
        _ # pattern # [] \<Rightarrow> (case grep K pattern 0 w of None \<Rightarrow> Inl Hang | Some w \<Rightarrow> Inr (0, w))
      | _ # pattern # fs \<Rightarrow> grep_files K pattern fs w
      | _ \<Rightarrow> bnd (fprintf_u K 2 (ascii ''usage: grep pattern [file ...]\<newline>'') [] w) (\<lambda>w. Inr (1, w)))"

text \<open>
  The complete lines of a text, each with its newline, and what is left.
\<close>

primrec lines :: "uint8 list \<Rightarrow> uint8 list list \<times> uint8 list" where
  "lines [] = ([], [])"
| "lines (b # bs) = (let (ls, r) = lines bs in
     if b = 10 then ([b] # ls, r)
     else case ls of [] \<Rightarrow> ([], b # r) | l # ls' \<Rightarrow> ((b # l) # ls', r))"

lemma lines_none: "10 \<notin> set bs \<Longrightarrow> lines bs = ([], bs)"
  by (induction bs) auto

lemma lines_rest: "10 \<notin> set (snd (lines bs))"
  by (induction bs) (auto split: prod.splits list.splits)

lemma lines_join: "concat (fst (lines bs)) @ snd (lines bs) = bs"
  by (induction bs) (auto split: prod.splits list.splits)

lemma lines_append:
  "lines (xs @ ys) = (fst (lines xs) @ fst (lines (snd (lines xs) @ ys)), snd (lines (snd (lines xs) @ ys)))"
proof (induction xs)
  case (Cons x xs)
  obtain ls r where "lines xs = (ls, r)" by fastforce
  then show ?case
    using Cons.IH by (cases ls) (simp_all add: split_beta)
qed simp

lemma lines_find:
  "find_char p 10 = Some q \<Longrightarrow> lines p = (take (Suc q) p # fst (lines (drop (Suc q) p)), snd (lines (drop (Suc q) p)))"
proof (induction p arbitrary: q)
  case (Cons b bs)
  show ?case
  proof (cases "b = 10")
    case False
    with Cons.prems obtain k where "q = Suc k" "find_char bs 10 = Some k"
      by (auto split: if_splits)
    with False Cons.IH[of k] show ?thesis by simp
  qed (use Cons.prems in \<open>simp add: split_beta\<close>)
qed simp

lemma lines_some: "10 \<in> set ys \<Longrightarrow> \<exists>l ls. fst (lines ys) = l # ls \<and> 0 < length l"
proof (induction ys)
  case (Cons y ys)
  obtain ls r where "lines ys = (ls, r)" by fastforce
  with Cons show ?case by (cases "y = 10"; cases ls) auto
qed simp

lemma lines_long: "10 \<notin> set xs \<Longrightarrow> 10 \<in> set ys \<Longrightarrow> \<exists>l ls. fst (lines (xs @ ys)) = l # ls \<and> length xs < length l"
proof (induction xs)
  case (Cons x xs)
  then obtain l ls r where "lines (xs @ ys) = (l # ls, r)" "length xs < length l"
    by (cases "lines (xs @ ys)") auto
  with Cons.prems show ?case by simp
qed (use lines_some in simp)

text \<open>What \<^verbatim>\<open>grep\<close> is for: the complete lines in which the pattern occurs.\<close>

definition matching :: "uint8 list \<Rightarrow> uint8 list \<Rightarrow> uint8 list" where
  "matching re bs = concat (filter (\<lambda>l. match re (butlast l)) (fst (lines bs)))"

lemma grep_lines_matching:
  assumes io: "stdio K fd inp outp" and "0 \<notin> set p"
  shows "\<exists>w'. grep_lines K re p w = (snd (lines p), w') \<and> inp w' = inp w \<and> outp w' = outp w @ matching re p"
  using assms(2)
proof (induction "length p" arbitrary: p w rule: less_induct)
  case less
  show ?case
  proof (cases "find_char p 10")
    case None
    then have "lines p = ([], p)"
      using less.prems find_char_None lines_none by blast
    then show ?thesis
      using None by (subst grep_lines.simps) (simp add: matching_def)
  next
    case (Some q)
    note q = find_char_Some[OF Some]
    let ?p = "drop (Suc q) p" and ?w = "if match re (take q p) then snd (u_write K 1 (take (Suc q) p) w) else w"
    have "0 \<notin> set ?p" "length ?p < length p"
      using less.prems q by (auto dest: in_set_dropD)
    then obtain w' where "grep_lines K re ?p ?w = (snd (lines ?p), w')" "inp w' = inp ?w" "outp w' = outp ?w @ matching re ?p"
      using less.hyps[of ?p ?w] by blast
    moreover have "grep_lines K re p w = grep_lines K re ?p ?w"
      using Some by (subst grep_lines.simps) (simp add: Let_def)
    moreover have "butlast (take (Suc q) p) = take q p"
      using q by (simp add: butlast_take)
    ultimately show ?thesis
      by (simp add: lines_find[OF Some] matching_def stdio_write[OF io])
  qed
qed

lemma grep_loop_matching:
  assumes io: "stdio K fd inp outp" and "10 \<notin> set b" "0 \<notin> set (b @ inp w)" "length b \<le> 1023"
    and "\<forall>l\<in>set (fst (lines (b @ inp w))). length l \<le> 1023"
  shows "\<exists>w'. grep_loop K re fd b w = Some w' \<and> outp w' = outp w @ matching re (b @ inp w)"
  using assms(2-)
proof (induction "length (inp w)" arbitrary: b w rule: less_induct)
  case less
  obtain d w1 where rd: "u_read K fd (1023 - int (length b)) w = (int (length d), d, w1)" "inp w = d @ inp w1"
    "int (length d) \<le> 1023 - int (length b)" "0 < 1023 - int (length b) \<Longrightarrow> inp w \<noteq> [] \<Longrightarrow> d \<noteq> []" "outp w1 = outp w"
    using stdio_read[OF io, of "1023 - int (length b)" w] less.prems(3) by auto
  show ?case
  proof (cases "d = []")
    case True
    have "10 \<notin> set (inp w)"
    proof
      assume nl: "10 \<in> set (inp w)"
      then obtain l ls where "fst (lines (b @ inp w)) = l # ls" "length b < length l"
        using lines_long[OF less.prems(1)] by blast
      with less.prems(3,4) rd(4) True nl show False by fastforce
    qed
    then have "lines (b @ inp w) = ([], b @ inp w)"
      using less.prems(1) by (intro lines_none) simp
    with True rd show ?thesis
      by (subst grep_loop.simps) (simp add: matching_def)
  next
    case False
    let ?x = "b @ d"
    obtain w2 where gl: "grep_lines K re ?x w1 = (snd (lines ?x), w2)" "inp w2 = inp w1" "outp w2 = outp w1 @ matching re ?x"
      using grep_lines_matching[OF io, of ?x re w1] less.prems(2) rd(2) by auto
    have run: "grep_loop K re fd b w = grep_loop K re fd (snd (lines ?x)) w2"
      using False rd(1) gl(1) by (subst grep_loop.simps) simp
    have "length (snd (lines ?x)) \<le> length ?x" "set (snd (lines ?x)) \<subseteq> set ?x"
      using lines_join[of ?x] by (metis length_append le_add2, metis Un_upper2 set_append)
    note sub = this
    have app: "lines (b @ inp w) = (fst (lines ?x) @ fst (lines (snd (lines ?x) @ inp w2)), snd (lines (snd (lines ?x) @ inp w2)))"
      using lines_append[of ?x "inp w1"] rd(2) gl(2) by simp
    have "\<exists>w'. grep_loop K re fd (snd (lines ?x)) w2 = Some w' \<and> outp w' = outp w2 @ matching re (snd (lines ?x) @ inp w2)"
    proof (rule less.hyps)
      show "length (inp w2) < length (inp w)" using False rd(2) gl(2) by simp
      show "0 \<notin> set (snd (lines ?x) @ inp w2)" using less.prems(2) rd(2) gl(2) sub(2) by auto
      show "length (snd (lines ?x)) \<le> 1023" using sub(1) rd(3) by simp
      show "\<forall>l\<in>set (fst (lines (snd (lines ?x) @ inp w2))). length l \<le> 1023" using less.prems(4) app by simp
    qed (rule lines_rest)
    then show ?thesis
      using run gl(3) rd(5) app by (auto simp: matching_def)
  qed
qed

text \<open>
  C28: \<^verbatim>\<open>grep\<close> finds the lines, however the input arrives.  On input without zero bytes whose lines fit in its buffer of 1024 bytes, \<^verbatim>\<open>grep\<close>
  ends, and what it has written is the lines in which the pattern occurs, in order; an unterminated last line
  is not one of them.  This does not depend on how many bytes each \<^verbatim>\<open>read\<close> delivers.
\<close>

theorem grep_prints_matching:
  assumes "stdio K fd inp outp" "0 \<notin> set (inp w)" "\<forall>l\<in>set (fst (lines (inp w))). length l \<le> 1023"
  shows "\<exists>w'. grep K re fd w = Some w' \<and>
    outp w' = outp w @ concat (filter (\<lambda>l. match re (butlast l)) (fst (lines (inp w))))"
  using grep_loop_matching[of K fd inp outp "[]" w re] assms by (simp add: grep_def matching_def)

theorem grep_prints_matching_witness:
  "\<exists>w'. grep (pieces 2) [98] 0 ([97, 10, 98, 97, 10, 98], []) = Some w' \<and> snd w' = [98, 97, 10]"
proof -
  have "match [98] [98, 97]" "\<not> match [98] [97]"
    by (simp_all add: match_def nth_default_def match_loop.simps matchhere.simps)
  moreover have "stdio (pieces 2) 0 fst snd"
    by (rule stdio_pieces) simp
  ultimately show ?thesis
    using grep_prints_matching[of "pieces 2" 0 fst snd "([97, 10, 98, 97, 10, 98], [])" "[98]"] by simp
qed

end
