(* ===== verification/Xv6_Wc.thy ===== *)
theory Xv6_Wc
  imports Xv6_Uprintf
begin

text \<open>
  The filters \<^verbatim>\<open>user/wc.c\<close>, \<^verbatim>\<open>user/cat.c\<close> and \<^verbatim>\<open>user/echo.c\<close>.
\<close>

section \<open>wc\<close>

text \<open>The counters of lines, words and bytes are 32 bits wide.\<close>

record counts =
  wc_l :: uint32
  wc_w :: uint32
  wc_c :: uint32
  wc_inword :: bool

definition blank :: "uint8 \<Rightarrow> bool" where
  "blank b \<longleftrightarrow> find_char [32, 13, 9, 10, 11] b \<noteq> None"

definition wc_byte :: "counts \<Rightarrow> uint8 \<Rightarrow> counts" where
  "wc_byte st b =
     (let st = st\<lparr>wc_c := wc_c st + 1\<rparr>;
          st = (if b = 10 then st\<lparr>wc_l := wc_l st + 1\<rparr> else st)
      in if blank b then st\<lparr>wc_inword := False\<rparr>
         else if \<not> wc_inword st then st\<lparr>wc_w := wc_w st + 1, wc_inword := True\<rparr>
         else st)"

partial_function (option) wc_loop :: "'w usys \<Rightarrow> int \<Rightarrow> counts \<Rightarrow> 'w \<Rightarrow> (int \<times> counts \<times> 'w) option" where
  "wc_loop K fd st w =
     (let (n, d, w) = u_read K fd 512 w in
      if n > 0 then wc_loop K fd (foldl wc_byte st d) w else Some (n, st, w))"

definition wc :: "'w usys \<Rightarrow> int \<Rightarrow> uint8 list \<Rightarrow> 'w \<Rightarrow> (unit, 'w) uout res" where
  "wc K fd name w =
     (case wc_loop K fd \<lparr>wc_l = 0, wc_w = 0, wc_c = 0, wc_inword = False\<rparr> w of None \<Rightarrow> Inl Hang
      | Some (n, st, w) \<Rightarrow>
          if n < 0 then bnd (printf_u K (ascii ''wc: read error\<newline>'') [] w) (\<lambda>w. Inr (Exit 1 w))
          else bnd (printf_u K (ascii ''%d %d %d %s\<newline>'')
            [UInt (int_of_u32 (wc_l st)), UInt (int_of_u32 (wc_w st)), UInt (int_of_u32 (wc_c st)), UStr (Some name)] w)
            (\<lambda>w. Inr (Ret () w)))"

primrec wc_files :: "'w usys \<Rightarrow> uint8 list list \<Rightarrow> 'w \<Rightarrow> (int \<times> 'w) res" where
  "wc_files K [] w = Inr (0, w)"
| "wc_files K (f # fs) w =
     (let (fd, w) = u_open K f 0 w in
      if fd < 0 then bnd (printf_u K (ascii ''wc: cannot open %s\<newline>'') [UStr (Some f)] w) (\<lambda>w. Inr (1, w))
      else bnd (wc K fd f w) (\<lambda>r. case r of Exit c w \<Rightarrow> Inr (c, w) | Ret _ w \<Rightarrow> wc_files K fs (snd (u_close K fd w))))"

definition wc_main :: "'w usys \<Rightarrow> uint8 list list \<Rightarrow> 'w \<Rightarrow> (int \<times> 'w) res" where
  "wc_main K argv w =
     (if length argv \<le> 1 then bnd (wc K 0 [] w) (\<lambda>r. case r of Exit c w \<Rightarrow> Inr (c, w) | Ret _ w \<Rightarrow> Inr (0, w))
      else wc_files K (tl argv) w)"

section \<open>cat and echo\<close>

partial_function (option) cat_loop :: "'w usys \<Rightarrow> int \<Rightarrow> 'w \<Rightarrow> (unit, 'w) uout res option" where
  "cat_loop K fd w =
     (let (n, d, w) = u_read K fd 512 w in
      if n > 0 then
        let (r, w) = u_write K 1 d w in
        if r \<noteq> n then Some (bnd (fprintf_u K 2 (ascii ''cat: write error\<newline>'') [] w) (\<lambda>w. Inr (Exit 1 w)))
        else cat_loop K fd w
      else if n < 0 then Some (bnd (fprintf_u K 2 (ascii ''cat: read error\<newline>'') [] w) (\<lambda>w. Inr (Exit 1 w)))
      else Some (Inr (Ret () w)))"

definition cat :: "'w usys \<Rightarrow> int \<Rightarrow> 'w \<Rightarrow> (unit, 'w) uout res" where
  "cat K fd w = (case cat_loop K fd w of None \<Rightarrow> Inl Hang | Some r \<Rightarrow> r)"

primrec cat_files :: "'w usys \<Rightarrow> uint8 list list \<Rightarrow> 'w \<Rightarrow> (int \<times> 'w) res" where
  "cat_files K [] w = Inr (0, w)"
| "cat_files K (f # fs) w =
     (let (fd, w) = u_open K f 0 w in
      if fd < 0 then bnd (fprintf_u K 2 (ascii ''cat: cannot open %s\<newline>'') [UStr (Some f)] w) (\<lambda>w. Inr (1, w))
      else bnd (cat K fd w) (\<lambda>r. case r of Exit c w \<Rightarrow> Inr (c, w) | Ret _ w \<Rightarrow> cat_files K fs (snd (u_close K fd w))))"

definition cat_main :: "'w usys \<Rightarrow> uint8 list list \<Rightarrow> 'w \<Rightarrow> (int \<times> 'w) res" where
  "cat_main K argv w =
     (if length argv \<le> 1 then bnd (cat K 0 w) (\<lambda>r. case r of Exit c w \<Rightarrow> Inr (c, w) | Ret _ w \<Rightarrow> Inr (0, w))
      else cat_files K (tl argv) w)"

fun echo_args :: "'w usys \<Rightarrow> uint8 list list \<Rightarrow> 'w \<Rightarrow> 'w" where
  "echo_args K [] w = w"
| "echo_args K (a # as) w =
     echo_args K as (snd (u_write K 1 (if as \<noteq> [] then [32] else [10]) (snd (u_write K 1 a w))))"

definition echo_main :: "'w usys \<Rightarrow> uint8 list list \<Rightarrow> 'w \<Rightarrow> int \<times> 'w" where
  "echo_main K argv w = (0, echo_args K (tl argv) w)"

section \<open>What wc counts\<close>

text \<open>A word of a text begins at a byte that is no blank and has none before it.\<close>

definition word_starts :: "uint8 list \<Rightarrow> nat set" where
  "word_starts bs = {i. i < length bs \<and> \<not> blank (bs ! i) \<and> (i = 0 \<or> blank (bs ! (i - 1)))}"

lemma word_starts_snoc:
  "word_starts (bs @ [b]) = word_starts bs \<union> (if \<not> blank b \<and> (bs = [] \<or> blank (last bs)) then {length bs} else {})"
  by (cases bs rule: rev_cases) (auto simp: word_starts_def nth_append less_Suc_eq)

lemma finite_word_starts [simp]: "finite (word_starts bs)"
  by (rule finite_subset[of _ "{..<length bs}"]) (auto simp: word_starts_def)

lemma card_word_starts_snoc:
  "card (word_starts (bs @ [b])) = card (word_starts bs) + (if \<not> blank b \<and> (bs = [] \<or> blank (last bs)) then 1 else 0)"
proof -
  have "length bs \<notin> word_starts bs" by (simp add: word_starts_def)
  then show ?thesis by (simp add: word_starts_snoc)
qed

abbreviation (input) wc_start :: counts where
  "wc_start \<equiv> \<lparr>wc_l = 0, wc_w = 0, wc_c = 0, wc_inword = False\<rparr>"

lemma wc_fold:
  "foldl wc_byte wc_start bs = \<lparr>wc_l = of_nat (count_list bs 10), wc_w = of_nat (card (word_starts bs)),
     wc_c = of_nat (length bs), wc_inword = (bs \<noteq> [] \<and> \<not> blank (last bs))\<rparr>"
proof (induction bs rule: rev_induct)
  case (snoc b bs)
  then show ?case
    by (auto simp: wc_byte_def Let_def card_word_starts_snoc)
qed (simp add: word_starts_def)

lemma wc_loop_counts:
  assumes "stdio K fd inp outp"
  shows "\<exists>w'. wc_loop K fd (foldl wc_byte wc_start x) w = Some (0, foldl wc_byte wc_start (x @ inp w), w') \<and> outp w' = outp w"
proof (induction "length (inp w)" arbitrary: x w rule: less_induct)
  case less
  obtain d w1 where rd: "u_read K fd 512 w = (int (length d), d, w1)" "inp w = d @ inp w1"
    "inp w \<noteq> [] \<Longrightarrow> d \<noteq> []" "outp w1 = outp w"
    using stdio_read[OF assms, of 512 w] by (metis zero_le_numeral zero_less_numeral)
  show ?case
  proof (cases "d = []")
    case True
    then have "inp w = []" using rd(3) by blast
    with True rd(1,4) show ?thesis by (subst wc_loop.simps) simp
  next
    case False
    then have "wc_loop K fd (foldl wc_byte wc_start x) w = wc_loop K fd (foldl wc_byte wc_start (x @ d)) w1"
      using rd(1) by (subst wc_loop.simps) simp
    moreover have "length (inp w1) < length (inp w)" using rd(2) False by simp
    ultimately show ?thesis
      using less.hyps[of w1 "x @ d"] rd(2,4) by simp
  qed
qed

lemma puts_u_out: "stdio K fd inp outp \<Longrightarrow> outp (puts_u K 1 cs w) = outp w @ cs"
  by (induction cs arbitrary: w) (simp_all add: putc_u_def stdio_write)

lemma putc_u_out: "stdio K fd inp outp \<Longrightarrow> outp (putc_u K 1 c w) = outp w @ [c]"
  by (simp add: putc_u_def stdio_write)

text \<open>
  C29: \<^verbatim>\<open>wc\<close> counts.  On a file of less than 2 GiB, however its bytes are delivered, it ends and prints the number of newlines, of words and of bytes
  and the name, where a word begins at each byte that is no blank and has none before it.
\<close>

theorem wc_counts:
  assumes io: "stdio K fd inp outp" and len: "length (inp w) < 2 ^ 31"
  shows "\<exists>w'. wc K fd name w = Inr (Ret () w') \<and>
    outp w' = outp w @ printint_u (int (count_list (inp w) 10)) 10 True @ [32] @
      printint_u (int (card (word_starts (inp w)))) 10 True @ [32] @ printint_u (int (length (inp w))) 10 True @ [32] @ name @ [10]"
proof -
  have "count_list (inp w) 10 \<le> length (inp w)"
    by (rule count_le_length)
  moreover have "card (word_starts (inp w)) \<le> card {..<length (inp w)}"
    by (rule card_mono) (auto simp: word_starts_def)
  ultimately have small: "count_list (inp w) 10 < 2 ^ 31" "card (word_starts (inp w)) < 2 ^ 31"
    using len by auto
  have fmt: "ascii ''%d %d %d %s\<newline>'' = [37, 100, 32, 37, 100, 32, 37, 100, 32, 37, 115, 10]"
    by (simp add: ascii_def)
  obtain w' where "wc_loop K fd wc_start w = Some (0, foldl wc_byte wc_start (inp w), w')" "outp w' = outp w"
    using wc_loop_counts[OF io, of "[]" w] by auto
  with len small show ?thesis
    by (simp add: wc_def wc_fold fmt printf_u_def puts_u_out[OF io] putc_u_out[OF io] int_of_u32_nat)
qed

theorem wc_counts_witness:
  "\<exists>w'. wc (pieces 3) 0 [120] ([97, 98, 32, 99, 10], []) = Inr (Ret () w') \<and> snd w' = [49, 32, 50, 32, 53, 32, 120, 10]"
proof -
  let ?t = "[97, 98, 32, 99, 10] :: uint8 list"
  have "word_starts ?t = set (filter (\<lambda>i. \<not> blank (?t ! i) \<and> (i = 0 \<or> blank (?t ! (i - 1)))) [0..<5])"
    by (auto simp: word_starts_def)
  then have "card (word_starts ?t) = 2"
    by (simp add: upt_rec blank_def)
  moreover have "stdio (pieces 3) 0 fst snd"
    by (rule stdio_pieces) simp
  ultimately show ?thesis
    using wc_counts[of "pieces 3" 0 fst snd "([97, 98, 32, 99, 10], [])" "[120]"]
    by (simp add: printint_u_def printint_digits_u.simps Let_def u32_of_int_def digits_u_def ascii_def)
qed

end
