(* ===== verification/Xv6_Sh.thy ===== *)
theory Xv6_Sh
  imports Xv6_Uprintf
begin

text \<open>
  \<^verbatim>\<open>user/sh.c\<close>: the shell.  A pointer into the command line is the rest of the line from there on; a token is the pair of the
  pointers to its first byte and behind its last.  The nodes of a command, which the code allocates with
  \<^verbatim>\<open>malloc\<close>, are values of a datatype.  \<^verbatim>\<open>panic\<close> prints a message and ends the shell process: the parser returns the
  message instead.
\<close>

section \<open>Data\<close>

type_synonym token = "uint8 list \<times> uint8 list"

datatype 't cmd = Exec "'t list" | Redir "'t cmd" 't int int | Pipe "'t cmd" "'t cmd" | ListCmd "'t cmd" "'t cmd" | Back "'t cmd"

type_synonym pcmd = "token cmd"

abbreviation (input) O_RDONLY :: int where "O_RDONLY \<equiv> 0"
abbreviation (input) O_WRONLY :: int where "O_WRONLY \<equiv> 1"
abbreviation (input) O_RDWR :: int where "O_RDWR \<equiv> 2"
abbreviation (input) O_CREATE :: int where "O_CREATE \<equiv> 0x200"
abbreviation (input) O_TRUNC :: int where "O_TRUNC \<equiv> 0x400"
abbreviation (input) MAXARGS :: nat where "MAXARGS \<equiv> 10"

definition whitespace :: "uint8 list" where
  "whitespace = [32, 9, 13, 10, 11]"

definition symbols :: "uint8 list" where
  "symbols = ascii ''<|>&;()''"

definition is_space :: "uint8 \<Rightarrow> bool" where
  "is_space c \<longleftrightarrow> find_char whitespace c \<noteq> None"

definition is_symbol :: "uint8 \<Rightarrow> bool" where
  "is_symbol c \<longleftrightarrow> find_char symbols c \<noteq> None"

section \<open>The parser\<close>

text \<open>The \<^verbatim>\<open>switch\<close> of \<^verbatim>\<open>gettoken\<close>: the kind of the token at \<^verbatim>\<open>s\<close> and the pointer behind it.\<close>

definition token_at :: "uint8 list \<Rightarrow> uint8 \<times> uint8 list" where
  "token_at s =
     (case s of [] \<Rightarrow> (0, s)
      | c # t \<Rightarrow>
          if c \<in> {of_char CHR ''|'', of_char CHR ''('', of_char CHR '')'', of_char CHR '';'', of_char CHR ''&'', of_char CHR ''<''}
          then (c, t)
          else if c = of_char CHR ''>'' then
            (case t of d # u \<Rightarrow> if d = of_char CHR ''>'' then (of_char CHR ''+'', u) else (c, t) | [] \<Rightarrow> (c, t))
          else (of_char CHR ''a'', dropWhile (\<lambda>c. \<not> is_space c \<and> \<not> is_symbol c) s))"

definition gettoken :: "uint8 list \<Rightarrow> uint8 \<times> uint8 list \<times> uint8 list \<times> uint8 list" where
  "gettoken ps =
     (let q = dropWhile is_space ps; (ret, eq) = token_at q in (ret, q, eq, dropWhile is_space eq))"

definition peek :: "uint8 list \<Rightarrow> string \<Rightarrow> bool \<times> uint8 list" where
  "peek ps toks =
     (let s = dropWhile is_space ps in (case s of [] \<Rightarrow> False | c # _ \<Rightarrow> find_char (ascii toks) c \<noteq> None, s))"

lemma dropWhile_length: "length (dropWhile P xs) \<le> length xs"
  by (induction xs) auto

lemma is_symbol_iff:
  "is_symbol c \<longleftrightarrow> c \<in> {60, 124, 62, 38, 59, 40, 41}"
  by (simp add: is_symbol_def symbols_def ascii_def)

lemma is_space_iff: "is_space c \<longleftrightarrow> c \<in> {32, 9, 13, 10, 11}"
  by (simp add: is_space_def whitespace_def)

lemma token_at_length: "\<not> is_space c \<Longrightarrow> token_at (c # t) = (ret, u) \<Longrightarrow> length u \<le> length t"
  using dropWhile_length[of "\<lambda>c. \<not> is_space c \<and> \<not> is_symbol c" t]
  by (auto simp: token_at_def is_symbol_iff split: if_splits list.splits)

lemma gettoken_length:
  assumes "gettoken ps = (ret, q, eq, s)" "dropWhile is_space ps \<noteq> []"
  shows "length s < length ps"
proof -
  obtain c t where ct: "dropWhile is_space ps = c # t"
    using assms(2) by (cases "dropWhile is_space ps") auto
  then have "\<not> is_space c"
    using hd_dropWhile[of is_space ps] assms(2) by simp
  moreover have "token_at (c # t) = (ret, eq)" "s = dropWhile is_space eq"
    using assms(1) ct by (auto simp: gettoken_def Let_def split: prod.splits)
  ultimately have "length s \<le> length t"
    using token_at_length dropWhile_length[of is_space eq] by fastforce
  then show ?thesis
    using dropWhile_length[of is_space ps] ct by simp
qed

lemma gettoken_le: "gettoken ps = (ret, q, eq, s) \<Longrightarrow> length s \<le> length ps"
  using gettoken_length[of ps ret q eq s]
  by (cases "dropWhile is_space ps = []") (auto simp: gettoken_def token_at_def)

lemma peek_rest: "peek ps toks = (b, s) \<Longrightarrow> s = dropWhile is_space ps \<and> (b \<longrightarrow> s \<noteq> [])"
  by (auto simp: peek_def Let_def split: list.splits)

lemma dropWhile_space_idem [simp]: "dropWhile is_space (dropWhile is_space s) = dropWhile is_space s"
  by (rule dropWhile_idem)

lemma peek_token:
  assumes "peek ps toks = (True, s)" "gettoken s = (tok, q, eq, s')"
  shows "length s' < length ps"
proof -
  have s: "s = dropWhile is_space ps" "s \<noteq> []"
    using peek_rest[OF assms(1)] by blast+
  then have "dropWhile is_space s \<noteq> []" by (metis dropWhile_space_idem)
  from gettoken_length[OF assms(2) this] show ?thesis
    using s(1) dropWhile_length[of is_space ps] by simp
qed

text \<open>The \<^verbatim>\<open>switch\<close> of \<^verbatim>\<open>parseredirs\<close>.\<close>

definition redir_for :: "uint8 \<Rightarrow> pcmd \<Rightarrow> token \<Rightarrow> pcmd" where
  "redir_for tok c f =
     (if tok = of_char CHR ''<'' then Redir c f O_RDONLY 0
      else if tok = of_char CHR ''>'' then Redir c f (O_WRONLY + O_CREATE + O_TRUNC) 1
      else if tok = of_char CHR ''+'' then Redir c f (O_WRONLY + O_CREATE) 1
      else c)"

function parseredirs :: "pcmd \<Rightarrow> uint8 list \<Rightarrow> (pcmd \<times> uint8 list) res" where
  "parseredirs c ps =
     (let (more, s) = peek ps ''<>'' in
      if more then
        let (tok, _, _, s) = gettoken s; (tok', q, eq, s) = gettoken s in
        if tok' \<noteq> of_char CHR ''a'' then Inl (Panic ''missing file for redirection'')
        else parseredirs (redir_for tok c (q, eq)) s
      else Inr (c, s))"
  by pat_completeness auto
termination
proof (relation "measure (\<lambda>(c, ps). length ps)", goal_cases)
  case (2 c ps x more s x1 tok y1 y2 y3 y4 s1 x2 tok' z1 q z2 eq s2)
  then have e: "peek ps ''<>'' = (True, s)" "gettoken s = (tok, y2, y4, s1)" "gettoken s1 = (tok', q, eq, s2)"
    by auto
  from peek_token[OF e(1,2)] gettoken_le[OF e(3)] show ?case by simp
qed simp

text \<open>The arguments are stored in the node of the command itself, below the redirections around it.\<close>

primrec put_arg :: "token \<Rightarrow> pcmd \<Rightarrow> pcmd" where
  "put_arg t (Exec ts) = Exec (ts @ [t])"
| "put_arg t (Redir c f m fd) = Redir (put_arg t c) f m fd"
| "put_arg t (Pipe a b) = Pipe a b"
| "put_arg t (ListCmd a b) = ListCmd a b"
| "put_arg t (Back c) = Back c"

function parseargs :: "pcmd \<Rightarrow> nat \<Rightarrow> uint8 list \<Rightarrow> (pcmd \<times> uint8 list) res" where
  "parseargs ret argc ps =
     (let (stop, s) = peek ps ''|)&;'' in
      if stop then Inr (ret, s)
      else let (tok, q, eq, s) = gettoken s in
        if tok = 0 then Inr (ret, s)
        else if tok \<noteq> of_char CHR ''a'' then Inl (Panic ''syntax'')
        else if Suc argc \<ge> MAXARGS then Inl (Panic ''too many args'')
        else bnd (parseredirs (put_arg (q, eq) ret) s) (\<lambda>(ret, s). parseargs ret (Suc argc) s))"
  by pat_completeness auto
termination
  by (relation "measure (\<lambda>(ret, argc, ps). MAXARGS - argc)") auto

function parseback :: "pcmd \<Rightarrow> uint8 list \<Rightarrow> pcmd \<times> uint8 list" where
  "parseback c ps =
     (let (more, s) = peek ps ''&'' in
      if more then let (_, _, _, s) = gettoken s in parseback (Back c) s else (c, s))"
  by pat_completeness auto
termination
proof (relation "measure (\<lambda>(c, ps). length ps)", goal_cases)
  case (2 c ps x more s x1 tok y1 q y2 eq s1)
  then have "peek ps ''&'' = (True, s)" "gettoken s = (tok, q, eq, s1)"
    by auto
  from peek_token[OF this] show ?case by simp
qed simp

declare parseredirs.simps [simp del] parseargs.simps [simp del] parseback.simps [simp del]

text \<open>
  The four mutually recursive functions; the first argument bounds the depth of the recursion.  \<open>parsecmd\<close> starts
  with a bound that the length of the line cannot exhaust.
\<close>

fun parseline :: "nat \<Rightarrow> uint8 list \<Rightarrow> (pcmd \<times> uint8 list) res"
  and parsepipe :: "nat \<Rightarrow> uint8 list \<Rightarrow> (pcmd \<times> uint8 list) res"
  and parseexec :: "nat \<Rightarrow> uint8 list \<Rightarrow> (pcmd \<times> uint8 list) res"
  and parseblock :: "nat \<Rightarrow> uint8 list \<Rightarrow> (pcmd \<times> uint8 list) res" where
  "parseline 0 ps = Inl Hang"
| "parseline (Suc n) ps =
     bnd (parsepipe n ps) (\<lambda>(c, s).
       let (c, s) = parseback c s; (semi, s) = peek s '';'' in
       if semi then
         let (_, _, _, s) = gettoken s in bnd (parseline n s) (\<lambda>(c', s). Inr (ListCmd c c', s))
       else Inr (c, s))"
| "parsepipe 0 ps = Inl Hang"
| "parsepipe (Suc n) ps =
     bnd (parseexec n ps) (\<lambda>(c, s).
       let (bar, s) = peek s ''|'' in
       if bar then let (_, _, _, s) = gettoken s in bnd (parsepipe n s) (\<lambda>(c', s). Inr (Pipe c c', s))
       else Inr (c, s))"
| "parseexec 0 ps = Inl Hang"
| "parseexec (Suc n) ps =
     (let (paren, s) = peek ps ''('' in
      if paren then parseblock n s
      else bnd (parseredirs (Exec []) s) (\<lambda>(ret, s). parseargs ret 0 s))"
| "parseblock 0 ps = Inl Hang"
| "parseblock (Suc n) ps =
     (let (paren, s) = peek ps ''('' in
      if \<not> paren then Inl (Panic ''parseblock'')
      else let (_, _, _, s) = gettoken s in
        bnd (parseline n s) (\<lambda>(c, s).
          let (close, s) = peek s '')'' in
          if \<not> close then Inl (Panic ''syntax - missing )'')
          else let (_, _, _, s) = gettoken s in parseredirs c s))"

definition parsecmd :: "uint8 list \<Rightarrow> pcmd res" where
  "parsecmd s =
     bnd (parseline (4 * length s + 4) s) (\<lambda>(c, s).
       let (_, s) = peek s [] in
       if s \<noteq> [] then Inl (Panic ''syntax'') else Inr c)"

text \<open>
  \<^verbatim>\<open>nulterminate\<close> over the bytes of the line with its terminator; a pointer is at the index that leaves as many bytes.
\<close>

definition nul_at :: "uint8 list \<Rightarrow> uint8 list \<Rightarrow> uint8 list" where
  "nul_at eq b = b[length b - 1 - length eq := 0]"

primrec nulterminate :: "pcmd \<Rightarrow> uint8 list \<Rightarrow> uint8 list" where
  "nulterminate (Exec ts) b = fold (\<lambda>(q, eq). nul_at eq) ts b"
| "nulterminate (Redir c f m fd) b = nul_at (snd f) (nulterminate c b)"
| "nulterminate (Pipe l r) b = nulterminate r (nulterminate l b)"
| "nulterminate (ListCmd l r) b = nulterminate r (nulterminate l b)"
| "nulterminate (Back c) b = nulterminate c b"

section \<open>The parser ends\<close>

lemma parseredirs_stop: "peek ps ''<>'' = (False, s) \<Longrightarrow> parseredirs c ps = Inr (c, s)"
  by (subst parseredirs.simps) simp

lemma parseredirs_step:
  "peek ps ''<>'' = (True, s) \<Longrightarrow> gettoken s = (tok, q0, e0, s1) \<Longrightarrow> gettoken s1 = (tok', q, eq, s2) \<Longrightarrow>
   parseredirs c ps = (if tok' \<noteq> of_char CHR ''a'' then Inl (Panic ''missing file for redirection'')
     else parseredirs (redir_for tok c (q, eq)) s2)"
  by (subst parseredirs.simps) simp

text \<open>A parser that returns, without having moved backwards.\<close>

definition parses :: "uint8 list \<Rightarrow> (pcmd \<times> uint8 list) res \<Rightarrow> bool" where
  "parses ps r \<longleftrightarrow> r \<noteq> Inl Hang \<and> (\<forall>c s. r = Inr (c, s) \<longrightarrow> length s \<le> length ps)"

lemma parses_simps [simp]: "parses ps (Inl (Panic e))" "parses ps (Inr (c, s)) \<longleftrightarrow> length s \<le> length ps"
  by (simp_all add: parses_def)

lemma parses_bnd:
  assumes "parses ps r" "\<And>c s. length s \<le> length ps \<Longrightarrow> parses ps (f (c, s))"
  shows "parses ps (bnd r f)"
  using assms by (cases r) (auto simp: parses_def)

lemma parses_mono: "parses ps r \<Longrightarrow> length ps \<le> length ps' \<Longrightarrow> parses ps' r"
  by (auto simp: parses_def order_trans)

lemma peek_le: "peek ps toks = (b, s) \<Longrightarrow> length s \<le> length ps"
  using peek_rest dropWhile_length by metis

lemma parses_redirs: "parses ps (parseredirs c ps)"
proof (induction "length ps" arbitrary: c ps rule: less_induct)
  case less
  obtain more s tok q0 e0 s1 tok' q eq s2 where
    e: "peek ps ''<>'' = (more, s)" "gettoken s = (tok, q0, e0, s1)" "gettoken s1 = (tok', q, eq, s2)"
    by (metis prod_cases4 surj_pair)
  show ?case
  proof (cases more)
    case False
    then show ?thesis
      using e(1) peek_le[OF e(1)] by (simp add: parseredirs_stop)
  next
    case True
    then have "length s2 < length ps"
      using peek_token[of ps _ s] e gettoken_le[OF e(3)] by fastforce
    then have "parses ps (parseredirs c' s2)" for c'
      using less.hyps parses_mono by (meson less_imp_le)
    then show ?thesis
      using e True by (simp add: parseredirs_step)
  qed
qed

lemma parses_args: "parses ps (parseargs ret argc ps)"
proof (induction "MAXARGS - argc" arbitrary: ret argc ps rule: less_induct)
  case less
  obtain stop s tok q eq s1 where e: "peek ps ''|)&;'' = (stop, s)" "gettoken s = (tok, q, eq, s1)"
    by (metis prod_cases4 surj_pair)
  have len: "length s \<le> length ps" "length s1 \<le> length ps"
    using peek_le[OF e(1)] gettoken_le[OF e(2)] by simp_all
  have "parses ps (bnd (parseredirs (put_arg (q, eq) ret) s1) (\<lambda>(ret, s). parseargs ret (Suc argc) s))"
    if "\<not> Suc argc \<ge> MAXARGS"
  proof (rule parses_bnd[OF parses_mono[OF parses_redirs len(2)]])
    fix c s2 assume "length (s2 :: uint8 list) \<le> length ps"
    then show "parses ps (case (c, s2) of (ret, s) \<Rightarrow> parseargs ret (Suc argc) s)"
      using parses_mono[OF less.hyps[of "Suc argc" s2 c]] that by simp
  qed
  then show ?case
    using e len by (subst parseargs.simps) auto
qed

lemma parseback_le: "parseback c ps = (c', s) \<Longrightarrow> length s \<le> length ps"
proof (induction "length ps" arbitrary: c ps rule: less_induct)
  case less
  obtain more s1 tok q eq s2 where e: "peek ps ''&'' = (more, s1)" "gettoken s1 = (tok, q, eq, s2)"
    by (metis prod_cases4 surj_pair)
  show ?case
  proof (cases more)
    case False
    then show ?thesis
      using less.prems e(1) peek_le[OF e(1)] by (subst (asm) parseback.simps) simp
  next
    case True
    then have "parseback (Back c) s2 = (c', s)" "length s2 < length ps"
      using less.prems e peek_token[of ps _ s1] by (subst (asm) parseback.simps, auto)
    then show ?thesis
      using less.hyps[of s2] by fastforce
  qed
qed

text \<open>After a parser, an operator and another parser for the rest.\<close>

lemma parses_op:
  assumes "peek s toks = (b, s1)" "gettoken s1 = (tok, q, eq, s2)" "length s \<le> length ps"
    and "length s2 < length ps \<Longrightarrow> parses s2 (p s2)"
  shows "parses ps (if b then bnd (p s2) (\<lambda>(c', s). Inr (f c', s)) else Inr (c, s1))"
proof (cases b)
  case True
  then have "length s2 < length ps"
    using peek_token[of s toks s1] assms(1,2,3) by fastforce
  then have "parses ps (p s2)"
    using assms(4) parses_mono by (meson less_imp_le)
  then show ?thesis
    using True by (auto intro: parses_bnd)
next
  case False
  then show ?thesis
    using peek_le[OF assms(1)] assms(3) by simp
qed

lemma parses_all:
  "4 * length ps + 4 \<le> n \<Longrightarrow> parses ps (parseline n ps)"
  "4 * length ps + 3 \<le> n \<Longrightarrow> parses ps (parsepipe n ps)"
  "4 * length ps + 2 \<le> n \<Longrightarrow> parses ps (parseexec n ps)"
  "4 * length ps + 1 \<le> n \<Longrightarrow> parses ps (parseblock n ps)"
proof (induction n arbitrary: ps)
  case (Suc n)
  {
    case 1
    show ?case
      unfolding parseline.simps
    proof (rule parses_bnd, use 1 Suc.IH(2) in simp, clarify)
      fix c s assume le: "length (s :: uint8 list) \<le> length ps"
      obtain c1 s1 b s2 tok q eq s3 where
        e: "parseback c s = (c1, s1)" "peek s1 '';'' = (b, s2)" "gettoken s2 = (tok, q, eq, s3)"
        by (metis prod_cases4 surj_pair)
      have "parses s3 (parseline n s3)" if "length s3 < length ps"
        using that 1 by (intro Suc.IH(1)) simp
      then have "parses ps (if b then bnd (parseline n s3) (\<lambda>(c', s). Inr (ListCmd c1 c', s)) else Inr (c1, s2))"
        using parseback_le[OF e(1)] le by (intro parses_op[where p = "parseline n", OF e(2,3)]) simp_all
      with e show "parses ps (let (c, s) = parseback c s; (semi, s) = peek s '';'' in
        if semi then let (_, _, _, s) = gettoken s in bnd (parseline n s) (\<lambda>(c', s). Inr (ListCmd c c', s)) else Inr (c, s))"
        by (auto split: if_splits)
    qed
  next
    case 2
    show ?case
      unfolding parsepipe.simps
    proof (rule parses_bnd, use 2 Suc.IH(3) in simp, clarify)
      fix c s assume le: "length (s :: uint8 list) \<le> length ps"
      obtain b s2 tok q eq s3 where e: "peek s ''|'' = (b, s2)" "gettoken s2 = (tok, q, eq, s3)"
        by (metis prod_cases4 surj_pair)
      have "parses s3 (parsepipe n s3)" if "length s3 < length ps"
        using that 2 by (intro Suc.IH(2)) simp
      then have "parses ps (if b then bnd (parsepipe n s3) (\<lambda>(c', s). Inr (Pipe c c', s)) else Inr (c, s2))"
        by (intro parses_op[where p = "parsepipe n", OF e le])
      with e show "parses ps (let (bar, s) = peek s ''|'' in
        if bar then let (_, _, _, s) = gettoken s in bnd (parsepipe n s) (\<lambda>(c', s). Inr (Pipe c c', s)) else Inr (c, s))"
        by (auto split: if_splits)
    qed
  next
    case 3
    obtain b s where e: "peek ps ''('' = (b, s)" by fastforce
    note len = peek_le[OF e]
    have "parses ps (parseblock n s)"
      using 3 len by (intro parses_mono[OF Suc.IH(4) len]) simp
    moreover have "parses ps (bnd (parseredirs (Exec []) s) (\<lambda>(ret, s). parseargs ret 0 s))"
      using parses_mono[OF parses_redirs len] parses_mono[OF parses_args] by (intro parses_bnd) auto
    ultimately show ?case
      using e by simp
  next
    case 4
    obtain b s tok q eq s1 where e: "peek ps ''('' = (b, s)" "gettoken s = (tok, q, eq, s1)"
      by (metis prod_cases4 surj_pair)
    have "parses ps (bnd (parseline n s1) (\<lambda>(c, s).
        let (close, s) = peek s '')'' in
        if \<not> close then Inl (Panic ''syntax - missing )'') else let (_, _, _, s) = gettoken s in parseredirs c s))" if b
    proof (rule parses_bnd)
      have "length s1 < length ps" using that peek_token[of ps _ s] e by fastforce
      then show "parses ps (parseline n s1)"
        using 4 by (intro parses_mono[OF Suc.IH(1)]) simp_all
      fix c s assume le: "length (s :: uint8 list) \<le> length ps"
      obtain close s2 tok2 q2 eq2 s3 where e2: "peek s '')'' = (close, s2)" "gettoken s2 = (tok2, q2, eq2, s3)"
        by (metis prod_cases4 surj_pair)
      then have "length s3 \<le> length ps"
        using peek_le[OF e2(1)] gettoken_le[OF e2(2)] le by simp
      then show "parses ps (case (c, s) of (c, s) \<Rightarrow> let (close, s) = peek s '')'' in
        if \<not> close then Inl (Panic ''syntax - missing )'') else let (_, _, _, s) = gettoken s in parseredirs c s)"
        using e2 parses_mono[OF parses_redirs] by simp
    qed
    then show ?case
      using e by simp
  }
qed simp_all

text \<open>
  C26: the shell's parser always ends.  On every line it returns a command or reports one of its syntax errors: the nesting of
  its mutually recursive functions is bounded by the length of the line.
\<close>

theorem parsecmd_ends: "parsecmd s \<noteq> Inl Hang"
proof -
  have "parses s (parseline (4 * length s + 4) s)"
    by (rule parses_all) simp
  then show ?thesis
    by (cases "parseline (4 * length s + 4) s") (auto simp: parsecmd_def parses_def split: prod.splits)
qed

end
