(* ===== verification/Xv6_Sh_Parse.thy ===== *)
theory Xv6_Sh_Parse
  imports Xv6_Sh
begin

text \<open>
  What the parser of the shell accepts.  A command over words, instead of over pointers into a line, is printed with
  parentheses where its structure needs them; the parser of \<^verbatim>\<open>user/sh.c\<close> reads every such command back.
\<close>

declare dropWhile_eq_Nil_conv [simp del]

section \<open>Printing commands\<close>

text \<open>The word a token stands for.\<close>

definition word :: "token \<Rightarrow> uint8 list" where
  "word t = take (length (fst t) - length (snd t)) (fst t)"

definition word_char :: "uint8 \<Rightarrow> bool" where
  "word_char c \<longleftrightarrow> \<not> is_space c \<and> \<not> is_symbol c \<and> c \<noteq> 0"

definition ok_word :: "uint8 list \<Rightarrow> bool" where
  "ok_word w \<longleftrightarrow> w \<noteq> [] \<and> (\<forall>c\<in>set w. word_char c)"

text \<open>The operator of a redirection, by the mode and the descriptor it stands for.\<close>

definition redir_op :: "int \<Rightarrow> int \<Rightarrow> uint8 list" where
  "redir_op m fd = (if fd = 0 then [60] else if m = O_WRONLY + O_CREATE + O_TRUNC then [62] else [62, 62])"

definition paren :: "bool \<Rightarrow> uint8 list \<Rightarrow> uint8 list" where
  "paren b s = (if b then [40] @ s @ [41] else s)"

text \<open>\<open>show_cmd l c\<close> is read by the parser of level \<open>l\<close>: 0 for \<^verbatim>\<open>parseline\<close>, 2 for \<^verbatim>\<open>parsepipe\<close>, 3 for \<^verbatim>\<open>parseexec\<close>.\<close>

primrec show_cmd :: "nat \<Rightarrow> uint8 list cmd \<Rightarrow> uint8 list" where
  "show_cmd l (Exec ws) = concat (map (\<lambda>w. w @ [32]) ws)"
| "show_cmd l (Redir c f m fd) = show_cmd 3 c @ redir_op m fd @ f @ [32]"
| "show_cmd l (Pipe a b) = paren (l > 2) (show_cmd 3 a @ [124] @ show_cmd 2 b)"
| "show_cmd l (ListCmd a b) = paren (l > 0) (show_cmd 1 a @ [59] @ show_cmd 0 b)"
| "show_cmd l (Back c) = paren (l > 1) (show_cmd 1 c @ [38])"

primrec ok_cmd :: "uint8 list cmd \<Rightarrow> bool" where
  "ok_cmd (Exec ws) \<longleftrightarrow> length ws < MAXARGS \<and> (\<forall>w\<in>set ws. ok_word w)"
| "ok_cmd (Redir c f m fd) \<longleftrightarrow> ok_cmd c \<and> ok_word f \<and>
     (m, fd) \<in> {(O_RDONLY, 0), (O_WRONLY + O_CREATE + O_TRUNC, 1), (O_WRONLY + O_CREATE, 1)}"
| "ok_cmd (Pipe a b) \<longleftrightarrow> ok_cmd a \<and> ok_cmd b"
| "ok_cmd (ListCmd a b) \<longleftrightarrow> ok_cmd a \<and> ok_cmd b"
| "ok_cmd (Back c) \<longleftrightarrow> ok_cmd c"

section \<open>Tokens\<close>

lemma word_charD: "word_char c \<Longrightarrow> \<not> is_space c" "word_char c \<Longrightarrow> \<not> is_symbol c" "word_char c \<Longrightarrow> c \<noteq> 0"
  by (simp_all add: word_char_def)

lemma space_32 [simp]: "is_space 32"
  by (simp add: is_space_iff)

lemma symbol_not_space [simp]: "is_symbol c \<Longrightarrow> \<not> is_space c"
  by (auto simp: is_symbol_iff is_space_iff)

lemma ok_word_Cons: "ok_word w \<Longrightarrow> \<exists>c u. w = c # u \<and> word_char c"
  by (cases w) (auto simp: ok_word_def)

lemma strip_word: "ok_word w \<Longrightarrow> dropWhile is_space (w @ r) = w @ r"
  using ok_word_Cons[of w] by (auto dest: word_charD)

lemma gettoken_word:
  assumes "ok_word w"
  shows "gettoken (w @ 32 # r) = (of_char CHR ''a'', w @ 32 # r, 32 # r, dropWhile is_space r)"
proof -
  obtain c u where w: "w = c # u" "word_char c"
    using ok_word_Cons[OF assms] by blast
  have "dropWhile (\<lambda>c. \<not> is_space c \<and> \<not> is_symbol c) (w @ 32 # r) = 32 # r"
    using assms by (subst dropWhile_append2) (auto simp: ok_word_def word_char_def)
  moreover have "token_at (w @ 32 # r) =
      (of_char CHR ''a'', dropWhile (\<lambda>c. \<not> is_space c \<and> \<not> is_symbol c) (w @ 32 # r))"
    using w(1) word_charD(2)[OF w(2)] by (simp add: token_at_def is_symbol_iff)
  ultimately show ?thesis
    using strip_word[OF assms] by (simp add: gettoken_def)
qed

lemma word_of_token: "word (w @ r, r) = w"
  by (simp add: word_def)

lemma peek_strip [simp]: "peek (dropWhile is_space s) toks = peek s toks"
  by (simp add: peek_def)

lemma peek_Cons: "\<not> is_space c \<Longrightarrow> peek (c # s) toks = (find_char (ascii toks) c \<noteq> None, c # s)"
  by (simp add: peek_def)

lemma peek_op:
  assumes "is_symbol c"
  shows "peek (c # s) ''<>'' = (c \<in> {60, 62}, c # s)" "peek (c # s) ''|)&;'' = (c \<in> {124, 41, 38, 59}, c # s)"
    "peek (c # s) ''&'' = (c = 38, c # s)" "peek (c # s) '';'' = (c = 59, c # s)" "peek (c # s) ''|'' = (c = 124, c # s)"
    "peek (c # s) ''('' = (c = 40, c # s)" "peek (c # s) '')'' = (c = 41, c # s)"
  using assms by (auto simp: peek_Cons ascii_def)

lemma peek_word:
  assumes "ok_word w"
  shows "peek (w @ s) ''<>'' = (False, w @ s)" "peek (w @ s) ''|)&;'' = (False, w @ s)" "peek (w @ s) ''('' = (False, w @ s)"
proof -
  obtain c u where "w = c # u" "\<not> is_space c" "\<not> is_symbol c"
    using ok_word_Cons[OF assms] word_charD by blast
  then show "peek (w @ s) ''<>'' = (False, w @ s)" "peek (w @ s) ''|)&;'' = (False, w @ s)" "peek (w @ s) ''('' = (False, w @ s)"
    by (auto simp: peek_Cons ascii_def is_symbol_iff)
qed

lemma gettoken_op:
  "c \<in> {124, 40, 41, 59, 38, 60} \<Longrightarrow> gettoken (c # s) = (c, c # s, s, dropWhile is_space s)"
  by (auto simp: gettoken_def token_at_def is_space_iff)

section \<open>Leading blanks\<close>

lemma parseredirs_strip [simp]: "parseredirs c (dropWhile is_space s) = parseredirs c s"
  by (subst (1 2) parseredirs.simps) simp

lemma parseargs_strip [simp]: "parseargs c k (dropWhile is_space s) = parseargs c k s"
  by (subst (1 2) parseargs.simps) simp

lemma parseback_strip [simp]: "parseback c (dropWhile is_space s) = parseback c s"
  by (subst (1 2) parseback.simps) simp

lemma parseexec_strip [simp]: "parseexec n (dropWhile is_space s) = parseexec n s"
  by (cases n) simp_all

lemma parsepipe_strip [simp]: "parsepipe n (dropWhile is_space s) = parsepipe n s"
  by (cases n) simp_all

lemma parseline_strip [simp]: "parseline n (dropWhile is_space s) = parseline n s"
  by (cases n) simp_all

section \<open>Redirections and arguments\<close>

lemma gettoken_gt:
  "ok_word f \<Longrightarrow> gettoken (62 # f @ s) = (62, 62 # f @ s, f @ s, f @ s)"
  "ok_word f \<Longrightarrow> gettoken (62 # 62 # f @ s) = (43, 62 # 62 # f @ s, f @ s, f @ s)"
proof -
  assume f: "ok_word f"
  then obtain c u where "f = c # u" "word_char c"
    using ok_word_Cons by blast
  then have "f = c # u" "c \<noteq> 62"
    by (auto simp: word_char_def is_symbol_iff)
  then show "gettoken (62 # f @ s) = (62, 62 # f @ s, f @ s, f @ s)"
    "gettoken (62 # 62 # f @ s) = (43, 62 # 62 # f @ s, f @ s, f @ s)"
    using strip_word[OF f, of s] by (simp_all add: gettoken_def token_at_def is_space_iff)
qed

lemma redir_read:
  assumes f: "ok_word f" and k: "(m, fd) \<in> {(O_RDONLY, 0), (O_WRONLY + O_CREATE + O_TRUNC, 1), (O_WRONLY + O_CREATE, 1)}"
  shows "parseredirs c (redir_op m fd @ f @ 32 # r) = parseredirs (Redir c (f @ 32 # r, 32 # r) m fd) r"
proof -
  have sym: "is_symbol 60" "is_symbol 62" by (simp_all add: is_symbol_iff)
  note gf = gettoken_word[OF f, of r]
  consider "m = O_RDONLY" "fd = 0" | "m = O_WRONLY + O_CREATE + O_TRUNC" "fd = 1" | "m = O_WRONLY + O_CREATE" "fd = 1"
    using k by auto
  then show ?thesis
  proof cases
    case 1
    have "peek (60 # f @ 32 # r) ''<>'' = (True, 60 # f @ 32 # r)" "gettoken (60 # f @ 32 # r) = (60, 60 # f @ 32 # r, f @ 32 # r, f @ 32 # r)"
      using peek_op(1)[OF sym(1)] gettoken_op[of 60] strip_word[OF f] by simp_all
    from parseredirs_step[OF this gf] 1 show ?thesis
      by (simp add: redir_op_def redir_for_def)
  next
    case 2
    have "peek (62 # f @ 32 # r) ''<>'' = (True, 62 # f @ 32 # r)"
      using peek_op(1)[OF sym(2)] by simp
    from parseredirs_step[OF this gettoken_gt(1)[OF f] gf] 2 show ?thesis
      by (simp add: redir_op_def redir_for_def)
  next
    case 3
    have "peek (62 # 62 # f @ 32 # r) ''<>'' = (True, 62 # 62 # f @ 32 # r)"
      using peek_op(1)[OF sym(2)] by simp
    from parseredirs_step[OF this gettoken_gt(2)[OF f] gf] 3 show ?thesis
      by (simp add: redir_op_def redir_for_def)
  qed
qed

lemma args_read:
  assumes "\<forall>w\<in>set ws. ok_word w" "argc + length ws < MAXARGS"
  shows "\<exists>ts. map word ts = ws \<and>
    bnd (parseredirs ret (concat (map (\<lambda>w. w @ [32]) ws) @ rest)) (\<lambda>(ret, s). parseargs ret argc s) =
    bnd (parseredirs (fold put_arg ts ret) rest) (\<lambda>(ret, s). parseargs ret (argc + length ws) s)"
  using assms
proof (induction ws arbitrary: ret argc)
  case Nil
  then show ?case by (intro exI[of _ "[]"]) simp
next
  case (Cons w ws)
  let ?r = "concat (map (\<lambda>w. w @ [32]) ws) @ rest"
  have w: "ok_word w" using Cons.prems(1) by simp
  have "parseargs ret argc (w @ 32 # ?r) =
      bnd (parseredirs (put_arg (w @ 32 # ?r, 32 # ?r) ret) ?r) (\<lambda>(ret, s). parseargs ret (Suc argc) s)"
    using Cons.prems(2) peek_word(2)[OF w] gettoken_word[OF w] by (subst parseargs.simps) simp
  moreover have "parseredirs ret (w @ 32 # ?r) = Inr (ret, w @ 32 # ?r)"
    using peek_word(1)[OF w] by (rule parseredirs_stop)
  moreover obtain ts where "map word ts = ws"
    "bnd (parseredirs (put_arg (w @ 32 # ?r, 32 # ?r) ret) ?r) (\<lambda>(ret, s). parseargs ret (Suc argc) s) =
      bnd (parseredirs (fold put_arg ts (put_arg (w @ 32 # ?r, 32 # ?r) ret)) rest) (\<lambda>(ret, s). parseargs ret (Suc argc + length ws) s)"
    using Cons.IH[of "Suc argc" "put_arg (w @ 32 # ?r, 32 # ?r) ret"] Cons.prems by auto
  ultimately show ?case
    by (intro exI[of _ "(w @ 32 # ?r, 32 # ?r) # ts"]) (simp add: word_of_token)
qed

lemma fold_put_arg: "fold put_arg ts (Exec us) = Exec (us @ ts)"
  by (induction ts arbitrary: us) simp_all

section \<open>Commands\<close>

text \<open>What may follow a command in a line, after blanks.\<close>

definition follow :: "uint8 set \<Rightarrow> uint8 list \<Rightarrow> bool" where
  "follow F rest \<longleftrightarrow> (case dropWhile is_space rest of [] \<Rightarrow> True | c # _ \<Rightarrow> c \<in> F)"

lemma follow_peek:
  assumes "follow F rest" "\<And>c. c \<in> F \<Longrightarrow> find_char (ascii toks) c = None"
  shows "peek rest toks = (False, dropWhile is_space rest)"
  using assms by (cases "dropWhile is_space rest") (auto simp: peek_def follow_def)

lemma follow_mono: "follow F rest \<Longrightarrow> F \<subseteq> G \<Longrightarrow> follow G rest"
  by (auto simp: follow_def split: list.splits)

lemma follow_Cons [simp]: "is_symbol c \<Longrightarrow> follow F (c # s) \<longleftrightarrow> c \<in> F"
  by (simp add: follow_def)

text \<open>The number of arguments of the program at the core of redirections, if there is one.\<close>

primrec core_args :: "'t cmd \<Rightarrow> nat option" where
  "core_args (Exec ts) = Some (length ts)"
| "core_args (Redir c f m fd) = core_args c"
| "core_args (Pipe a b) = None"
| "core_args (ListCmd a b) = None"
| "core_args (Back c) = None"

lemma core_args_map [simp]: "core_args (map_cmd f c) = core_args c"
  by (induction c) simp_all

definition rest_of_exec :: "pcmd \<Rightarrow> uint8 list \<Rightarrow> (pcmd \<times> uint8 list) res" where
  "rest_of_exec c rest = bnd (parseredirs c rest) (\<lambda>(ret, s). case core_args c of None \<Rightarrow> Inr (ret, s) | Some k \<Rightarrow> parseargs ret k s)"

lemma rest_of_exec_follow:
  assumes "follow {124, 41, 38, 59} rest"
  shows "rest_of_exec c rest = Inr (c, dropWhile is_space rest)"
proof -
  let ?s = "dropWhile is_space rest"
  have "parseredirs c rest = Inr (c, ?s)"
    using assms by (intro parseredirs_stop follow_peek[of "{124, 41, 38, 59}"]) (auto simp: ascii_def)
  moreover have "parseargs c k rest = Inr (c, ?s)" for k
  proof (cases ?s)
    case Nil
    then show ?thesis
      by (subst parseargs.simps) (simp add: peek_def gettoken_def token_at_def)
  next
    case (Cons x u)
    then have "peek rest ''|)&;'' = (True, ?s)"
      using assms by (auto simp: peek_def follow_def ascii_def)
    then show ?thesis
      by (subst parseargs.simps) simp
  qed
  ultimately show ?thesis
    by (simp add: rest_of_exec_def split: option.splits)
qed

text \<open>The parsers of the four levels read what is printed for them.\<close>

definition reads3 :: "uint8 list cmd \<Rightarrow> bool" where
  "reads3 c \<longleftrightarrow> (\<forall>n rest. 4 * length (show_cmd 3 c @ rest) + 2 \<le> n \<and> follow (- {40}) rest \<longrightarrow>
     (\<exists>c'. map_cmd word c' = c \<and> parseexec n (show_cmd 3 c @ rest) = rest_of_exec c' rest))"

definition reads2 :: "uint8 list cmd \<Rightarrow> bool" where
  "reads2 c \<longleftrightarrow> (\<forall>n rest. 4 * length (show_cmd 2 c @ rest) + 3 \<le> n \<and> follow {41, 38, 59} rest \<longrightarrow>
     (\<exists>c'. map_cmd word c' = c \<and> parsepipe n (show_cmd 2 c @ rest) = Inr (c', dropWhile is_space rest)))"

definition reads1 :: "uint8 list cmd \<Rightarrow> bool" where
  "reads1 c \<longleftrightarrow> (\<forall>n rest. 4 * length (show_cmd 1 c @ rest) + 3 \<le> n \<and> follow {41, 38, 59} rest \<longrightarrow>
     (\<exists>c'. map_cmd word c' = c \<and>
       bnd (parsepipe n (show_cmd 1 c @ rest)) (\<lambda>(c, s). Inr (parseback c s)) = Inr (parseback c' rest)))"

definition reads0 :: "uint8 list cmd \<Rightarrow> bool" where
  "reads0 c \<longleftrightarrow> (\<forall>n rest. 4 * length (show_cmd 0 c @ rest) + 4 \<le> n \<and> follow {41} rest \<longrightarrow>
     (\<exists>c'. map_cmd word c' = c \<and> parseline n (show_cmd 0 c @ rest) = Inr (c', dropWhile is_space rest)))"

lemma reads3_Exec:
  assumes "ok_cmd (Exec ws)"
  shows "reads3 (Exec ws)"
  unfolding reads3_def
proof (intro allI impI, elim conjE)
  fix n rest
  let ?s = "show_cmd 3 (Exec ws) @ rest"
  assume n: "4 * length ?s + 2 \<le> n" and f: "follow (- {40}) rest"
  obtain n' where n': "n = Suc n'" using n by (cases n) auto
  have "fst (peek ?s ''('') = False" "snd (peek ?s ''('') = dropWhile is_space ?s"
  proof -
    show "fst (peek ?s ''('') = False"
      using assms f peek_word(3)
      by (cases ws) (auto simp: peek_def follow_def ascii_def split: list.splits)
  qed (simp add: peek_def Let_def)
  then have pk: "peek ?s ''('' = (False, dropWhile is_space ?s)"
    by (metis prod.collapse)
  obtain ts where ts: "map word ts = ws"
    "bnd (parseredirs (Exec []) ?s) (\<lambda>(ret, s). parseargs ret 0 s) =
     bnd (parseredirs (fold put_arg ts (Exec [])) rest) (\<lambda>(ret, s). parseargs ret (0 + length ws) s)"
    using args_read[of ws 0 "Exec []" rest] assms by auto
  then have "length ts = length ws" by (metis length_map)
  then have "parseexec n ?s = rest_of_exec (Exec ts) rest"
    using pk ts(2) n' by (simp add: rest_of_exec_def fold_put_arg)
  then show "\<exists>c'. map_cmd word c' = Exec ws \<and> parseexec n ?s = rest_of_exec c' rest"
    using ts(1) by (intro exI[of _ "Exec ts"]) simp
qed

lemma reads3_Redir:
  assumes "reads3 c" "ok_cmd (Redir c f m fd)"
  shows "reads3 (Redir c f m fd)"
  unfolding reads3_def
proof (intro allI impI, elim conjE)
  fix n rest
  let ?r = "redir_op m fd @ f @ 32 # rest"
  assume n: "4 * length (show_cmd 3 (Redir c f m fd) @ rest) + 2 \<le> n"
  have "follow (- {40}) ?r"
    by (auto simp: redir_op_def is_symbol_iff)
  then obtain c' where c': "map_cmd word c' = c" "parseexec n (show_cmd 3 c @ ?r) = rest_of_exec c' ?r"
    using assms(1)[unfolded reads3_def, rule_format, of ?r n] n by auto
  let ?t = "(f @ 32 # rest, 32 # rest)"
  have "rest_of_exec c' ?r = rest_of_exec (Redir c' ?t m fd) rest"
    using redir_read[of f m fd c' rest] assms(2) by (simp add: rest_of_exec_def)
  then show "\<exists>c'. map_cmd word c' = Redir c f m fd \<and> parseexec n (show_cmd 3 (Redir c f m fd) @ rest) = rest_of_exec c' rest"
    using c' by (intro exI[of _ "Redir c' ?t m fd"]) (simp add: word_of_token)
qed

lemma syms [simp]: "is_symbol 124" "is_symbol 41" "is_symbol 38" "is_symbol 59" "is_symbol 40"
  by (simp_all add: is_symbol_iff)

lemma reads3_follow:
  assumes "reads3 c" "4 * length (show_cmd 3 c @ rest) + 2 \<le> n" "follow {124, 41, 38, 59} rest"
  obtains c' where "map_cmd word c' = c" "parseexec n (show_cmd 3 c @ rest) = Inr (c', dropWhile is_space rest)"
  using assms(1)[unfolded reads3_def, rule_format, of rest n] assms(2,3) follow_mono[OF assms(3), of "- {40}"]
    rest_of_exec_follow[OF assms(3)] by auto

lemma reads2_same:
  assumes "reads3 c" "show_cmd 2 c = show_cmd 3 c"
  shows "reads2 c"
  unfolding reads2_def
proof (intro allI impI, elim conjE)
  fix n rest
  assume n: "4 * length (show_cmd 2 c @ rest) + 3 \<le> n" and f: "follow {41, 38, 59} rest"
  obtain n' where n': "n = Suc n'" using n by (cases n) auto
  obtain c' where c': "map_cmd word c' = c" "parseexec n' (show_cmd 3 c @ rest) = Inr (c', dropWhile is_space rest)"
    using reads3_follow[OF assms(1), of rest n'] follow_mono[OF f] n n' assms(2) by auto
  have "peek rest ''|'' = (False, dropWhile is_space rest)"
    using f by (rule follow_peek) (auto simp: ascii_def)
  then show "\<exists>c'. map_cmd word c' = c \<and> parsepipe n (show_cmd 2 c @ rest) = Inr (c', dropWhile is_space rest)"
    using c' assms(2) n' by auto
qed

lemma reads2_Pipe:
  assumes "reads3 a" "reads2 b"
  shows "reads2 (Pipe a b)"
  unfolding reads2_def
proof (intro allI impI, elim conjE)
  fix n rest
  let ?r = "124 # show_cmd 2 b @ rest"
  assume n: "4 * length (show_cmd 2 (Pipe a b) @ rest) + 3 \<le> n" and f: "follow {41, 38, 59} rest"
  obtain n' where n': "n = Suc n'" using n by (cases n) auto
  have len: "4 * length (show_cmd 3 a @ ?r) + 2 \<le> n'" "4 * length (show_cmd 2 b @ rest) + 3 \<le> n'"
    using n n' by (simp_all add: paren_def)
  obtain a' where a': "map_cmd word a' = a" "parseexec n' (show_cmd 3 a @ ?r) = Inr (a', ?r)"
    using reads3_follow[OF assms(1) len(1)] by auto
  obtain b' where b': "map_cmd word b' = b" "parsepipe n' (show_cmd 2 b @ rest) = Inr (b', dropWhile is_space rest)"
    using assms(2)[unfolded reads2_def, rule_format, of rest n'] len(2) f by auto
  have "parsepipe n (show_cmd 2 (Pipe a b) @ rest) = Inr (Pipe a' b', dropWhile is_space rest)"
    using a'(2) b'(2) n' by (simp add: paren_def peek_op(5) gettoken_op)
  then show "\<exists>c'. map_cmd word c' = Pipe a b \<and> parsepipe n (show_cmd 2 (Pipe a b) @ rest) = Inr (c', dropWhile is_space rest)"
    using a'(1) b'(1) by (intro exI[of _ "Pipe a' b'"]) simp
qed

lemma reads1_same:
  assumes "reads2 c" "show_cmd 1 c = show_cmd 2 c"
  shows "reads1 c"
  unfolding reads1_def
proof (intro allI impI, elim conjE)
  fix n rest
  assume "4 * length (show_cmd 1 c @ rest) + 3 \<le> n" and "follow {41, 38, 59} rest"
  then show "\<exists>c'. map_cmd word c' = c \<and>
      bnd (parsepipe n (show_cmd 1 c @ rest)) (\<lambda>(c, s). Inr (parseback c s)) = Inr (parseback c' rest)"
    using assms(1)[unfolded reads2_def, rule_format, of rest n] assms(2) by auto
qed

lemma reads1_Back:
  assumes "reads1 c"
  shows "reads1 (Back c)"
  unfolding reads1_def
proof (intro allI impI, elim conjE)
  fix n rest
  assume "4 * length (show_cmd 1 (Back c) @ rest) + 3 \<le> n"
  then obtain c' where c': "map_cmd word c' = c"
    "bnd (parsepipe n (show_cmd 1 c @ 38 # rest)) (\<lambda>(c, s). Inr (parseback c s)) = Inr (parseback c' (38 # rest))"
    using assms[unfolded reads1_def, rule_format, of "38 # rest" n] by (auto simp: paren_def)
  have "parseback c' (38 # rest) = parseback (Back c') rest"
    by (subst parseback.simps) (simp add: peek_op(3) gettoken_op)
  then show "\<exists>c'. map_cmd word c' = Back c \<and>
      bnd (parsepipe n (show_cmd 1 (Back c) @ rest)) (\<lambda>(c, s). Inr (parseback c s)) = Inr (parseback c' rest)"
    using c' by (intro exI[of _ "Back c'"]) (simp add: paren_def)
qed

lemma parseline_back:
  "parseline (Suc n) ps = bnd (bnd (parsepipe n ps) (\<lambda>(c, s). Inr (parseback c s))) (\<lambda>(c, s).
     let (semi, s) = peek s '';'' in
     if semi then let (_, _, _, s) = gettoken s in bnd (parseline n s) (\<lambda>(c', s). Inr (ListCmd c c', s)) else Inr (c, s))"
  by (cases "parsepipe n ps") (auto split: prod.splits)

lemma parseback_stop: "follow {41, 59} rest \<Longrightarrow> parseback c rest = (c, dropWhile is_space rest)"
proof -
  assume "follow {41, 59} rest"
  then have "peek rest ''&'' = (False, dropWhile is_space rest)"
    by (rule follow_peek) (auto simp: ascii_def)
  then show ?thesis
    by (subst parseback.simps) simp
qed

lemma reads1_follow:
  assumes "reads1 c" "4 * length (show_cmd 1 c @ rest) + 3 \<le> n" "follow {41, 59} rest"
  obtains c' where "map_cmd word c' = c"
    "bnd (parsepipe n (show_cmd 1 c @ rest)) (\<lambda>(c, s). Inr (parseback c s)) = Inr (c', dropWhile is_space rest)"
  using assms(1)[unfolded reads1_def, rule_format, of rest n] assms(2,3) follow_mono[OF assms(3), of "{41, 38, 59}"]
    parseback_stop[OF assms(3)] by auto

lemma reads0_same:
  assumes "reads1 c" "show_cmd 0 c = show_cmd 1 c"
  shows "reads0 c"
  unfolding reads0_def
proof (intro allI impI, elim conjE)
  fix n rest
  assume n: "4 * length (show_cmd 0 c @ rest) + 4 \<le> n" and f: "follow {41} rest"
  obtain n' where n': "n = Suc n'" using n by (cases n) auto
  obtain c' where c': "map_cmd word c' = c"
    "bnd (parsepipe n' (show_cmd 1 c @ rest)) (\<lambda>(c, s). Inr (parseback c s)) = Inr (c', dropWhile is_space rest)"
    using reads1_follow[OF assms(1), of rest n'] follow_mono[OF f] n n' assms(2) by auto
  have "peek rest '';'' = (False, dropWhile is_space rest)"
    using f by (rule follow_peek) (auto simp: ascii_def)
  then show "\<exists>c'. map_cmd word c' = c \<and> parseline n (show_cmd 0 c @ rest) = Inr (c', dropWhile is_space rest)"
    using c' assms(2) n' parseline_back[of n' "show_cmd 0 c @ rest"] by (intro exI[of _ c']) simp
qed

lemma reads0_List:
  assumes "reads1 a" "reads0 b"
  shows "reads0 (ListCmd a b)"
  unfolding reads0_def
proof (intro allI impI, elim conjE)
  fix n rest
  let ?r = "59 # show_cmd 0 b @ rest"
  assume n: "4 * length (show_cmd 0 (ListCmd a b) @ rest) + 4 \<le> n" and f: "follow {41} rest"
  obtain n' where n': "n = Suc n'" using n by (cases n) auto
  have len: "4 * length (show_cmd 1 a @ ?r) + 3 \<le> n'" "4 * length (show_cmd 0 b @ rest) + 4 \<le> n'"
    using n n' by (simp_all add: paren_def)
  obtain a' where a': "map_cmd word a' = a"
    "bnd (parsepipe n' (show_cmd 1 a @ ?r)) (\<lambda>(c, s). Inr (parseback c s)) = Inr (a', ?r)"
    using reads1_follow[OF assms(1) len(1)] by auto
  obtain b' where b': "map_cmd word b' = b" "parseline n' (show_cmd 0 b @ rest) = Inr (b', dropWhile is_space rest)"
    using assms(2)[unfolded reads0_def, rule_format, of rest n'] len(2) f by auto
  have "parseline n (show_cmd 0 (ListCmd a b) @ rest) = Inr (ListCmd a' b', dropWhile is_space rest)"
    using a'(2) b'(2) n' parseline_back[of n' "show_cmd 1 a @ ?r"] by (simp add: paren_def peek_op(4) gettoken_op)
  then show "\<exists>c'. map_cmd word c' = ListCmd a b \<and> parseline n (show_cmd 0 (ListCmd a b) @ rest) = Inr (c', dropWhile is_space rest)"
    using a'(1) b'(1) by (intro exI[of _ "ListCmd a' b'"]) simp
qed

lemma reads3_paren:
  assumes "reads0 c" "show_cmd 3 c = [40] @ show_cmd 0 c @ [41]" "core_args c = None"
  shows "reads3 c"
  unfolding reads3_def
proof (intro allI impI, elim conjE)
  fix n rest
  assume n: "4 * length (show_cmd 3 c @ rest) + 2 \<le> n"
  obtain n' where n': "n = Suc (Suc n')" using n by (cases n; cases "n - 1") auto
  obtain c' where c': "map_cmd word c' = c" "parseline n' (show_cmd 0 c @ 41 # rest) = Inr (c', 41 # rest)"
    using assms(1)[unfolded reads0_def, rule_format, of "41 # rest" n'] n n' assms(2) by auto
  moreover have "core_args c' = None"
    using c'(1) assms(3) core_args_map by metis
  ultimately show "\<exists>c'. map_cmd word c' = c \<and> parseexec n (show_cmd 3 c @ rest) = rest_of_exec c' rest"
    using assms(2) n' by (intro exI[of _ c']) (simp add: peek_op gettoken_op rest_of_exec_def bnd_def split: sum.splits)
qed

lemma reads_all: "ok_cmd c \<Longrightarrow> reads3 c \<and> reads2 c \<and> reads1 c \<and> reads0 c"
proof (induction c)
  case (Exec ws)
  then have "reads3 (Exec ws)" by (rule reads3_Exec)
  then show ?case
    using reads3_paren[of "Exec ws"] reads2_same[of "Exec ws"] reads1_same[of "Exec ws"] reads0_same[of "Exec ws"] by (simp add: paren_def)
next
  case (Redir c f m fd)
  then have "reads3 (Redir c f m fd)" by (intro reads3_Redir) simp_all
  then show ?case
    using reads3_paren[of "Redir c f m fd"] reads2_same[of "Redir c f m fd"] reads1_same[of "Redir c f m fd"] reads0_same[of "Redir c f m fd"] by (simp add: paren_def)
next
  case (Pipe a b)
  then have "reads2 (Pipe a b)" by (intro reads2_Pipe) simp_all
  then show ?case
    using reads3_paren[of "Pipe a b"] reads2_same[of "Pipe a b"] reads1_same[of "Pipe a b"] reads0_same[of "Pipe a b"] by (simp add: paren_def)
next
  case (ListCmd a b)
  then have "reads0 (ListCmd a b)" by (intro reads0_List) simp_all
  then show ?case
    using reads3_paren[of "ListCmd a b"] reads2_same[of "ListCmd a b"] reads1_same[of "ListCmd a b"] reads0_same[of "ListCmd a b"] by (simp add: paren_def)
next
  case (Back c)
  then have "reads1 (Back c)" by (intro reads1_Back) simp_all
  then show ?case
    using reads3_paren[of "Back c"] reads2_same[of "Back c"] reads1_same[of "Back c"] reads0_same[of "Back c"] by (simp add: paren_def)
qed

lemma parse_shown:
  assumes "ok_cmd c" "\<forall>x\<in>set sp. is_space x"
  shows "\<exists>c'. parsecmd (show_cmd 0 c @ sp) = Inr c' \<and> map_cmd word c' = c"
proof -
  have sp: "dropWhile is_space sp = []" using assms(2) by (simp add: dropWhile_eq_Nil_conv)
  have "reads0 c" using reads_all[OF assms(1)] by simp
  then obtain c' where "map_cmd word c' = c" "parseline (4 * length (show_cmd 0 c @ sp) + 4) (show_cmd 0 c @ sp) = Inr (c', [])"
    unfolding reads0_def using sp by (metis follow_def le_refl list.simps(4))
  then show ?thesis
    by (simp add: parsecmd_def peek_def)
qed

text \<open>
  C24: the shell reads every command back.  Take any command built from programs with at most nine arguments, redirections,
  pipes, lists and background commands, printed with parentheses around a compound command that stands where only a
  simple one can: \<^verbatim>\<open>parsecmd\<close> succeeds on the line and gives this command, its tokens standing for the words.
\<close>

theorem parse_shown_cmd:
  assumes "ok_cmd c"
  shows "\<exists>c'. parsecmd (show_cmd 0 c) = Inr c' \<and> map_cmd word c' = c"
  using parse_shown[OF assms, of "[]"] by simp

theorem parse_shown_cmd_witness:
  "\<exists>c'. parsecmd (ascii ''(a b ;c )>f |d '') = Inr c' \<and> map_cmd word c' =
     Pipe (Redir (ListCmd (Exec [[97], [98]]) (Exec [[99]])) [102] (O_WRONLY + O_CREATE + O_TRUNC) 1) (Exec [[100]])"
proof -
  let ?c = "Pipe (Redir (ListCmd (Exec [[97], [98]]) (Exec [[99]])) [102] (O_WRONLY + O_CREATE + O_TRUNC) 1) (Exec [[100]])"
  have "ok_cmd ?c"
    by (simp add: ok_word_def word_char_def is_space_iff is_symbol_iff)
  moreover have "show_cmd 0 ?c = ascii ''(a b ;c )>f |d ''"
    by (simp add: paren_def redir_op_def ascii_def)
  ultimately show ?thesis
    using parse_shown_cmd[of ?c] by simp
qed

end
