(* ===== verification/Xv6_Sh_Argv.thy ===== *)
theory Xv6_Sh_Argv
  imports Xv6_Sh_Parse "HOL-Library.Sublist"
begin

text \<open>
  The tokens of a parsed command are words of the line, and \<^verbatim>\<open>nulterminate\<close> turns each into a C string without touching
  another.
\<close>

section \<open>Tokens of a line\<close>

definition tok_ok :: "uint8 list \<Rightarrow> token \<Rightarrow> bool" where
  "tok_ok s t \<longleftrightarrow> (\<exists>pre mid eq. t = (mid @ eq, eq) \<and> s = pre @ mid @ eq \<and> mid \<noteq> [] \<and>
     (\<forall>c\<in>set mid. \<not> is_space c \<and> \<not> is_symbol c) \<and> (eq = [] \<or> is_space (hd eq) \<or> is_symbol (hd eq)))"

primrec fits :: "'t cmd \<Rightarrow> bool" where
  "fits (Exec ts) \<longleftrightarrow> length ts < MAXARGS"
| "fits (Redir c f m fd) \<longleftrightarrow> fits c"
| "fits (Pipe a b) \<longleftrightarrow> fits a \<and> fits b"
| "fits (ListCmd a b) \<longleftrightarrow> fits a \<and> fits b"
| "fits (Back c) \<longleftrightarrow> fits c"

text \<open>A command over tokens of the line.\<close>

definition of_line :: "uint8 list \<Rightarrow> pcmd \<Rightarrow> bool" where
  "of_line s c \<longleftrightarrow> (\<forall>t\<in>set_cmd c. tok_ok s t) \<and> fits c"

lemma of_line_simps [simp]:
  "of_line s (Exec ts) \<longleftrightarrow> length ts < MAXARGS \<and> (\<forall>t\<in>set ts. tok_ok s t)"
  "of_line s (Redir c f m fd) \<longleftrightarrow> of_line s c \<and> tok_ok s f" "of_line s (Pipe a b) \<longleftrightarrow> of_line s a \<and> of_line s b"
  "of_line s (ListCmd a b) \<longleftrightarrow> of_line s a \<and> of_line s b" "of_line s (Back c) \<longleftrightarrow> of_line s c"
  by (auto simp: of_line_def)

lemma suffix_strip: "suffix ps s \<Longrightarrow> suffix (dropWhile is_space ps) s"
  using suffix_dropWhile suffix_order.trans by blast

lemma token_at_suffix: "token_at q = (ret, eq) \<Longrightarrow> suffix eq q"
  by (auto simp: token_at_def suffix_dropWhile suffix_ConsI split: list.splits if_splits)

lemma gettoken_suffix: "gettoken ps = (ret, q, eq, r) \<Longrightarrow> suffix ps s \<Longrightarrow> suffix r s"
proof -
  assume "gettoken ps = (ret, q, eq, r)" "suffix ps s"
  then have "token_at (dropWhile is_space ps) = (ret, eq)" "r = dropWhile is_space eq" "suffix (dropWhile is_space ps) s"
    by (auto simp: gettoken_def Let_def suffix_strip split: prod.splits)
  then show "suffix r s"
    using token_at_suffix suffix_strip suffix_order.trans by metis
qed

lemma gettoken_tok:
  assumes "gettoken ps = (of_char CHR ''a'', q, eq, r)" "suffix ps s"
  shows "tok_ok s (q, eq)"
proof -
  let ?w = "\<lambda>c. \<not> is_space c \<and> \<not> is_symbol c"
  have q: "q = dropWhile is_space ps" "token_at q = (of_char CHR ''a'', eq)"
    using assms(1) by (auto simp: gettoken_def Let_def split: prod.splits)
  then obtain c t where ct: "q = c # t" "\<not> is_symbol c" "eq = dropWhile ?w q"
    by (auto simp: token_at_def is_symbol_iff split: list.splits if_splits)
  have "\<not> is_space c"
    using hd_dropWhile[of is_space ps] q(1) ct(1) by (metis list.sel(1) list.distinct(1))
  then have "takeWhile ?w q \<noteq> []" using ct by simp
  moreover have q': "q = takeWhile ?w q @ eq" using ct(3) by simp
  moreover obtain pre where "s = pre @ q"
    using suffix_strip[OF assms(2)] q(1) by (auto simp: suffix_def)
  then have "s = pre @ takeWhile ?w q @ eq" using q' by simp
  moreover have "eq = [] \<or> is_space (hd eq) \<or> is_symbol (hd eq)"
    using ct(3) hd_dropWhile[of ?w q] by blast
  moreover have "\<forall>c\<in>set (takeWhile ?w q). ?w c"
    by (auto dest: set_takeWhileD)
  moreover have "(q, eq) = (takeWhile ?w q @ eq, eq)" using q' by simp
  ultimately show ?thesis
    unfolding tok_ok_def by blast
qed

lemma peek_suffix: "peek ps toks = (b, r) \<Longrightarrow> suffix ps s \<Longrightarrow> suffix r s"
  using peek_rest[of ps toks b r] suffix_strip[of ps s] by simp

section \<open>The parser stays in the line\<close>

definition stays :: "uint8 list \<Rightarrow> (pcmd \<times> uint8 list) res \<Rightarrow> bool" where
  "stays s r \<longleftrightarrow> (\<forall>c ps. r = Inr (c, ps) \<longrightarrow> of_line s c \<and> suffix ps s)"

lemma stays_simps [simp]: "stays s (Inl e)" "stays s (Inr (c, ps)) \<longleftrightarrow> of_line s c \<and> suffix ps s"
  by (simp_all add: stays_def)

lemma stays_bnd: "stays s r \<Longrightarrow> (\<And>c ps. of_line s c \<Longrightarrow> suffix ps s \<Longrightarrow> stays s (f (c, ps))) \<Longrightarrow> stays s (bnd r f)"
  by (cases r) (simp_all add: split_paired_all)

lemma stays_redirs: "of_line s c \<Longrightarrow> suffix ps s \<Longrightarrow> stays s (parseredirs c ps)"
proof (induction "length ps" arbitrary: c ps rule: less_induct)
  case less
  obtain more s0 tok q0 e0 s1 tok' q eq s2 where
    e: "peek ps ''<>'' = (more, s0)" "gettoken s0 = (tok, q0, e0, s1)" "gettoken s1 = (tok', q, eq, s2)"
    by (metis prod_cases4 surj_pair)
  note s0 = peek_suffix[OF e(1) less.prems(2)]
  note s1 = gettoken_suffix[OF e(2) s0]
  show ?case
  proof (cases more)
    case False
    then show ?thesis
      using e(1) less.prems s0 by (simp add: parseredirs_stop)
  next
    case True
    then have "length s2 < length ps"
      using peek_token[of ps _ s0] e gettoken_le[OF e(3)] by fastforce
    moreover have "of_line s (redir_for tok c (q, eq))" if "tok' = of_char CHR ''a''"
      using gettoken_tok[OF _ s1] e(3) that less.prems(1) by (auto simp: redir_for_def)
    ultimately show ?thesis
      using e True less.hyps[of s2] gettoken_suffix[OF e(3) s1] by (simp add: parseredirs_step)
  qed
qed

lemma put_arg_of_line:
  "of_line s c \<Longrightarrow> tok_ok s t \<Longrightarrow> core_args c = Some k \<Longrightarrow> Suc k < MAXARGS \<Longrightarrow>
   of_line s (put_arg t c) \<and> core_args (put_arg t c) = Some (Suc k)"
  by (induction c) auto

lemma parseredirs_core: "parseredirs c ps = Inr (c', r) \<Longrightarrow> core_args c' = core_args c"
proof (induction "length ps" arbitrary: c ps rule: less_induct)
  case less
  obtain more s0 tok q0 e0 s1 tok' q eq s2 where
    e: "peek ps ''<>'' = (more, s0)" "gettoken s0 = (tok, q0, e0, s1)" "gettoken s1 = (tok', q, eq, s2)"
    by (metis prod_cases4 surj_pair)
  show ?case
  proof (cases more)
    case False
    then show ?thesis
      using e(1) less.prems by (simp add: parseredirs_stop)
  next
    case True
    then have "length s2 < length ps"
      using peek_token[of ps _ s0] e gettoken_le[OF e(3)] by fastforce
    moreover have "parseredirs (redir_for tok c (q, eq)) s2 = Inr (c', r)"
      using e True less.prems by (simp add: parseredirs_step split: if_splits)
    moreover have "core_args (redir_for tok c (q, eq)) = core_args c"
      by (simp add: redir_for_def)
    ultimately show ?thesis
      using less.hyps by metis
  qed
qed

lemma stays_args: "of_line s ret \<Longrightarrow> core_args ret = Some argc \<Longrightarrow> suffix ps s \<Longrightarrow> stays s (parseargs ret argc ps)"
proof (induction "MAXARGS - argc" arbitrary: ret argc ps rule: less_induct)
  case less
  obtain stop s0 tok q eq s1 where e: "peek ps ''|)&;'' = (stop, s0)" "gettoken s0 = (tok, q, eq, s1)"
    by (metis prod_cases4 surj_pair)
  note s0 = peek_suffix[OF e(1) less.prems(3)]
  note s1 = gettoken_suffix[OF e(2) s0]
  have "stays s (bnd (parseredirs (put_arg (q, eq) ret) s1) (\<lambda>(ret, s). parseargs ret (Suc argc) s))"
    if "\<not> Suc argc \<ge> MAXARGS" "tok = of_char CHR ''a''"
  proof -
    have "tok_ok s (q, eq)" using gettoken_tok[OF _ s0] e(2) that(2) by simp
    then have p: "of_line s (put_arg (q, eq) ret)" "core_args (put_arg (q, eq) ret) = Some (Suc argc)"
      using put_arg_of_line[OF less.prems(1) _ less.prems(2)] that(1) by auto
    show ?thesis
    proof (cases "parseredirs (put_arg (q, eq) ret) s1")
      case (Inr r)
      obtain c ps' where r: "r = (c, ps')" by fastforce
      have "of_line s c" "suffix ps' s"
        using stays_redirs[OF p(1) s1] Inr r by simp_all
      then have "stays s (parseargs c (Suc argc) ps')"
        using less.hyps[of "Suc argc" c ps'] parseredirs_core[of _ s1 c ps'] Inr r p(2) that(1) by auto
      then show ?thesis using Inr r by simp
    qed simp
  qed
  then show ?case
    using e less.prems s0 s1 by (subst parseargs.simps) auto
qed

lemma stays_back: "of_line s c \<Longrightarrow> suffix ps s \<Longrightarrow> parseback c ps = (c', r) \<Longrightarrow> of_line s c' \<and> suffix r s"
proof (induction "length ps" arbitrary: c ps rule: less_induct)
  case less
  obtain more s1 tok q eq s2 where e: "peek ps ''&'' = (more, s1)" "gettoken s1 = (tok, q, eq, s2)"
    by (metis prod_cases4 surj_pair)
  note s1 = peek_suffix[OF e(1) less.prems(2)]
  show ?case
  proof (cases more)
    case False
    then show ?thesis
      using less.prems e(1) s1 by (subst (asm) parseback.simps) simp
  next
    case True
    then have "parseback (Back c) s2 = (c', r)" "length s2 < length ps"
      using less.prems(3) e peek_token[of ps _ s1] by (subst (asm) parseback.simps, auto)
    then show ?thesis
      using less.hyps[of s2 "Back c"] less.prems(1) gettoken_suffix[OF e(2) s1] by simp
  qed
qed

lemma stays_op:
  assumes "peek r toks = (b, s1)" "gettoken s1 = (tok, q, eq, s2)" "suffix r s" "of_line s c"
    and "\<And>s2. suffix s2 s \<Longrightarrow> stays s (p s2)" "\<And>c'. of_line s c' \<Longrightarrow> of_line s (f c')"
  shows "stays s (if b then bnd (p s2) (\<lambda>(c', s). Inr (f c', s)) else Inr (c, s1))"
proof -
  note s1 = peek_suffix[OF assms(1,3)]
  have "stays s (bnd (p s2) (\<lambda>(c', s). Inr (f c', s)))"
    using assms(5)[OF gettoken_suffix[OF assms(2) s1]] assms(6) by (intro stays_bnd) simp_all
  then show ?thesis
    using s1 assms(4) by simp
qed

lemma stays_all:
  "suffix ps s \<Longrightarrow> stays s (parseline n ps)"
  "suffix ps s \<Longrightarrow> stays s (parsepipe n ps)"
  "suffix ps s \<Longrightarrow> stays s (parseexec n ps)"
  "suffix ps s \<Longrightarrow> stays s (parseblock n ps)"
proof (induction n arbitrary: ps)
  case (Suc n)
  {
    case 1
    show ?case
      unfolding parseline.simps
    proof (rule stays_bnd[OF Suc.IH(2)[OF 1]], clarify)
      fix c r assume c: "of_line s c" "suffix r s"
      obtain c1 s1 b s2 tok q eq s3 where
        e: "parseback c r = (c1, s1)" "peek s1 '';'' = (b, s2)" "gettoken s2 = (tok, q, eq, s3)"
        by (metis prod_cases4 surj_pair)
      have "of_line s c1" "suffix s1 s" using stays_back[OF c e(1)] by simp_all
      then have "stays s (if b then bnd (parseline n s3) (\<lambda>(c', s). Inr (ListCmd c1 c', s)) else Inr (c1, s2))"
        using Suc.IH(1) by (intro stays_op[where p = "parseline n", OF e(2,3)]) simp_all
      with e show "stays s (let (c, s) = parseback c r; (semi, s) = peek s '';'' in
        if semi then let (_, _, _, s) = gettoken s in bnd (parseline n s) (\<lambda>(c', s). Inr (ListCmd c c', s)) else Inr (c, s))"
        by (auto split: if_splits)
    qed
  next
    case 2
    show ?case
      unfolding parsepipe.simps
    proof (rule stays_bnd[OF Suc.IH(3)[OF 2]], clarify)
      fix c r assume c: "of_line s c" "suffix r s"
      obtain b s2 tok q eq s3 where e: "peek r ''|'' = (b, s2)" "gettoken s2 = (tok, q, eq, s3)"
        by (metis prod_cases4 surj_pair)
      have "stays s (if b then bnd (parsepipe n s3) (\<lambda>(c', s). Inr (Pipe c c', s)) else Inr (c, s2))"
        using c Suc.IH(2) by (intro stays_op[where p = "parsepipe n", OF e]) simp_all
      with e show "stays s (let (bar, s) = peek r ''|'' in
        if bar then let (_, _, _, s) = gettoken s in bnd (parsepipe n s) (\<lambda>(c', s). Inr (Pipe c c', s)) else Inr (c, s))"
        by (auto split: if_splits)
    qed
  next
    case 3
    obtain b r where e: "peek ps ''('' = (b, r)" by fastforce
    note r = peek_suffix[OF e 3]
    have "stays s (bnd (parseredirs (Exec []) r) (\<lambda>(ret, s). parseargs ret 0 s))"
    proof (cases "parseredirs (Exec []) r")
      case (Inr x)
      obtain c r' where x: "x = (c, r')" by fastforce
      have "of_line s c" "suffix r' s" "core_args c = Some 0"
        using stays_redirs[of s "Exec []" r] r Inr x parseredirs_core[of "Exec []" r c r'] by simp_all
      then show ?thesis
        using Inr x stays_args by simp
    qed simp
    then show ?case
      using e Suc.IH(4)[OF r] by simp
  next
    case 4
    obtain b r tok q eq r1 where e: "peek ps ''('' = (b, r)" "gettoken r = (tok, q, eq, r1)"
      by (metis prod_cases4 surj_pair)
    have "stays s (bnd (parseline n r1) (\<lambda>(c, s).
        let (close, s) = peek s '')'' in
        if \<not> close then Inl (Panic ''syntax - missing )'') else let (_, _, _, s) = gettoken s in parseredirs c s))"
    proof (rule stays_bnd[OF Suc.IH(1)[OF gettoken_suffix[OF e(2) peek_suffix[OF e(1) 4]]]], clarify)
      fix c r assume c: "of_line s c" "suffix r s"
      obtain close s2 tok2 q2 eq2 s3 where e2: "peek r '')'' = (close, s2)" "gettoken s2 = (tok2, q2, eq2, s3)"
        by (metis prod_cases4 surj_pair)
      then show "stays s (let (close, s) = peek r '')'' in
        if \<not> close then Inl (Panic ''syntax - missing )'') else let (_, _, _, s) = gettoken s in parseredirs c s)"
        using stays_redirs[OF c(1) gettoken_suffix[OF e2(2) peek_suffix[OF e2(1) c(2)]]] by simp
    qed
    then show ?case
      using e by simp
  }
qed simp_all

lemma parsecmd_of_line: "parsecmd s = Inr c \<Longrightarrow> of_line s c"
  using stays_all(1)[of s s "4 * length s + 4"]
  by (cases "parseline (4 * length s + 4) s") (auto simp: parsecmd_def split: prod.splits if_splits)

section \<open>Terminating the words\<close>

definition nul_set :: "nat \<Rightarrow> token set \<Rightarrow> nat set" where
  "nul_set n T = (\<lambda>t. n - 1 - length (snd t)) ` T"

lemma fold_nul_at:
  "length (fold (\<lambda>(q, eq). nul_at eq) ts b) = length b \<and>
   (\<forall>i<length b. fold (\<lambda>(q, eq). nul_at eq) ts b ! i = (if i \<in> nul_set (length b) (set ts) then 0 else b ! i))"
proof (induction ts arbitrary: b)
  case (Cons t ts)
  obtain q eq where "t = (q, eq)" by fastforce
  then show ?case
    using Cons.IH[of "nul_at eq b"] by (auto simp: nul_at_def nul_set_def nth_list_update)
qed (simp add: nul_set_def)

lemma nulterminate_nth:
  "length (nulterminate c b) = length b \<and>
   (\<forall>i<length b. nulterminate c b ! i = (if i \<in> nul_set (length b) (set_cmd c) then 0 else b ! i))"
proof (induction c arbitrary: b)
  case (Exec ts)
  then show ?case using fold_nul_at[of ts b] by simp
next
  case (Redir c f m fd)
  then show ?case
    using Redir.IH[of b] by (auto simp: nul_at_def nul_set_def nth_list_update)
next
  case (Pipe l r)
  then show ?case
    using Pipe.IH(1)[of b] Pipe.IH(2)[of "nulterminate l b"] by (auto simp: nul_set_def)
next
  case (ListCmd l r)
  then show ?case
    using ListCmd.IH(1)[of b] ListCmd.IH(2)[of "nulterminate l b"] by (auto simp: nul_set_def)
next
  case (Back c)
  then show ?case by simp
qed

text \<open>The C string at a pointer into the line.\<close>

definition cstr_at :: "uint8 list \<Rightarrow> uint8 list \<Rightarrow> uint8 list" where
  "cstr_at b q = takeWhile (\<lambda>c. c \<noteq> 0) (drop (length b - 1 - length q) b)"

lemma words_of_line:
  assumes ol: "of_line s c" and nz: "0 \<notin> set s" and t: "t \<in> set_cmd c"
  shows "cstr_at (nulterminate c (s @ [0])) (fst t) = word t \<and> ok_word (word t)"
proof
  let ?b = "nulterminate c (s @ [0])" and ?Z = "nul_set (Suc (length s)) (set_cmd c)"
  have nth: "length ?b = Suc (length s)" "\<And>i. i < Suc (length s) \<Longrightarrow> ?b ! i = (if i \<in> ?Z then 0 else (s @ [0]) ! i)"
    using nulterminate_nth[of c "s @ [0]"] by simp_all
  obtain pre mid eq where m: "t = (mid @ eq, eq)" "s = pre @ mid @ eq" "mid \<noteq> []"
    "\<forall>c\<in>set mid. \<not> is_space c \<and> \<not> is_symbol c"
    using ol t by (auto simp: of_line_def tok_ok_def)
  have w: "word t = mid" by (simp add: m(1) word_of_token)
  have chars: "\<forall>c\<in>set mid. word_char c"
    using m(2,4) nz by (auto simp: word_char_def)
  have notZ: "length pre + k \<notin> ?Z" if k: "k < length mid" for k
  proof
    assume "length pre + k \<in> ?Z"
    then obtain t' where t': "t' \<in> set_cmd c" "length pre + k = length s - length (snd t')"
      by (auto simp: nul_set_def)
    then obtain pre' mid' eq' where m': "t' = (mid' @ eq', eq')" "s = pre' @ mid' @ eq'"
      "eq' = [] \<or> is_space (hd eq') \<or> is_symbol (hd eq')"
      using ol by (fastforce simp: of_line_def tok_ok_def)
    have i: "length pre + k = length (pre' @ mid')"
      using t'(2) m'(1,2) by simp
    have "length pre + k < length s"
      using m(2) k by simp
    also have "length s = length (pre' @ mid') + length eq'"
      using m'(2) by simp
    finally have "eq' \<noteq> []" using i by auto
    then have "s ! (length pre + k) = hd eq'"
      using m'(2) i(1) by (simp add: nth_append hd_conv_nth)
    moreover have "s ! (length pre + k) = mid ! k"
      using m(2) k by (simp add: nth_append)
    ultimately show False
      using m(4) m'(3) \<open>eq' \<noteq> []\<close> nth_mem[OF k] by auto
  qed
  have inZ: "length pre + length mid \<in> ?Z"
    using t m(1,2) by (force simp: nul_set_def)
  let ?d = "drop (length pre) ?b"
  have "take (length mid) ?d = mid"
    using nth notZ m(2) by (intro nth_equalityI) (simp_all add: nth_append)
  moreover have "?d ! length mid = 0" "length mid < length ?d"
    using nth(1) nth(2)[of "length pre + length mid"] inZ m(2) by simp_all
  ultimately have "?d = mid @ 0 # drop (Suc (length mid)) ?d"
    by (metis append_take_drop_id Cons_nth_drop_Suc)
  moreover have "takeWhile (\<lambda>c. c \<noteq> 0) (mid @ 0 # r) = mid" for r
    using chars by (subst takeWhile_append2) (auto simp: word_char_def)
  moreover have "length ?b - 1 - length (fst t) = length pre"
    using nth(1) m(1,2) by simp
  ultimately show "cstr_at ?b (fst t) = word t"
    unfolding cstr_at_def w by metis
  show "ok_word (word t)"
    using m(3) chars w by (simp add: ok_word_def)
qed

text \<open>
  C25: the arguments the shell passes on are the words of the line.  When \<^verbatim>\<open>parsecmd\<close> accepts a line, no program in the command has more than
  nine arguments, so that the array of arguments has room for the null pointer behind them, and after \<^verbatim>\<open>nulterminate\<close> every argument and
  every file name points to a C string that is exactly its word: not empty, and free of blanks and operators.
\<close>

theorem parsed_words:
  assumes "parsecmd s = Inr c" "0 \<notin> set s"
  shows "fits c \<and> (\<forall>t\<in>set_cmd c. cstr_at (nulterminate c (s @ [0])) (fst t) = word t \<and> ok_word (word t))"
  using parsecmd_of_line[OF assms(1)] words_of_line assms(2) by (simp add: of_line_def)

theorem parsed_words_witness:
  "fits (Exec [([97, 62, 98], [62, 98])]) \<and>
   (let c = Redir (Exec [([97, 62, 98], [62, 98])]) ([98], []) (O_WRONLY + O_CREATE + O_TRUNC) 1 in
    cstr_at (nulterminate c ([97, 62, 98] @ [0])) [97, 62, 98] = [97] \<and> cstr_at (nulterminate c ([97, 62, 98] @ [0])) [98] = [98])"
proof -
  let ?c = "Redir (Exec [([97, 62, 98], [62, 98])]) ([98], []) (O_WRONLY + O_CREATE + O_TRUNC) 1"
  have "parsecmd [97, 62, 98] = Inr ?c"
    by code_simp
  from parsed_words[OF this] show ?thesis
    by (simp add: word_def)
qed

end
