(* ===== verification/Xv6_Sh_Run.thy ===== *)
theory Xv6_Sh_Run
  imports Xv6_Sh_Argv
begin

text \<open>
  \<^verbatim>\<open>user/sh.c\<close>: running commands and the main loop of the shell.  The model follows one process: what \<^verbatim>\<open>fork\<close> answers decides
  whether it goes on as the child or as the parent, so the processes of a command are the runs for the different answers.  A process
  ends with \<^verbatim>\<open>exit\<close>, or becomes another program when \<^verbatim>\<open>exec\<close> succeeds.  The strings of a command are those its
  pointers lead to after \<^verbatim>\<open>nulterminate\<close>.
\<close>

section \<open>System calls\<close>

record 'w shsys =
  sh_io :: "'w usys"
  sh_fork :: "'w \<Rightarrow> int \<times> 'w"
  sh_wait :: "'w \<Rightarrow> int \<times> 'w"
  sh_pipe :: "'w \<Rightarrow> int \<times> int \<times> int \<times> 'w"
  sh_dup :: "int \<Rightarrow> 'w \<Rightarrow> int \<times> 'w"
  sh_exec :: "uint8 list \<Rightarrow> uint8 list list \<Rightarrow> 'w \<Rightarrow> bool \<times> 'w"
  sh_chdir :: "uint8 list \<Rightarrow> 'w \<Rightarrow> int \<times> 'w"

datatype 'w ended = Exited int 'w | Execed "uint8 list" "uint8 list list" 'w

section \<open>Running a command\<close>

definition panic_u :: "'w shsys \<Rightarrow> uint8 list \<Rightarrow> 'w \<Rightarrow> 'w ended res" where
  "panic_u K s w = bnd (fprintf_u (sh_io K) 2 (ascii ''%s'' @ [10]) [UStr (Some s)] w) (\<lambda>w. Inr (Exited 1 w))"

text \<open>\<^verbatim>\<open>fork1\<close>: how the shell ended, or the process number.\<close>

definition fork1 :: "'w shsys \<Rightarrow> 'w \<Rightarrow> 'w ended res + int \<times> 'w" where
  "fork1 K w = (let (pid, w) = sh_fork K w in if pid = -1 then Inl (panic_u K (ascii ''fork'') w) else Inr (pid, w))"

text \<open>The four calls with which a child of a pipeline takes its end of the pipe.\<close>

definition take_end :: "'w shsys \<Rightarrow> int \<Rightarrow> int \<Rightarrow> int \<Rightarrow> int \<Rightarrow> 'w \<Rightarrow> 'w" where
  "take_end K fd p p0 p1 w =
     (let (_, w) = u_close (sh_io K) fd w; (_, w) = sh_dup K p w; (_, w) = u_close (sh_io K) p0 w; (_, w) = u_close (sh_io K) p1 w in w)"

primrec runcmd :: "'w shsys \<Rightarrow> uint8 list cmd \<Rightarrow> 'w \<Rightarrow> 'w ended res" where
  "runcmd K (Exec argv) w =
     (case argv of [] \<Rightarrow> Inr (Exited 1 w)
      | a # _ \<Rightarrow>
        (let (ok, w) = sh_exec K a argv w in
         if ok then Inr (Execed a argv w)
         else bnd (fprintf_u (sh_io K) 2 (ascii ''exec %s failed'' @ [10]) [UStr (Some a)] w) (\<lambda>w. Inr (Exited 0 w))))"
| "runcmd K (Redir c f m fd) w =
     (let (_, w) = u_close (sh_io K) fd w; (r, w) = u_open (sh_io K) f m w in
      if r < 0 then bnd (fprintf_u (sh_io K) 2 (ascii ''open %s failed'' @ [10]) [UStr (Some f)] w) (\<lambda>w. Inr (Exited 1 w))
      else runcmd K c w)"
| "runcmd K (ListCmd l r) w =
     (case fork1 K w of Inl e \<Rightarrow> e
      | Inr (pid, w) \<Rightarrow> if pid = 0 then runcmd K l w else let (_, w) = sh_wait K w in runcmd K r w)"
| "runcmd K (Pipe l r) w =
     (let (x, p0, p1, w) = sh_pipe K w in
      if x < 0 then panic_u K (ascii ''pipe'') w
      else
        (case fork1 K w of Inl e \<Rightarrow> e
         | Inr (pid, w) \<Rightarrow>
           if pid = 0 then runcmd K l (take_end K 1 p1 p0 p1 w)
           else
             (case fork1 K w of Inl e \<Rightarrow> e
              | Inr (pid, w) \<Rightarrow>
                if pid = 0 then runcmd K r (take_end K 0 p0 p0 p1 w)
                else
                  let (_, w) = u_close (sh_io K) p0 w; (_, w) = u_close (sh_io K) p1 w; (_, w) = sh_wait K w; (_, w) = sh_wait K w
                  in Inr (Exited 0 w))))"
| "runcmd K (Back c) w =
     (case fork1 K w of Inl e \<Rightarrow> e | Inr (pid, w) \<Rightarrow> if pid = 0 then runcmd K c w else Inr (Exited 0 w))"

section \<open>Reading and running lines\<close>

text \<open>\<^verbatim>\<open>runcmd(parsecmd(buf))\<close>; what \<^verbatim>\<open>parsecmd\<close> prints before it panics over a rest of the line is \<open>leftovers\<close>.\<close>

definition leftovers :: "uint8 list \<Rightarrow> uint8 list" where
  "leftovers s = (case parseline (4 * length s + 4) s of Inl _ \<Rightarrow> [] | Inr (c, s) \<Rightarrow> snd (peek s []))"

definition run_line :: "'w shsys \<Rightarrow> uint8 list \<Rightarrow> 'w \<Rightarrow> 'w ended res" where
  "run_line K s w =
     (case parsecmd s of
        Inl (Panic m) \<Rightarrow>
          if leftovers s = [] then panic_u K (ascii m) w
          else bnd (fprintf_u (sh_io K) 2 (ascii ''leftovers: %s'' @ [10]) [UStr (Some (leftovers s))] w) (panic_u K (ascii m))
      | Inl e \<Rightarrow> Inl e
      | Inr c \<Rightarrow> runcmd K (map_cmd (\<lambda>t. cstr_at (nulterminate c (s @ [0])) (fst t)) c) w)"

text \<open>\<^verbatim>\<open>getcmd\<close>: its result and the buffer.\<close>

definition getcmd :: "'w shsys \<Rightarrow> nat \<Rightarrow> 'w \<Rightarrow> int \<times> uint8 list \<times> 'w" where
  "getcmd K nbuf w =
     (let (_, w) = u_write (sh_io K) 2 (ascii ''$ '') w; (bs, w) = gets (sh_io K) (int nbuf) w;
          buf = bs @ replicate (nbuf - length bs) 0
      in (if hd buf = 0 then -1 else 0, buf, w))"

definition cstr :: "uint8 list \<Rightarrow> uint8 list" where
  "cstr b = takeWhile (\<lambda>c. c \<noteq> 0) b"

partial_function (option) sh_open :: "'w shsys \<Rightarrow> 'w \<Rightarrow> 'w option" where
  "sh_open K w =
     (let (fd, w) = u_open (sh_io K) (ascii ''console'') O_RDWR w in
      if fd < 0 then Some w else if fd \<ge> 3 then Some (snd (u_close (sh_io K) fd w)) else sh_open K w)"

text \<open>The change of directory in the loop of \<^verbatim>\<open>main\<close>.\<close>

definition sh_cd :: "'w shsys \<Rightarrow> uint8 list \<Rightarrow> 'w \<Rightarrow> 'w res" where
  "sh_cd K buf w =
     (let d = cstr (drop 3 (buf[length (cstr buf) - 1 := 0])); (r, w) = sh_chdir K d w in
      if r < 0 then fprintf_u (sh_io K) 2 (ascii ''cannot cd %s'' @ [10]) [UStr (Some d)] w else Inr w)"

partial_function (option) sh_loop :: "'w shsys \<Rightarrow> 'w \<Rightarrow> 'w ended res option" where
  "sh_loop K w =
     (let (r, buf, w) = getcmd K 100 w in
      if r < 0 then Some (Inr (Exited 0 w))
      else if take 3 buf = ascii ''cd '' then (case sh_cd K buf w of Inl e \<Rightarrow> Some (Inl e) | Inr w \<Rightarrow> sh_loop K w)
      else
        (case fork1 K w of Inl e \<Rightarrow> Some e
         | Inr (pid, w) \<Rightarrow> if pid = 0 then Some (run_line K (cstr buf) w) else let (_, w) = sh_wait K w in sh_loop K w))"

definition sh_main :: "'w shsys \<Rightarrow> 'w \<Rightarrow> 'w ended res option" where
  "sh_main K w = (case sh_open K w of None \<Rightarrow> None | Some w \<Rightarrow> sh_loop K w)"

section \<open>The descriptors a command runs with\<close>

text \<open>What a file descriptor of a process refers to; a pipe is known by a number.\<close>

datatype desc = Opened "uint8 list" int | PipeRd nat | PipeWr nat | Inherited nat

type_synonym descs = "int \<Rightarrow> desc option"

definition least_free :: "descs \<Rightarrow> int \<Rightarrow> bool" where
  "least_free t fd \<longleftrightarrow> 0 \<le> fd \<and> t fd = None \<and> (\<forall>i. 0 \<le> i \<and> i < fd \<longrightarrow> t i \<noteq> None)"

text \<open>
  What the shell relies on of the kernel, whose descriptor table has 16 entries: \<^verbatim>\<open>close\<close> frees a descriptor; \<^verbatim>\<open>open\<close>, \<^verbatim>\<open>dup\<close>
  and \<^verbatim>\<open>pipe\<close> take the least free ones or fail; \<^verbatim>\<open>dup\<close> of an open descriptor fails only when the table is full;
  the other calls leave the descriptors alone, and \<^verbatim>\<open>fork\<close> gives the child a copy of them.
\<close>

definition fd_calls :: "'w shsys \<Rightarrow> ('w \<Rightarrow> descs) \<Rightarrow> bool" where
  "fd_calls K T \<longleftrightarrow>
     (\<forall>fd w. T (snd (u_close (sh_io K) fd w)) = (T w)(fd := None)) \<and>
     (\<forall>f m w fd w'. u_open (sh_io K) f m w = (fd, w') \<and> 0 \<le> fd \<longrightarrow> least_free (T w) fd \<and> T w' = (T w)(fd \<mapsto> Opened f m)) \<and>
     (\<forall>fd w. T w fd \<noteq> None \<and> (\<exists>i\<in>{0..<16}. T w i = None) \<longrightarrow>
        (\<exists>r w'. sh_dup K fd w = (r, w') \<and> least_free (T w) r \<and> T w' = (T w)(r := T w fd))) \<and>
     (\<forall>w x p0 p1 w'. sh_pipe K w = (x, p0, p1, w') \<and> 0 \<le> x \<longrightarrow>
        (\<exists>k. least_free (T w) p0 \<and> least_free ((T w)(p0 \<mapsto> PipeRd k)) p1 \<and> T w' = (T w)(p0 \<mapsto> PipeRd k, p1 \<mapsto> PipeWr k))) \<and>
     (\<forall>w. T (snd (sh_fork K w)) = T w) \<and> (\<forall>w. T (snd (sh_wait K w)) = T w) \<and>
     (\<forall>p a w. T (snd (sh_exec K p a w)) = T w)"

text \<open>
  The programs of a command with the descriptors each is to have: a redirection replaces one descriptor, a pipe the
  output of its left and the input of its right side by the ends of one pipe.
\<close>

inductive runs :: "uint8 list cmd \<Rightarrow> descs \<Rightarrow> uint8 list list \<Rightarrow> descs \<Rightarrow> bool" where
  "runs (Exec argv) t argv t"
| "runs c (t(fd \<mapsto> Opened f m)) argv u \<Longrightarrow> runs (Redir c f m fd) t argv u"
| "runs l (t(1 \<mapsto> PipeWr k)) argv u \<Longrightarrow> runs (Pipe l r) t argv u"
| "runs r (t(0 \<mapsto> PipeRd k)) argv u \<Longrightarrow> runs (Pipe l r) t argv u"
| "runs l t argv u \<Longrightarrow> runs (ListCmd l r) t argv u"
| "runs r t argv u \<Longrightarrow> runs (ListCmd l r) t argv u"
| "runs c t argv u \<Longrightarrow> runs (Back c) t argv u"

lemma fd_callsD:
  assumes "fd_calls K T"
  shows "T (snd (u_close (sh_io K) fd w)) = (T w)(fd := None)"
    "u_open (sh_io K) f m w = (fd, w') \<Longrightarrow> 0 \<le> fd \<Longrightarrow> least_free (T w) fd \<and> T w' = (T w)(fd \<mapsto> Opened f m)"
    "T w fd \<noteq> None \<Longrightarrow> i \<in> {0..<16} \<Longrightarrow> T w i = None \<Longrightarrow>
       \<exists>r w'. sh_dup K fd w = (r, w') \<and> least_free (T w) r \<and> T w' = (T w)(r := T w fd)"
    "sh_pipe K w = (x, p0, p1, w') \<Longrightarrow> 0 \<le> x \<Longrightarrow>
       \<exists>k. least_free (T w) p0 \<and> least_free ((T w)(p0 \<mapsto> PipeRd k)) p1 \<and> T w' = (T w)(p0 \<mapsto> PipeRd k, p1 \<mapsto> PipeWr k)"
    "T (snd (sh_fork K w)) = T w" "T (snd (sh_wait K w)) = T w" "T (snd (sh_exec K p a w)) = T w"
  using assms unfolding fd_calls_def by blast+

lemma least_free_unique: "least_free t a \<Longrightarrow> least_free t b \<Longrightarrow> a = b"
  unfolding least_free_def by (meson linorder_neqE_linordered_idom)

lemma least_free_std:
  assumes "dom t = {0, 1, 2}"
  shows "fd \<in> {0, 1} \<Longrightarrow> least_free (t(fd := None)) fd" "least_free t 3" "least_free (t(3 \<mapsto> x)) 4"
proof -
  have "t i = None \<longleftrightarrow> i \<notin> {0, 1, 2}" for i using assms by blast
  moreover have "0 \<le> i \<and> i < 3 \<longrightarrow> i \<in> {0, 1, 2}" for i :: int by auto
  moreover have "0 \<le> i \<and> i < 4 \<longrightarrow> i = 3 \<or> i \<in> {0, 1, 2}" for i :: int by auto
  ultimately show "fd \<in> {0, 1} \<Longrightarrow> least_free (t(fd := None)) fd" "least_free t 3" "least_free (t(3 \<mapsto> x)) 4"
    unfolding least_free_def by (auto simp del: not_None_eq)
qed

lemma fprintf_string: "fmt \<in> {ascii ''%s'' @ [10], ascii ''exec %s failed'' @ [10], ascii ''open %s failed'' @ [10]} \<Longrightarrow>
    \<exists>w'. fprintf_u K fd fmt [UStr (Some s)] w = Inr w'"
  by (auto simp: fprintf_u_def ascii_def)

lemmas fprintf_strings = fprintf_string[OF insertI1] fprintf_string[OF insertI2[OF insertI1]] fprintf_string[OF insertI2[OF insertI2[OF insertI1]]]

lemma panic_u_exits: "\<exists>w'. panic_u K s w = Inr (Exited 1 w')"
  using fprintf_string[of "ascii ''%s'' @ [10]" "sh_io K" 2 s w] by (auto simp: panic_u_def)

lemma fork1_cases:
  assumes "fd_calls K T"
  obtains w' where "fork1 K w = Inl (Inr (Exited 1 w'))" | pid w' where "fork1 K w = Inr (pid, w')" "T w' = T w"
proof (cases "fst (sh_fork K w) = -1")
  case True
  then show ?thesis
    using that(1) panic_u_exits[of K "ascii ''fork''" "snd (sh_fork K w)"] by (auto simp: fork1_def split_beta)
next
  case False
  moreover have "T (snd (sh_fork K w)) = T w" using assms by (simp add: fd_calls_def)
  ultimately show ?thesis
    using that(2)[of "fst (sh_fork K w)" "snd (sh_fork K w)"] by (simp add: fork1_def split_beta)
qed

lemma take_end_descs:
  assumes K: "fd_calls K T" and dom: "dom t = {0, 1, 2}" and w: "T w = t(3 \<mapsto> x, 4 \<mapsto> y)" and "fd \<in> {0, 1}" "p \<in> {3, 4}"
  shows "T (take_end K fd p 3 4 w) = t(fd := T w p)"
proof -
  obtain w1 where w1: "snd (u_close (sh_io K) fd w) = w1" "T w1 = (T w)(fd := None)"
    using K by (simp add: fd_calls_def)
  have "fd \<in> {0..<16}" "T w1 fd = None" "T w1 p \<noteq> None"
    using assms(4,5) w1(2) w by auto
  then obtain r w2 where d: "sh_dup K p w1 = (r, w2)" "least_free (T w1) r" "T w2 = (T w1)(r := T w1 p)"
    using fd_callsD(3)[OF K] by blast
  have "least_free (t(fd := None)) fd" using least_free_std(1)[OF dom assms(4)] .
  then have "least_free (T w1) fd"
    using w1(2) w assms(4) by (auto simp: least_free_def)
  then have "r = fd" using d(2) least_free_unique by blast
  moreover have t: "t 3 = None" "t 4 = None" using least_free_std(2,3)[OF dom] by (simp_all add: least_free_def)
  ultimately have "(T w2)(3 := None, 4 := None) = t(fd := T w p)"
    using d(3) w1(2) w assms(4,5) by (auto simp: fun_eq_iff)
  then show ?thesis
    using K w1(1) d(1) by (simp add: take_end_def split_beta fd_calls_def)
qed

text \<open>How a run of a command ends well.\<close>

definition well_ended :: "('w \<Rightarrow> descs) \<Rightarrow> uint8 list cmd \<Rightarrow> descs \<Rightarrow> 'w ended res \<Rightarrow> bool" where
  "well_ended T c t R \<longleftrightarrow> (\<exists>n w'. R = Inr (Exited n w')) \<or>
     (\<exists>argv w'. R = Inr (Execed (hd argv) argv w') \<and> argv \<noteq> [] \<and> runs c t argv (T w') \<and> dom (T w') = {0, 1, 2})"

lemma well_ended_Exited [simp]: "well_ended T c t (Inr (Exited n w'))"
  by (simp add: well_ended_def)

lemma well_ended_panic [simp]: "well_ended T c t (panic_u K s w)"
  using panic_u_exits[of K s w] by auto

lemma well_ended_mono: "well_ended T c t R \<Longrightarrow> (\<And>argv u. runs c t argv u \<Longrightarrow> runs c' t' argv u) \<Longrightarrow> well_ended T c' t' R"
  unfolding well_ended_def by blast

primrec std_fds :: "'t cmd \<Rightarrow> bool" where
  "std_fds (Exec ts) \<longleftrightarrow> True"
| "std_fds (Redir c f m fd) \<longleftrightarrow> fd \<in> {0, 1} \<and> std_fds c"
| "std_fds (Pipe a b) \<longleftrightarrow> std_fds a \<and> std_fds b"
| "std_fds (ListCmd a b) \<longleftrightarrow> std_fds a \<and> std_fds b"
| "std_fds (Back c) \<longleftrightarrow> std_fds c"

lemma well_ended_fork:
  assumes "fd_calls K T" "\<And>pid w'. T w' = T w \<Longrightarrow> well_ended T c t (k pid w')"
  shows "well_ended T c t (case fork1 K w of Inl e \<Rightarrow> e | Inr (pid, w) \<Rightarrow> k pid w)"
  by (rule fork1_cases[OF assms(1), of w]) (simp_all add: assms(2))

lemma runcmd_Pipe_ends:
  assumes K: "fd_calls K T" and dom: "dom (T w) = {0, 1, 2}"
    and l: "\<And>w. dom (T w) = {0, 1, 2} \<Longrightarrow> well_ended T l (T w) (runcmd K l w)"
    and r: "\<And>w. dom (T w) = {0, 1, 2} \<Longrightarrow> well_ended T r (T w) (runcmd K r w)"
  shows "well_ended T (Pipe l r) (T w) (runcmd K (Pipe l r) w)"
proof -
  obtain x p0 p1 w1 where p: "sh_pipe K w = (x, p0, p1, w1)" by (metis prod_cases4)
  show ?thesis
  proof (cases "x < 0")
    case False
    then obtain k where k: "least_free (T w) p0" "least_free ((T w)(p0 \<mapsto> PipeRd k)) p1" "T w1 = (T w)(p0 \<mapsto> PipeRd k, p1 \<mapsto> PipeWr k)"
      using fd_callsD(4)[OF K p] by auto
    have p0: "p0 = 3" using least_free_unique[OF k(1) least_free_std(2)[OF dom]] .
    then have p1: "p1 = 4" using least_free_unique[OF k(2)[unfolded p0] least_free_std(3)[OF dom]] by simp
    have w1: "T w1 = (T w)(3 \<mapsto> PipeRd k, 4 \<mapsto> PipeWr k)" using k(3) p0 p1 by simp
    have "well_ended T (Pipe l r) (T w) (runcmd K l (take_end K 1 4 3 4 w'))" if "T w' = T w1" for w'
    proof -
      have "T (take_end K 1 4 3 4 w') = (T w)(1 \<mapsto> PipeWr k)"
        using take_end_descs[OF K dom, of w' _ _ 1 4] that w1 by simp
      then show ?thesis
        using l[of "take_end K 1 4 3 4 w'"] dom by (auto intro: well_ended_mono runs.intros)
    qed
    moreover have "well_ended T (Pipe l r) (T w) (runcmd K r (take_end K 0 3 3 4 w'))" if "T w' = T w1" for w'
    proof -
      have "T (take_end K 0 3 3 4 w') = (T w)(0 \<mapsto> PipeRd k)"
        using take_end_descs[OF K dom, of w' _ _ 0 3] that w1 by simp
      then show ?thesis
        using r[of "take_end K 0 3 3 4 w'"] dom by (auto intro: well_ended_mono runs.intros)
    qed
    ultimately show ?thesis
      using p p0 p1 False by (auto intro!: well_ended_fork[OF K] simp: split_beta)
  qed (simp add: p)
qed

lemma runcmd_ends:
  assumes K: "fd_calls K T"
  shows "std_fds c \<Longrightarrow> dom (T w) = {0, 1, 2} \<Longrightarrow> well_ended T c (T w) (runcmd K c w)"
proof (induction c arbitrary: w)
  case (Exec argv)
  show ?case
  proof (cases argv)
    case (Cons a as)
    obtain ok w1 where e: "sh_exec K a argv w = (ok, w1)" by fastforce
    moreover have "T w1 = T w" using fd_callsD(7)[OF K, of a argv w] e by simp
    moreover obtain w2 where "fprintf_u (sh_io K) 2 (ascii ''exec %s failed'' @ [10]) [UStr (Some a)] w1 = Inr w2"
      using fprintf_strings(2)[of "sh_io K" 2 a w1] by (rule exE)
    moreover have "runs (Exec argv) (T w) argv (T w)" by (rule runs.intros)
    ultimately show ?thesis
      using Cons Exec.prems by (cases ok) (simp_all add: well_ended_def)
  qed simp
next
  case (Redir c f m fd)
  define w1 where "w1 = snd (u_close (sh_io K) fd w)"
  have w1: "T w1 = (T w)(fd := None)" using K by (simp add: fd_calls_def w1_def)
  obtain r w2 where o: "u_open (sh_io K) f m w1 = (r, w2)" by fastforce
  obtain w3 where f: "fprintf_u (sh_io K) 2 (ascii ''open %s failed'' @ [10]) [UStr (Some f)] w2 = Inr w3"
    using fprintf_strings(3)[of "sh_io K" 2 f w2] by (rule exE)
  show ?case
  proof (cases "r < 0")
    case False
    then have "least_free (T w1) r" "T w2 = (T w1)(r \<mapsto> Opened f m)"
      using fd_callsD(2)[OF K o] by simp_all
    moreover have "least_free (T w1) fd"
      using least_free_std(1)[OF Redir.prems(2), of fd] Redir.prems(1) w1 by simp
    ultimately have w2: "T w2 = (T w)(fd \<mapsto> Opened f m)"
      using least_free_unique w1 by fastforce
    have "dom (T w2) = {0, 1, 2}" using w2 Redir.prems by auto
    then have "well_ended T c (T w2) (runcmd K c w2)"
      using Redir.IH[of w2] Redir.prems(1) by simp
    then have "well_ended T (Redir c f m fd) (T w) (runcmd K c w2)"
      by (rule well_ended_mono) (simp add: w2 runs.intros(2))
    then show ?thesis
      using o False by (simp add: split_beta flip: w1_def)
  qed (use o f in \<open>simp add: split_beta flip: w1_def\<close>)
next
  case (Pipe l r)
  then show ?case using runcmd_Pipe_ends[OF K] by simp
next
  case (ListCmd l r)
  then have l: "well_ended T l (T w) (runcmd K l w')" and r: "well_ended T r (T w) (runcmd K r w')" if "T w' = T w" for w'
    using ListCmd.IH[of w'] that by simp_all
  have "well_ended T (ListCmd l r) (T w) (runcmd K l w')" if "T w' = T w" for w'
    using l[OF that] runs.intros(5) by (rule well_ended_mono)
  moreover have "well_ended T (ListCmd l r) (T w) (runcmd K r w')" if "T w' = T w" for w'
    using r[OF that] runs.intros(6) by (rule well_ended_mono)
  moreover have "T (snd (sh_wait K w')) = T w'" for w'
    by (rule fd_callsD(6)[OF K])
  ultimately show ?case
    by (auto intro!: well_ended_fork[OF K] simp: split_beta)
next
  case (Back c)
  then have c: "well_ended T c (T w) (runcmd K c w')" if "T w' = T w" for w'
    using Back.IH[of w'] that by simp
  have "well_ended T (Back c) (T w) (runcmd K c w')" if "T w' = T w" for w'
    using c[OF that] runs.intros(7) by (rule well_ended_mono)
  then show ?case
    by (auto intro!: well_ended_fork[OF K])
qed

section \<open>From the line to the programs\<close>

lemma std_fds_ok: "ok_cmd c \<Longrightarrow> std_fds c"
  by (induction c) auto

lemma show_cmd_chars: "ok_cmd c \<Longrightarrow> 0 \<notin> set (show_cmd l c)"
  by (induction c arbitrary: l) (auto simp: ok_word_def word_char_def redir_op_def paren_def)

lemma run_line_shown:
  assumes "ok_cmd c"
  shows "run_line K (show_cmd 0 c @ [10]) w = runcmd K c w"
proof -
  let ?s = "show_cmd 0 c @ [10]"
  obtain c' where c': "parsecmd ?s = Inr c'" "map_cmd word c' = c"
    using parse_shown[OF assms, of "[10]"] by (auto simp: is_space_iff)
  have "0 \<notin> set ?s" using show_cmd_chars[OF assms] by simp
  then have "cstr_at (nulterminate c' (?s @ [0])) (fst t) = word t" if "t \<in> set_cmd c'" for t
    using words_of_line[OF parsecmd_of_line[OF c'(1)] _ that] by simp
  then have "map_cmd (\<lambda>t. cstr_at (nulterminate c' (?s @ [0])) (fst t)) c' = map_cmd word c'"
    by (rule cmd.map_cong0)
  then show ?thesis
    using c' by (simp add: run_line_def)
qed

text \<open>Descriptors kept in a table of 16, with the answers of \<^verbatim>\<open>fork\<close> given and the number of the next pipe.\<close>

definition low :: "descs \<Rightarrow> int" where
  "low t = (case find (\<lambda>i. t i = None) [0..15] of None \<Rightarrow> -1 | Some i \<Rightarrow> i)"

definition tab_open :: "desc option \<Rightarrow> (descs \<times> 'b) \<Rightarrow> int \<times> (descs \<times> 'b)" where
  "tab_open d tb = (let fd = low (fst tb) in if fd < 0 then (-1, tb) else (fd, (fst tb)(fd := d), snd tb))"

definition table :: "(descs \<times> bool list \<times> nat) shsys" where
  "table = \<lparr>sh_io = \<lparr>u_read = \<lambda>fd n w. (0, [], w), u_write = \<lambda>fd bs w. (int (length bs), w), u_open = \<lambda>f m. tab_open (Some (Opened f m)),
       u_close = \<lambda>fd (t, b). (0, t(fd := None), b), u_fstat = \<lambda>fd w. (-1, [], w)\<rparr>,
     sh_fork = \<lambda>(t, fs, k). (if fs \<noteq> [] \<and> hd fs then 0 else 1, t, tl fs, k), sh_wait = \<lambda>w. (1, w),
     sh_pipe = \<lambda>(t, fs, k).
       (let (p0, w1) = tab_open (Some (PipeRd k)) (t, fs, Suc k); (p1, w2) = tab_open (Some (PipeWr k)) w1 in
        if p0 < 0 \<or> p1 < 0 then (-1, 0, 0, t, fs, k) else (0, p0, p1, w2)),
     sh_dup = \<lambda>fd w. tab_open (fst w fd) w, sh_exec = \<lambda>p argv w. (True, w), sh_chdir = \<lambda>d w. (0, w)\<rparr>"

lemma low_least: "0 \<le> low t \<Longrightarrow> least_free t (low t)"
proof (cases "find (\<lambda>i. t i = None) [0..15]")
  case (Some i)
  then obtain n where n: "n < 16" "t (int n) = None" "i = int n" "\<forall>j<n. t (int j) \<noteq> None"
    by (auto simp: find_Some_iff simp del: not_None_eq upto_rec_numeral)
  have "t j \<noteq> None" if "0 \<le> j" "j < int n" for j
    using n(4) that zero_le_imp_eq_int[OF that(1)] by auto
  then show ?thesis
    using Some n by (simp add: low_def least_free_def)
qed (simp add: low_def)

lemma low_found: "t i = None \<Longrightarrow> i \<in> {0..<16} \<Longrightarrow> 0 \<le> low t"
proof (cases "find (\<lambda>i. t i = None) [0..15]")
  case (Some j)
  then have "j \<in> set [0..15]" unfolding find_Some_iff by auto
  then show ?thesis using Some by (simp add: low_def del: upto_rec_numeral)
qed (auto simp: find_None_iff simp del: not_None_eq upto_rec_numeral)

lemma fd_calls_table: "fd_calls table fst"
  unfolding fd_calls_def
proof (intro conjI allI impI)
  fix fd :: int and w :: "descs \<times> bool list \<times> nat"
  assume "fst w fd \<noteq> None \<and> (\<exists>i\<in>{0..<16}. fst w i = None)"
  then have "0 \<le> low (fst w)" using low_found by blast
  then show "\<exists>r w'. sh_dup table fd w = (r, w') \<and> least_free (fst w) r \<and> fst w' = (fst w)(r := fst w fd)"
    using low_least[of "fst w"] by (cases w) (simp add: table_def tab_open_def Let_def)
next
  fix w :: "descs \<times> bool list \<times> nat" and x p0 p1 w'
  assume "sh_pipe table w = (x, p0, p1, w') \<and> 0 \<le> x"
  then show "\<exists>k. least_free (fst w) p0 \<and> least_free ((fst w)(p0 \<mapsto> PipeRd k)) p1 \<and> fst w' = (fst w)(p0 \<mapsto> PipeRd k, p1 \<mapsto> PipeWr k)"
    using low_least by (intro exI[of _ "snd (snd w)"]) (cases w; auto simp: table_def tab_open_def Let_def split: if_splits)
qed (use low_least in \<open>auto simp: table_def tab_open_def Let_def split: if_splits\<close>)



end
