(* ===== verification/Xv6_Linedisc.thy ===== *)
theory Xv6_Linedisc
  imports Xv6_Console Xv6_Locking Xv6_Ring Xv6_Pipe
begin

text \<open>
  The console as a line editor.  The abstract editor keeps the input that can be read, the line being typed and what has been
  sent to the terminal; \<^verbatim>\<open>consoleintr\<close> and \<^verbatim>\<open>consoleread\<close> of \<^verbatim>\<open>kernel/console.c\<close>, with one circular buffer and three
  counters that wrap around, are shown to implement it.
\<close>

section \<open>The abstract editor\<close>

record editor =
  ld_done :: "uint8 list"
  ld_edit :: "uint8 list"
  ld_out :: "(nat \<times> uint8) list"

definition erase :: "(nat \<times> uint8) list" where
  "erase = [(THR, 8), (THR, 32), (THR, 8)]"

definition ld_type :: "int \<Rightarrow> editor \<Rightarrow> editor" where
  "ld_type c d =
     (if c = CTRL_P then d
      else if c = CTRL_U then d\<lparr>ld_edit := [], ld_out := ld_out d @ concat (replicate (length (ld_edit d)) erase)\<rparr>
      else if c = CTRL_H \<or> c = 0x7f then
        (if ld_edit d = [] then d else d\<lparr>ld_edit := butlast (ld_edit d), ld_out := ld_out d @ erase\<rparr>)
      else if c \<noteq> 0 \<and> length (ld_done d) + length (ld_edit d) < 128 then
        let c = (if c = 13 then NL else c);
            line = ld_edit d @ [word_of_int c];
            d = d\<lparr>ld_edit := line, ld_out := ld_out d @ [(THR, word_of_int c)]\<rparr>
        in if c = NL \<or> c = CTRL_D \<or> length (ld_done d) + length line = 128
           then d\<lparr>ld_done := ld_done d @ line, ld_edit := []\<rparr> else d
      else d)"

section \<open>The state of the console\<close>

interpretation cr: ring "128 :: uint32"
  by unfold_locales simp_all

definition cons_abs :: "'a cst_scheme \<Rightarrow> editor" where
  "cons_abs s = \<lparr>ld_done = ring_list 128 (cons_buf s) (cons_r s) (cons_w s),
     ld_edit = ring_list 128 (cons_buf s) (cons_w s) (cons_e s), ld_out = uart_log s\<rparr>"

definition cons_ok :: "'a cst_scheme \<Rightarrow> bool" where
  "cons_ok s \<longleftrightarrow> unat (cons_w s - cons_r s) \<le> unat (cons_e s - cons_r s) \<and> unat (cons_e s - cons_r s) \<le> 128 \<and>
     10 \<notin> set (ring_list 128 (cons_buf s) (cons_w s) (cons_e s))"

text \<open>The UART accepts a character now and then, and the kernel has not panicked.\<close>

definition uart_live :: "'a ust_scheme \<Rightarrow> bool" where
  "uart_live s \<longleftrightarrow> \<not> panicked s \<and> (\<forall>k. \<exists>j\<ge>k. lsr_in s j AND LSR_TX_IDLE \<noteq> 0)"

definition cons_quiet :: "'a cst_scheme \<Rightarrow> bool" where
  "cons_quiet s \<longleftrightarrow> cpu_ok s \<and> procs_free s \<and> lock_free ConsLock s \<and> uart_live s"

lemma uint8_NL: "uint c = NL \<longleftrightarrow> c = 10" for c :: uint8
  by (simp add: word_uint_eq_iff)

section \<open>Fields under a lock\<close>

lemma ust_fields [simp]:
  "lsr_in (held lk s) = lsr_in s" "lsr_reads (held lk s) = lsr_reads s" "uart_log (held lk s) = uart_log s" "panicked (held lk s) = panicked s"
  "lsr_in (settle s) = lsr_in s" "lsr_reads (settle s) = lsr_reads s" "uart_log (settle s) = uart_log s" "panicked (settle s) = panicked s"
  "lsr_in (woken ch ps s) = lsr_in s" "lsr_reads (woken ch ps s) = lsr_reads s" "uart_log (woken ch ps s) = uart_log s" "panicked (woken ch ps s) = panicked s"
  by (simp_all add: held_def settle_def woken_def)

lemma cst_fields [simp]:
  "cons_buf (held lk s) = cons_buf s" "cons_r (held lk s) = cons_r s" "cons_w (held lk s) = cons_w s" "cons_e (held lk s) = cons_e s"
  "cons_buf (settle s) = cons_buf s" "cons_r (settle s) = cons_r s" "cons_w (settle s) = cons_w s" "cons_e (settle s) = cons_e s"
  "cons_buf (woken ch ps s) = cons_buf s" "cons_r (woken ch ps s) = cons_r s" "cons_w (woken ch ps s) = cons_w s" "cons_e (woken ch ps s) = cons_e s"
  by (simp_all add: held_def settle_def woken_def)

lemma ust_upd_held [lock_simps]:
  "(held lk s)\<lparr>lsr_reads := j\<rparr> = held lk (s\<lparr>lsr_reads := j\<rparr>)" "(held lk s)\<lparr>uart_log := l\<rparr> = held lk (s\<lparr>uart_log := l\<rparr>)"
  "(settle s)\<lparr>lsr_reads := j\<rparr> = settle (s\<lparr>lsr_reads := j\<rparr>)" "(settle s)\<lparr>uart_log := l\<rparr> = settle (s\<lparr>uart_log := l\<rparr>)"
  by (cases s; simp add: held_def settle_def)+

lemma cst_upd_held [lock_simps]:
  "(held lk s)\<lparr>cons_buf := b\<rparr> = held lk (s\<lparr>cons_buf := b\<rparr>)" "(held lk s)\<lparr>cons_r := x\<rparr> = held lk (s\<lparr>cons_r := x\<rparr>)"
  "(held lk s)\<lparr>cons_w := x\<rparr> = held lk (s\<lparr>cons_w := x\<rparr>)" "(held lk s)\<lparr>cons_e := x\<rparr> = held lk (s\<lparr>cons_e := x\<rparr>)"
  "(settle s)\<lparr>cons_buf := b\<rparr> = settle (s\<lparr>cons_buf := b\<rparr>)" "(settle s)\<lparr>cons_r := x\<rparr> = settle (s\<lparr>cons_r := x\<rparr>)"
  "(settle s)\<lparr>cons_w := x\<rparr> = settle (s\<lparr>cons_w := x\<rparr>)" "(settle s)\<lparr>cons_e := x\<rparr> = settle (s\<lparr>cons_e := x\<rparr>)"
  by (cases s; simp add: held_def settle_def)+

lemma ust_upd_quiet [simp]:
  "cpu_ok (s\<lparr>lsr_reads := j\<rparr>) = cpu_ok s" "cpu_ok (s\<lparr>uart_log := l\<rparr>) = cpu_ok s"
  "lock_free lk (s\<lparr>lsr_reads := j\<rparr>) = lock_free lk s" "lock_free lk (s\<lparr>uart_log := l\<rparr>) = lock_free lk s"
  "myproc (s\<lparr>lsr_reads := j\<rparr>) = myproc s" "myproc (s\<lparr>uart_log := l\<rparr>) = myproc s"
  "procs_free (s\<lparr>lsr_reads := j\<rparr>) = procs_free s" "procs_free (s\<lparr>uart_log := l\<rparr>) = procs_free s"
  by (simp_all add: myproc_def mycpu_def procs_free_def lock_free_def cpu_ok_def)

lemma cst_upd_quiet [simp]:
  "cpu_ok (s\<lparr>cons_buf := b\<rparr>) = cpu_ok s" "cpu_ok (s\<lparr>cons_r := x\<rparr>) = cpu_ok s" "cpu_ok (s\<lparr>cons_w := x\<rparr>) = cpu_ok s" "cpu_ok (s\<lparr>cons_e := x\<rparr>) = cpu_ok s"
  "lock_free lk (s\<lparr>cons_buf := b\<rparr>) = lock_free lk s" "lock_free lk (s\<lparr>cons_r := x\<rparr>) = lock_free lk s"
  "lock_free lk (s\<lparr>cons_w := x\<rparr>) = lock_free lk s" "lock_free lk (s\<lparr>cons_e := x\<rparr>) = lock_free lk s"
  "procs_free (s\<lparr>cons_buf := b\<rparr>) = procs_free s" "procs_free (s\<lparr>cons_r := x\<rparr>) = procs_free s"
  "procs_free (s\<lparr>cons_w := x\<rparr>) = procs_free s" "procs_free (s\<lparr>cons_e := x\<rparr>) = procs_free s"
  "myproc (s\<lparr>cons_buf := b\<rparr>) = myproc s" "myproc (s\<lparr>cons_r := x\<rparr>) = myproc s" "myproc (s\<lparr>cons_w := x\<rparr>) = myproc s" "myproc (s\<lparr>cons_e := x\<rparr>) = myproc s"
  by (simp_all add: myproc_def mycpu_def procs_free_def lock_free_def cpu_ok_def)

lemma uart_live_cong: "lsr_in s = lsr_in t \<Longrightarrow> panicked s = panicked t \<Longrightarrow> uart_live s = uart_live t"
  by (simp add: uart_live_def)

section \<open>Sending a character\<close>

lemma tx_idle_wait_within:
  "lsr_in s (lsr_reads s + n) AND LSR_TX_IDLE \<noteq> 0 \<Longrightarrow> \<exists>j. tx_idle_wait s = Some (s\<lparr>lsr_reads := j\<rparr>)"
proof (induction n arbitrary: s)
  case 0
  then show ?case
    by (subst tx_idle_wait.simps) (simp add: ReadLSR_def exI)
next
  case (Suc n)
  let ?s = "s\<lparr>lsr_reads := lsr_reads s + 1\<rparr>"
  obtain j where "tx_idle_wait ?s = Some (?s\<lparr>lsr_reads := j\<rparr>)"
    using Suc.IH[of ?s] Suc.prems by fastforce
  then show ?case
    by (subst tx_idle_wait.simps) (simp add: ReadLSR_def exI)
qed

lemma tx_idle_wait_live:
  assumes "uart_live s"
  shows "\<exists>j. tx_idle_wait s = Some (s\<lparr>lsr_reads := j\<rparr>)"
proof -
  obtain j where "j \<ge> lsr_reads s" "lsr_in s j AND LSR_TX_IDLE \<noteq> 0"
    using assms unfolding uart_live_def by blast
  then show ?thesis
    using tx_idle_wait_within[of s "j - lsr_reads s"] by simp
qed

lemma push_pop: "cpu_ok s \<Longrightarrow> pop_off (push_off s) = Inr (settle s)"
  by (cases s) (auto simp: pop_off_def push_off_def mycpu_def Let_def settle_def cpu_ok_def intr_on_off intr_off_id)

lemma push_off_upd:
  "(push_off s)\<lparr>lsr_reads := j\<rparr> = push_off (s\<lparr>lsr_reads := j\<rparr>)" "(push_off s)\<lparr>uart_log := l\<rparr> = push_off (s\<lparr>uart_log := l\<rparr>)"
  by (simp_all add: push_off_def mycpu_def Let_def)

lemma uartputc_sync_live:
  assumes "uart_live s" "cpu_ok s"
  shows "\<exists>j. uartputc_sync c s = Inr (settle (s\<lparr>lsr_reads := j, uart_log := uart_log s @ [(THR, word_of_int c)]\<rparr>))"
proof -
  have p: "lsr_in (push_off s) = lsr_in s" "panicked (push_off s) = panicked s" "\<And>s :: 'a ust_scheme. uart_log (push_off s) = uart_log s"
    by (simp_all add: push_off_def mycpu_def Let_def)
  then obtain j where "tx_idle_wait (push_off s) = Some ((push_off s)\<lparr>lsr_reads := j\<rparr>)"
    using tx_idle_wait_live[of "push_off s"] assms(1) uart_live_cong[OF p(1,2)] by blast
  moreover have "\<not> panicked s" using assms(1) by (simp add: uart_live_def)
  ultimately show ?thesis
    using p assms(2)
    by (intro exI[of _ j]) (simp add: uartputc_sync_def WriteReg_def push_off_upd push_pop)
qed

lemma consputc_held:
  assumes "uart_live s" "cpu_ok s"
  shows "\<exists>j. consputc c (held lk s) = Inr (held lk (s\<lparr>lsr_reads := j,
    uart_log := uart_log s @ (if c = BACKSPACE then erase else [(THR, word_of_int c)])\<rparr>))"
proof -
  have put: "\<exists>j. uartputc_sync c (held lk t) = Inr (held lk (t\<lparr>lsr_reads := j, uart_log := uart_log t @ [(THR, word_of_int c)]\<rparr>))"
    if "uart_live t" "cpu_ok t" for c and t :: "'a ust_scheme"
    using uartputc_sync_live[of "held lk t" c] that uart_live_cong[of "held lk t" t] by (simp add: lock_simps)
  show ?thesis
  proof (cases "c = BACKSPACE")
    case True
    obtain j1 where 1: "uartputc_sync 8 (held lk s) = Inr (held lk (s\<lparr>lsr_reads := j1, uart_log := uart_log s @ [(THR, 8)]\<rparr>))"
      using put[OF assms, of 8] by auto
    let ?s1 = "s\<lparr>lsr_reads := j1, uart_log := uart_log s @ [(THR, 8)]\<rparr>"
    obtain j2 where 2: "uartputc_sync 32 (held lk ?s1) = Inr (held lk (?s1\<lparr>lsr_reads := j2, uart_log := uart_log ?s1 @ [(THR, 32)]\<rparr>))"
      using put[of ?s1 32] assms uart_live_cong[of ?s1 s] by auto
    let ?s2 = "?s1\<lparr>lsr_reads := j2, uart_log := uart_log ?s1 @ [(THR, 32)]\<rparr>"
    obtain j3 where 3: "uartputc_sync 8 (held lk ?s2) = Inr (held lk (?s2\<lparr>lsr_reads := j3, uart_log := uart_log ?s2 @ [(THR, 8)]\<rparr>))"
      using put[of ?s2 8] assms uart_live_cong[of ?s2 s] by auto
    show ?thesis
      using 1 2 3 True by (intro exI[of _ j3]) (simp add: consputc_def erase_def)
  qed (use put[OF assms, of c] in \<open>simp add: consputc_def\<close>)
qed

section \<open>Erasing the line\<close>

lemma kill_line_held:
  assumes "uart_live s" "cpu_ok s" "10 \<notin> set (ring_list 128 (cons_buf s) (cons_w s) (cons_e s))" "k = unat (cons_e s - cons_w s)"
  shows "\<exists>j. kill_line k (held lk s) = Inr (held lk (s\<lparr>lsr_reads := j, uart_log := uart_log s @ concat (replicate k erase),
    cons_e := cons_w s\<rparr>))"
  using assms
proof (induction k arbitrary: s)
  case 0
  then have "cons_e s = cons_w s" by (simp add: unat_eq_0)
  then have "s\<lparr>cons_e := cons_w s\<rparr> = s" by (intro cst.equality) simp_all
  then show ?case by (intro exI[of _ "lsr_reads s"]) simp
next
  case (Suc k)
  then have ne: "cons_e s \<noteq> cons_w s" by auto
  let ?s = "s\<lparr>cons_e := cons_e s - 1\<rparr>"
  have last: "ring_list 128 (cons_buf s) (cons_w s) (cons_e s) =
      ring_list 128 (cons_buf s) (cons_w s) (cons_e s - 1) @ [cons_buf s (unat ((cons_e s - 1) mod 128))]"
    using cr.unput[OF ne] .
  then have c: "uint (cons_buf s (unat ((cons_e s - 1) mod 128))) \<noteq> NL"
    using Suc.prems(3) by (auto simp: uint8_NL)
  obtain j where j: "consputc BACKSPACE (held lk ?s) = Inr (held lk (?s\<lparr>lsr_reads := j, uart_log := uart_log s @ erase\<rparr>))"
    using consputc_held[of ?s BACKSPACE lk] Suc.prems uart_live_cong[of ?s s] by auto
  let ?s1 = "?s\<lparr>lsr_reads := j, uart_log := uart_log s @ erase\<rparr>"
  have "\<exists>j. kill_line k (held lk ?s1) = Inr (held lk (?s1\<lparr>lsr_reads := j, uart_log := uart_log ?s1 @ concat (replicate k erase),
      cons_e := cons_w ?s1\<rparr>))"
    using Suc.prems uart_live_cong[of ?s1 s] last unat_step[OF ne] by (intro Suc.IH) (simp_all add: algebra_simps)
  then show ?case
    using ne c j by (simp add: lock_simps)
qed

section \<open>One character\<close>

lemma unput_counter:
  fixes e w r :: uint32
  assumes "e \<noteq> w" "unat (w - r) \<le> unat (e - r)"
  shows "unat (e - 1 - r) = unat (e - r) - 1" "unat (w - r) < unat (e - r)"
proof -
  have "w - r \<noteq> e - r" using assms(1) by simp
  then show "unat (w - r) < unat (e - r)"
    using assms(2) by (simp add: word_unat_eq_iff)
  then have "e \<noteq> r" by auto
  then show "unat (e - 1 - r) = unat (e - r) - 1"
    using unat_step[of e r] by (simp add: algebra_simps)
qed

lemma put_edit:
  fixes e w r :: uint32
  assumes "unat (w - r) \<le> unat (e - r)" "unat (e - r) < 128"
  shows "ring_list 128 (b(unat (e mod 128) := c)) w (e + 1) = ring_list 128 b w e @ [c]"
    "ring_list 128 (b(unat (e mod 128) := c)) r w = ring_list 128 b r w"
    "ring_list 128 (b(unat (e mod 128) := c)) r (e + 1) = ring_list 128 b r w @ ring_list 128 b w e @ [c]"
    "unat (e + 1 - r) = Suc (unat (e - r))" "unat (e - r) = unat (w - r) + unat (e - w)"
proof -
  note all = cr.put(1)[of e r b c] cr.put(2)[of e r] cr.split_at[OF assms(1), of b]
  have len: "unat (e - r) = unat (w - r) + unat (e - w)"
    using arg_cong[OF all(3), of length] by simp
  then show "unat (e - r) = unat (w - r) + unat (e - w)" .
  show "unat (e + 1 - r) = Suc (unat (e - r))" using all(2) assms(2) by simp
  show e: "ring_list 128 (b(unat (e mod 128) := c)) w (e + 1) = ring_list 128 b w e @ [c]"
    using cr.put(1)[of e w b c] len assms(2) by simp
  show r: "ring_list 128 (b(unat (e mod 128) := c)) r (e + 1) = ring_list 128 b r w @ ring_list 128 b w e @ [c]"
    using all assms(2) by simp
  have "unat (w - r) \<le> unat (e + 1 - r)" using all(2) assms by simp
  then show "ring_list 128 (b(unat (e mod 128) := c)) r w = ring_list 128 b r w"
    using cr.split_at[of w r "e + 1" "b(unat (e mod 128) := c)"] r e by simp
qed

text \<open>What one interrupt leaves: the state of the editor, and the processes that waited for input woken when a line is complete.\<close>

definition typed :: "int \<Rightarrow> 'a cst_scheme \<Rightarrow> 'a cst_scheme \<Rightarrow> bool" where
  "typed c s s' \<longleftrightarrow> cons_ok s' \<and> cons_quiet s' \<and> cons_abs s' = ld_type c (cons_abs s) \<and> myproc s' = myproc s \<and>
     procs s' = procs (if ld_done (cons_abs s') = ld_done (cons_abs s) then s else woken (Some ChanConsR) [0..<N_PROC] s)"

lemma cons_quiet_cong [simp]:
  "cons_quiet (settle s) = cons_quiet s" "cons_quiet (woken ch ps s) = cons_quiet s"
  "cons_quiet (s\<lparr>lsr_reads := j\<rparr>) = cons_quiet s" "cons_quiet (s\<lparr>uart_log := l\<rparr>) = cons_quiet s"
  "cons_quiet (s\<lparr>cons_buf := b\<rparr>) = cons_quiet s" "cons_quiet (s\<lparr>cons_w := x\<rparr>) = cons_quiet s" "cons_quiet (s\<lparr>cons_e := x\<rparr>) = cons_quiet s"
  "cons_quiet (s\<lparr>cons_r := x\<rparr>) = cons_quiet s"
  by (simp_all add: cons_quiet_def uart_live_def)

lemma consoleintr_unfold:
  "cons_quiet s \<Longrightarrow> consoleintr c s =
     bnd (if c = CTRL_P then Inr (held ConsLock s)
          else if c = CTRL_U then kill_line (unat (cons_e s - cons_w s)) (held ConsLock s)
          else if c = CTRL_H \<or> c = 0x7f then
            (if cons_e s \<noteq> cons_w s then consputc BACKSPACE (held ConsLock (s\<lparr>cons_e := cons_e s - 1\<rparr>)) else Inr (held ConsLock s))
          else consoleintr_store c (held ConsLock s)) (release ConsLock)"
  by (simp add: consoleintr_def acquire_held cons_quiet_def lock_simps)

lemma consoleintr_erase:
  assumes q: "cons_quiet s" and ok: "cons_ok s" and c: "c = CTRL_U \<or> c = CTRL_H \<or> c = 0x7f"
  shows "\<exists>s'. consoleintr c s = Inr s' \<and> typed c s s'"
proof -
  have cpu: "cpu_ok s" "lock_free ConsLock s" "uart_live s" using q by (simp_all add: cons_quiet_def)
  show ?thesis
  proof (cases "c = CTRL_U")
    case True
    obtain j where j: "kill_line (unat (cons_e s - cons_w s)) (held ConsLock s) = Inr (held ConsLock (s\<lparr>lsr_reads := j,
        uart_log := uart_log s @ concat (replicate (unat (cons_e s - cons_w s)) erase), cons_e := cons_w s\<rparr>))"
      using kill_line_held[OF cpu(3,1) _ refl] ok by (auto simp: cons_ok_def)
    then show ?thesis
      using True q ok cpu
      by (auto simp: consoleintr_unfold release_held typed_def cons_ok_def cons_abs_def ld_type_def)
  next
    case False
    let ?s = "s\<lparr>cons_e := cons_e s - 1\<rparr>"
    have l: "uart_live ?s" "cpu_ok ?s" using cpu by (simp_all add: uart_live_def)
    obtain j where j: "consputc BACKSPACE (held ConsLock ?s) = Inr (held ConsLock (?s\<lparr>lsr_reads := j, uart_log := uart_log s @ erase\<rparr>))"
      using consputc_held[OF l, of BACKSPACE ConsLock] by auto
    show ?thesis
    proof (cases "cons_e s = cons_w s")
      case True
      then show ?thesis
        using False c q ok cpu by (auto simp: consoleintr_unfold release_held typed_def cons_ok_def cons_abs_def ld_type_def)
    next
      case ne: False
      note last = cr.unput[OF ne, of "cons_buf s"]
      note e = unput_counter[OF ne, of "cons_r s"]
      have "butlast (ring_list 128 (cons_buf s) (cons_w s) (cons_e s)) = ring_list 128 (cons_buf s) (cons_w s) (cons_e s - 1)"
        by (simp add: last)
      moreover have "ring_list 128 (cons_buf s) (cons_w s) (cons_e s) \<noteq> []"
        by (simp add: last)
      ultimately show ?thesis
        using j False c q ok cpu ne e last
        by (auto simp: consoleintr_unfold release_held typed_def cons_ok_def cons_abs_def ld_type_def)
    qed
  qed
qed

lemma consoleintr_store_typed:
  assumes q: "cons_quiet s" and ok: "cons_ok s" and c: "0 \<le> c" "c < 256" "c \<notin> {CTRL_P, CTRL_U, CTRL_H, 0x7f}"
  shows "\<exists>s'. consoleintr c s = Inr s' \<and> typed c s s'"
proof -
  have cpu: "cpu_ok s" "lock_free ConsLock s" "uart_live s" "procs_free s" using q by (simp_all add: cons_quiet_def)
  have le: "unat (cons_w s - cons_r s) \<le> unat (cons_e s - cons_r s)" using ok by (simp add: cons_ok_def)
  have full: "cons_e s - cons_r s < 128 \<longleftrightarrow> unat (cons_e s - cons_r s) < 128" by (simp add: word_less_nat_alt)
  have len: "unat (cons_e s - cons_r s) = unat (cons_w s - cons_r s) + unat (cons_e s - cons_w s)"
    using arg_cong[OF cr.split_at[OF le, of "cons_buf s"], of length] by simp
  show ?thesis
  proof (cases "c \<noteq> 0 \<and> unat (cons_e s - cons_r s) < 128")
    case False
    then have "consoleintr c s = Inr (settle s)"
      using c(3) q cpu full by (auto simp: consoleintr_unfold consoleintr_store_def release_held)
    moreover have "ld_type c (cons_abs s) = cons_abs s"
      using False c(3) len by (auto simp: ld_type_def cons_abs_def)
    ultimately show ?thesis
      using q ok by (simp add: typed_def cons_ok_def cons_abs_def)
  next
    case True
    define c' where "c' = (if c = 13 then NL else c)"
    obtain j where j: "consputc c' (held ConsLock s) = Inr (held ConsLock (s\<lparr>lsr_reads := j, uart_log := uart_log s @ [(THR, word_of_int c')]\<rparr>))"
      using consputc_held[OF cpu(3,1), of c' ConsLock] c(2) by (auto simp: c'_def split: if_splits)
    let ?b = "(cons_buf s)(unat (cons_e s mod 128) := word_of_int c' :: uint8)"
    let ?s1 = "s\<lparr>lsr_reads := j, uart_log := uart_log s @ [(THR, word_of_int c')], cons_buf := ?b, cons_e := cons_e s + 1\<rparr>"
    note put = put_edit(1-3)[OF le conjunct2[OF True], of "cons_buf s" "word_of_int c'"] put_edit(4,5)[OF le conjunct2[OF True]]
    have nl: "(word_of_int c' :: uint8) = 10 \<longleftrightarrow> c' = NL"
      using c by (simp add: c'_def word_uint_eq_iff uint_word_of_int)
    have commit: "cons_e s + 1 - cons_r s = 128 \<longleftrightarrow> Suc (unat (cons_e s - cons_r s)) = 128"
      using put(4) by (simp add: word_unat_eq_iff)
    have run: "consoleintr c s = bnd (if c' = NL \<or> c' = CTRL_D \<or> Suc (unat (cons_e s - cons_r s)) = 128
        then wakeup (Some ChanConsR) (held ConsLock (?s1\<lparr>cons_w := cons_e s + 1\<rparr>)) else Inr (held ConsLock ?s1)) (release ConsLock)"
      using True c(3) q cpu full j commit
      by (simp add: consoleintr_unfold consoleintr_store_def Let_def lock_simps flip: c'_def)
    have spec: "ld_type c (cons_abs s) = (if c' = NL \<or> c' = CTRL_D \<or> Suc (unat (cons_e s - cons_r s)) = 128
        then (cons_abs s)\<lparr>ld_done := ring_list 128 ?b (cons_r s) (cons_e s + 1), ld_edit := [], ld_out := uart_log s @ [(THR, word_of_int c')]\<rparr>
        else (cons_abs s)\<lparr>ld_edit := ring_list 128 ?b (cons_w s) (cons_e s + 1), ld_out := uart_log s @ [(THR, word_of_int c')]\<rparr>)"
      using True c(3) len put by (auto simp: ld_type_def cons_abs_def Let_def c'_def)
    show ?thesis
    proof (cases "c' = NL \<or> c' = CTRL_D \<or> Suc (unat (cons_e s - cons_r s)) = 128")
      case True
      let ?s2 = "?s1\<lparr>cons_w := cons_e s + 1\<rparr>"
      have "consoleintr c s = Inr (settle (woken (Some ChanConsR) [0..<N_PROC] ?s2))"
        using run True cpu by (simp add: wakeup_woken lock_simps release_held)
      moreover have "ring_list 128 ?b (cons_r s) (cons_e s + 1) \<noteq> ring_list 128 (cons_buf s) (cons_r s) (cons_w s)"
        using put(3) by simp
      ultimately show ?thesis
        using q spec True put(4) conjunct2[OF \<open>c \<noteq> 0 \<and> _\<close>]
        by (simp add: typed_def cons_ok_def cons_abs_def) (simp add: woken_def cong: if_cong)
    next
      case False
      have "consoleintr c s = Inr (settle ?s1)"
        using run False cpu by (simp add: release_held)
      moreover have "cons_ok ?s1"
        using ok False put nl conjunct2[OF True] by (auto simp: cons_ok_def)
      ultimately show ?thesis
        using q spec False put(2) by (simp add: typed_def cons_ok_def cons_abs_def)
    qed
  qed
qed

lemma consoleintr_typed:
  assumes "cons_quiet s" "cons_ok s" "0 \<le> c" "c < 256"
  shows "\<exists>s'. consoleintr c s = Inr s' \<and> typed c s s'"
proof (cases "c = CTRL_P")
  case True
  then show ?thesis
    using assms by (auto simp: consoleintr_unfold release_held typed_def cons_ok_def cons_abs_def ld_type_def cons_quiet_def[of s])
qed (use consoleintr_erase[OF assms(1,2)] consoleintr_store_typed[OF assms] in auto)

section \<open>Typing\<close>

text \<open>The interrupt handler called for a sequence of characters.\<close>

primrec type_all :: "int list \<Rightarrow> 'a cst_scheme \<Rightarrow> 'a cst_scheme res" where
  "type_all [] s = Inr s"
| "type_all (c # cs) s = bnd (consoleintr c s) (type_all cs)"

lemma typed_awake:
  assumes "typed c s s1" "p_status (procs s q) = RUNNABLE \<or>
    q < N_PROC \<and> myproc s \<noteq> Some q \<and> p_status (procs s q) = SLEEPING \<and> p_chan (procs s q) = Some ChanConsR"
  shows "p_status (procs s1 q) = RUNNABLE \<or> (ld_done (cons_abs s1) = ld_done (cons_abs s) \<and> procs s1 q = procs s q)"
  using assms by (auto simp: typed_def woken_def split: if_splits)

lemma type_all_typed:
  assumes "cons_quiet s" "cons_ok s" "\<forall>c\<in>set cs. 0 \<le> c \<and> c < 256"
  shows "\<exists>s'. type_all cs s = Inr s' \<and> cons_ok s' \<and> cons_quiet s' \<and> cons_abs s' = fold ld_type cs (cons_abs s) \<and>
    (\<forall>q. p_status (procs s q) = RUNNABLE \<or>
       q < N_PROC \<and> myproc s \<noteq> Some q \<and> p_status (procs s q) = SLEEPING \<and> p_chan (procs s q) = Some ChanConsR \<longrightarrow>
       p_status (procs s' q) = RUNNABLE \<or> (ld_done (cons_abs s') = ld_done (cons_abs s) \<and> procs s' q = procs s q))"
  using assms
proof (induction cs arbitrary: s)
  case (Cons c cs)
  obtain s1 where s1: "consoleintr c s = Inr s1" "typed c s s1"
    using consoleintr_typed[of s c] Cons.prems by auto
  have "cons_quiet s1" "cons_ok s1" "myproc s1 = myproc s" "cons_abs s1 = ld_type c (cons_abs s)"
    using s1(2) by (simp_all add: typed_def)
  then obtain s' where s': "type_all cs s1 = Inr s'" "cons_ok s'" "cons_quiet s'" "cons_abs s' = fold ld_type cs (cons_abs s1)"
    "\<forall>q. p_status (procs s1 q) = RUNNABLE \<or>
       q < N_PROC \<and> myproc s1 \<noteq> Some q \<and> p_status (procs s1 q) = SLEEPING \<and> p_chan (procs s1 q) = Some ChanConsR \<longrightarrow>
       p_status (procs s' q) = RUNNABLE \<or> (ld_done (cons_abs s') = ld_done (cons_abs s1) \<and> procs s' q = procs s1 q)"
    using Cons.IH[of s1] Cons.prems(3) by auto
  show ?case
  proof (intro exI[of _ s'] conjI allI impI)
    fix q assume q: "p_status (procs s q) = RUNNABLE \<or>
       q < N_PROC \<and> myproc s \<noteq> Some q \<and> p_status (procs s q) = SLEEPING \<and> p_chan (procs s q) = Some ChanConsR"
    show "p_status (procs s' q) = RUNNABLE \<or> (ld_done (cons_abs s') = ld_done (cons_abs s) \<and> procs s' q = procs s q)"
      using typed_awake[OF s1(2) q] s'(5)[rule_format, of q] q \<open>myproc s1 = myproc s\<close> by auto
  qed (use s1 s' \<open>cons_abs s1 = _\<close> in simp_all)
qed simp

text \<open>
  C17: the console refines a line editor.  Whatever characters arrive, the interrupt handler always finishes, provided the UART keeps accepting
  output, and leaves the circular buffer with its wrapping counters in the state of an editor that keeps
  the committed input and the line being typed: erasing touches the current line only, a full buffer of 128 drops
  characters, and the echo on the terminal is the editor's.  When input has been committed, every process waiting for it is runnable.
\<close>

theorem console_refines:
  assumes "cons_quiet s" "cons_ok s" "\<forall>c\<in>set cs. 0 \<le> c \<and> c < 256"
  shows "\<exists>s'. type_all cs s = Inr s' \<and> cons_ok s' \<and> cons_quiet s' \<and> cons_abs s' = fold ld_type cs (cons_abs s) \<and>
    (ld_done (cons_abs s') \<noteq> ld_done (cons_abs s) \<longrightarrow> (\<forall>q<N_PROC. myproc s \<noteq> Some q \<and> p_status (procs s q) = SLEEPING \<and>
       p_chan (procs s q) = Some ChanConsR \<longrightarrow> p_status (procs s' q) = RUNNABLE))"
  using type_all_typed[OF assms] by blast

text \<open>A machine whose UART is always ready.\<close>

definition terminal :: trst where
  "terminal = talker\<lparr>lsr_in := \<lambda>_. 32\<rparr>"

lemma terminal_ok: "cons_quiet terminal" "myproc terminal = Some 0" "p_pagetable (procs terminal p) = pg1"
  "cons_r terminal = 0" "cons_w terminal = 0" "cons_e terminal = 0" "uart_log terminal = []"
  by (auto simp: cons_quiet_def terminal_def talker_def Let_def reset_def uart_live_def myproc_def mycpu_def cpu_ok_def lock_free_def procs_free_def)

theorem console_refines_witness:
  "\<exists>s'. type_all [97, 98, CTRL_H, 99, 13, 100] terminal = Inr s' \<and> ld_done (cons_abs s') = [97, 99, 10] \<and> ld_edit (cons_abs s') = [100]"
proof -
  have "cons_ok terminal" "cons_abs terminal = \<lparr>ld_done = [], ld_edit = [], ld_out = []\<rparr>"
    by (simp_all add: cons_ok_def cons_abs_def terminal_ok)
  then show ?thesis
    using console_refines[of terminal "[97, 98, CTRL_H, 99, 13, 100]"] terminal_ok(1) by (auto simp: ld_type_def Let_def)
qed

section \<open>Reading\<close>

text \<open>
  What a read of at most \<open>n\<close> bytes takes from the committed input, and what it leaves: a line at most, and nothing behind an
  end-of-file mark, which it consumes only when it has delivered nothing.  Without input it waits.
\<close>

fun ld_read :: "nat \<Rightarrow> bool \<Rightarrow> uint8 list \<Rightarrow> (uint8 list \<times> uint8 list) option" where
  "ld_read 0 got d = Some ([], d)"
| "ld_read (Suc n) got [] = None"
| "ld_read (Suc n) got (c # d) =
     (if c = 4 then Some ([], if got then c # d else d)
      else if c = 10 then Some ([c], d)
      else case ld_read n True d of None \<Rightarrow> None | Some (bs, d) \<Rightarrow> Some (c # bs, d))"

lemma ld_read_bound: "ld_read n got d = Some (bs, rest) \<Longrightarrow> length bs \<le> n"
  by (induction n got d arbitrary: bs rest rule: ld_read.induct) (auto split: if_splits option.splits)

lemma mem_cons_r: "s\<lparr>cons_r := x, mem := m\<rparr> = s\<lparr>mem := m, cons_r := x\<rparr>"
  by simp

lemma uvm_ok_cons [simp]: "uvm_ok (s\<lparr>cons_r := x\<rparr>) R W ps = uvm_ok s R W ps"
  by (rule uvm_ok_cong) simp_all

lemma myproc_mem_cons [simp]: "myproc (s\<lparr>mem := m\<rparr>) = myproc s"
  by (simp add: myproc_def mycpu_def)

lemma consoleread_wait_ready: "cons_r s \<noteq> cons_w s \<Longrightarrow> unhang (consoleread_wait env s) = Inr (False, s)"
  by (subst consoleread_wait.simps) (simp add: unhang_def)

lemma copyout_byte:
  assumes "uvm_ok s R W ps" "myproc s = Some pr" "p_pagetable (procs s pr) = r" "r \<in> R" "unat va + 1 \<le> 2 ^ 39" "umem (mem s) r va \<noteq> None"
  obtains m' where "either_copyout True va [c] 1 s = Inr (0, [], s\<lparr>mem := m'\<rparr>)" "uvm_ok (s\<lparr>mem := m'\<rparr>) R W ps"
    "\<And>r' a. r' \<in> R \<Longrightarrow> unat a < 2 ^ 39 \<Longrightarrow> umem m' r' a = (if r' = r then uwrite (umem (mem s) r) va [c] a else umem (mem s) r' a)"
proof -
  have "None \<notin> set (urange (mem s) r va (unat (1 :: uint64)))"
    using assms(6) by (auto simp: urange_def)
  then obtain m' where out: "copyout r va [c] 1 s = (0, s\<lparr>mem := m'\<rparr>)" "uvm_ok (s\<lparr>mem := m'\<rparr>) R W ps"
    "\<And>r' a. r' \<in> R \<Longrightarrow> unat a < 2 ^ 39 \<Longrightarrow> umem m' r' a = (if r' = r then uwrite (umem (mem s) r) va [c] a else umem (mem s) r' a)"
    using copyout_mapped[OF assms(1,4), of va 1 "[c]"] assms(5) by auto
  show ?thesis
    by (rule that[OF _ out(2,3)]) (use out(1) assms(2,3) in \<open>simp_all add: either_copyout_def\<close>)
qed

lemma byte_then_rest:
  assumes m1: "\<And>a. unat a < 2 ^ 39 \<Longrightarrow> umem m1 r a = uwrite (umem m r) va [c] a"
    and va: "unat va + Suc k \<le> 2 ^ 39" and mapped: "None \<notin> set (urange m r va (Suc k))"
  shows "None \<notin> set (urange m1 r (va + 1) k)" "unat (va + 1) = unat va + 1"
    "unat a < 2 ^ 39 \<Longrightarrow> uwrite (umem m1 r) (va + 1) bs a = uwrite (umem m r) va (c # bs) a"
proof -
  show nowrap: "unat (va + 1) = unat va + 1"
    using va unat_add_lem[of va 1] by simp
  have "umem m1 r (va + 1 + of_nat j) \<noteq> None" if j: "j < k" for j
  proof -
    have a: "va + 1 + of_nat j = va + of_nat (Suc j)" by simp
    have "unat (va + of_nat (Suc j)) < 2 ^ 39"
      using va j unat_offset[of va "Suc j"] by simp
    moreover have "umem m r (va + of_nat (Suc j)) \<noteq> None"
      using mapped j unfolding mapped_iff by blast
    ultimately show ?thesis
      using m1 unfolding a by (simp add: uwrite_def)
  qed
  then show "None \<notin> set (urange m1 r (va + 1) k)"
    by (simp add: mapped_iff)
  show "unat a < 2 ^ 39 \<Longrightarrow> uwrite (umem m1 r) (va + 1) bs a = uwrite (umem m r) va (c # bs) a"
    using uwrite_append[of "va + 1" va "[c]" "umem m r" bs] nowrap m1[of a] by (auto simp: uwrite_def)
qed

text \<open>What a loop that delivers \<open>bs\<close> and leaves \<open>rest\<close> does to the state.\<close>

definition delivered :: "addr set \<Rightarrow> (addr \<times> nat) set \<Rightarrow> addr list \<Rightarrow> addr \<Rightarrow> addr \<Rightarrow> uint8 list \<Rightarrow> uint8 list \<Rightarrow> 'a cst_scheme \<Rightarrow> memory \<Rightarrow> uint32 \<Rightarrow> bool" where
  "delivered R W ps r va bs rest s m' x \<longleftrightarrow> uvm_ok (s\<lparr>mem := m'\<rparr>) R W ps \<and> ring_list 128 (cons_buf s) x (cons_w s) = rest \<and>
     (\<forall>r'\<in>R. \<forall>a. unat a < 2 ^ 39 \<longrightarrow> umem m' r' a = (if r' = r then uwrite (umem (mem s) r) va bs a else umem (mem s) r' a))"

lemma consoleread_loop_takes:
  assumes "uvm_ok s R W ps" "myproc s = Some pr" "p_pagetable (procs s pr) = r" "r \<in> R"
    and "unat va + n \<le> 2 ^ 39" "None \<notin> set (urange (mem s) r va n)" "n \<le> N" "N < 2 ^ 32"
    and "ld_read n (n < N) (ring_list 128 (cons_buf s) (cons_r s) (cons_w s)) = Some (bs, rest)"
  shows "\<exists>m' x. consoleread_loop env True va (of_nat N) n s = Inr (Some (n - length bs), [], s\<lparr>mem := m', cons_r := x\<rparr>) \<and>
    delivered R W ps r va bs rest s m' x"
  using assms
proof (induction n arbitrary: s va bs)
  case 0
  then show ?case
    by (intro exI[of _ "mem s"] exI[of _ "cons_r s"]) (auto simp: delivered_def)
next
  case (Suc n)
  let ?c = "cons_buf s (unat (cons_r s mod 128))"
  have ne: "cons_w s \<noteq> cons_r s" using Suc.prems(9) by auto
  note first = cr.get[OF ne, of "cons_buf s"]
  have lt: "(of_nat (Suc n) :: uint32) < of_nat N \<longleftrightarrow> Suc n < N"
    using Suc.prems(7,8) by (simp only: word_less_nat_alt unat_of_nat) (simp add: take_bit_nat_eq_self)
  have ctrl: "uint ?c = CTRL_D \<longleftrightarrow> ?c = 4" by (simp add: word_uint_eq_iff)
  let ?s1 = "s\<lparr>cons_r := cons_r s + 1\<rparr>"
  have loop: "consoleread_loop env True va (of_nat N) (Suc n) s =
      (if ?c = 4 then Inr (Some (Suc n), [], if Suc n < N then s else ?s1)
       else bnd (either_copyout True va [?c] 1 ?s1) (\<lambda>(r, bs, s).
           if r = -1 then Inr (Some (Suc n), [], s)
           else if uint ?c = NL then Inr (Some n, bs, s)
           else bnd (consoleread_loop env True (va + 1) (of_nat N) n s) (\<lambda>(res, bs', s). Inr (res, bs @ bs', s))))"
    using ne by (simp add: consoleread_wait_ready ctrl lt Let_def del: of_nat_Suc)
  show ?case
  proof (cases "?c = 4")
    case True
    then show ?thesis
      using Suc.prems loop first
      by (intro exI[of _ "mem s"] exI[of _ "if Suc n < N then cons_r s else cons_r s + 1"]) (auto simp: delivered_def)
  next
    case False
    have pre: "uvm_ok ?s1 R W ps" "myproc ?s1 = Some pr" "p_pagetable (procs ?s1 pr) = r" "unat va + 1 \<le> 2 ^ 39" "umem (mem ?s1) r va \<noteq> None"
      using Suc.prems(1-5) Suc.prems(6)[unfolded mapped_iff, THEN spec[of _ 0]] by simp_all
    have same: "mem ?s1 = mem s" by simp
    obtain m1 where m1: "either_copyout True va [?c] 1 ?s1 = Inr (0, [], ?s1\<lparr>mem := m1\<rparr>)" "uvm_ok (?s1\<lparr>mem := m1\<rparr>) R W ps"
      "\<And>r' a. r' \<in> R \<Longrightarrow> unat a < 2 ^ 39 \<Longrightarrow> umem m1 r' a = (if r' = r then uwrite (umem (mem s) r) va [?c] a else umem (mem s) r' a)"
      by (rule copyout_byte[OF pre(1-3) Suc.prems(4) pre(4,5), of ?c, unfolded same]) (rule that)
    let ?s2 = "?s1\<lparr>mem := m1\<rparr>"
    have w: "umem m1 r a = uwrite (umem (mem s) r) va [?c] a" if "unat a < 2 ^ 39" for a
      using m1(3)[OF Suc.prems(4) that] by simp
    note rest = byte_then_rest[OF w Suc.prems(5,6)]
    show ?thesis
    proof (cases "?c = 10")
      case True
      then show ?thesis
        using Suc.prems(9) loop m1 first False uint8_NL[of ?c]
        by (intro exI[of _ m1] exI[of _ "cons_r s + 1"]) (auto simp: delivered_def mem_cons_r)
    next
      case nl: False
      obtain bs' where bs': "bs = ?c # bs'" "ld_read n True (ring_list 128 (cons_buf s) (cons_r s + 1) (cons_w s)) = Some (bs', rest)"
        using Suc.prems(9) first False nl by (auto split: option.splits)
      have "\<exists>m' x. consoleread_loop env True (va + 1) (of_nat N) n ?s2 = Inr (Some (n - length bs'), [], ?s2\<lparr>mem := m', cons_r := x\<rparr>) \<and>
          delivered R W ps r (va + 1) bs' rest ?s2 m' x"
        using Suc.prems m1(2) rest(1,2) bs'(2) by (intro Suc.IH) simp_all
      then obtain m' x where IH: "consoleread_loop env True (va + 1) (of_nat N) n ?s2 = Inr (Some (n - length bs'), [], ?s2\<lparr>mem := m', cons_r := x\<rparr>)"
        "delivered R W ps r (va + 1) bs' rest ?s2 m' x" by blast
      have "delivered R W ps r va bs rest s m' x"
        using IH(2) m1(3) rest(3) bs'(1) uvm_ok_cong[of "s\<lparr>mem := m'\<rparr>" "?s2\<lparr>mem := m'\<rparr>"] by (simp add: delivered_def)
      then show ?thesis
        using loop m1(1) False nl uint8_NL[of ?c] IH(1) bs'(1) by (intro exI[of _ m'] exI[of _ x]) (simp add: mem_cons_r)
    qed
  qed
qed

text \<open>
  C18: a read of the console takes a line.  When the committed input holds a line end or an end-of-file mark, or at least as many bytes as asked for,
  \<^verbatim>\<open>consoleread\<close> returns at once: it copies to the caller's memory the bytes up to and with the first line end, or up to the mark,
  but no more than asked for, leaves the rest for the next read and the line being typed as it is, and changes
  no other memory of any process.
\<close>

theorem consoleread_takes_line:
  assumes "uvm_ok s R W ps" "myproc s = Some pr" "p_pagetable (procs s pr) = r" "r \<in> R" "cons_quiet s"
    and "unat va + n \<le> 2 ^ 39" "None \<notin> set (urange (mem s) r va n)" "n < 2 ^ 31"
    and "ld_read n False (ld_done (cons_abs s)) = Some (bs, rest)"
  shows "\<exists>s'. consoleread env True va (int n) s = Inr (int (length bs), [], s') \<and> cons_quiet s' \<and>
    cons_abs s' = (cons_abs s)\<lparr>ld_done := rest\<rparr> \<and>
    (\<forall>r'\<in>R. \<forall>a. unat a < 2 ^ 39 \<longrightarrow> umem (mem s') r' a = (if r' = r then uwrite (umem (mem s) r) va bs a else umem (mem s) r' a))"
proof -
  have q: "cpu_ok s" "lock_free ConsLock s" using assms(5) by (simp_all add: cons_quiet_def)
  let ?h = "held ConsLock s"
  have "\<exists>m' x. consoleread_loop env True va (of_nat n) n ?h = Inr (Some (n - length bs), [], ?h\<lparr>mem := m', cons_r := x\<rparr>) \<and>
      delivered R W ps r va bs rest ?h m' x"
    using assms by (intro consoleread_loop_takes[of ?h _ _ _ pr]) (simp_all add: cons_abs_def)
  then obtain m' x where loop: "consoleread_loop env True va (of_nat n) n ?h = Inr (Some (n - length bs), [], ?h\<lparr>mem := m', cons_r := x\<rparr>)"
    "delivered R W ps r va bs rest ?h m' x" by blast
  let ?s = "s\<lparr>mem := m', cons_r := x\<rparr>"
  have le: "length bs \<le> n" using ld_read_bound[OF assms(9)] .
  have ret: "int_of_u32 (u32_of_int (int n) - of_nat (n - length bs)) = int (length bs)"
    using le assms(8) int_of_u32_nat[of "length bs"] by (simp add: of_nat_diff)
  have "consoleread env True va (int n) s = Inr (int (length bs), [], settle ?s)"
  proof (cases "n = 0")
    case True
    then show ?thesis
      using q loop le by (simp add: consoleread_def acquire_held release_held lock_simps int_of_u32_def)
  next
    case False
    then show ?thesis
      using q loop ret by (simp add: consoleread_def acquire_held lock_simps mem_cons_r release_held)
  qed
  moreover have "cons_quiet (settle ?s)"
    using assms(5) by (simp add: cons_quiet_def uart_live_def)
  moreover have "cons_abs (settle ?s) = (cons_abs s)\<lparr>ld_done := rest\<rparr>"
    using loop(2) by (simp add: cons_abs_def delivered_def)
  ultimately show ?thesis
    using loop(2) by (simp add: delivered_def)
qed

theorem consoleread_takes_line_witness:
  "\<exists>s'. consoleread (\<lambda>_. None) True 0x40 3 (terminal\<lparr>cons_buf := \<lambda>i. if i = 0 then 97 else 10, cons_w := 3, cons_e := 3\<rparr>) = Inr (2, [], s') \<and>
     urange (mem s') pg1 0x40 2 = [Some 97, Some 10] \<and> ld_done (cons_abs s') = [10]"
proof (rule talker_ok)
  let ?s = "terminal\<lparr>cons_buf := \<lambda>i. if i = 0 then 97 else 10, cons_w := 3, cons_e := 3\<rparr>"
  fix ps assume t: "uvm_ok talker {pg1, pg2} (rows pg1 0 1) ps" "None \<notin> set (urange (mem talker) pg1 0x40 3)"
  have m: "mem ?s = mem talker" "klist_next ?s = klist_next talker" by (simp_all add: terminal_def)
  have ok: "uvm_ok ?s {pg1, pg2} (rows pg1 0 1) ps" using t(1) uvm_ok_cong[OF m] by simp
  have d: "ld_done (cons_abs ?s) = [97, 10, 10]"
    by (simp add: cons_abs_def ring_list_def terminal_ok upt_rec)
  have "\<exists>s'. consoleread (\<lambda>_. None) True 0x40 (int 3) ?s = Inr (int (length [97, 10 :: uint8]), [], s') \<and> cons_quiet s' \<and>
    cons_abs s' = (cons_abs ?s)\<lparr>ld_done := [10]\<rparr> \<and>
    (\<forall>r'\<in>{pg1, pg2}. \<forall>a. unat a < 2 ^ 39 \<longrightarrow> umem (mem s') r' a = (if r' = pg1 then uwrite (umem (mem ?s) pg1) 0x40 [97, 10] a else umem (mem ?s) r' a))"
    by (rule consoleread_takes_line[OF ok]) (use t(2) m(1) terminal_ok d in \<open>simp_all add: numeral_3_eq_3\<close>)
  then obtain s' where s': "consoleread (\<lambda>_. None) True 0x40 3 ?s = Inr (2, [], s')" "cons_abs s' = (cons_abs ?s)\<lparr>ld_done := [10]\<rparr>"
    "\<And>a. unat a < 2 ^ 39 \<Longrightarrow> umem (mem s') pg1 a = uwrite (umem (mem ?s) pg1) 0x40 [97, 10] a" by auto
  have "urange (mem s') pg1 0x40 (length [97, 10 :: uint8]) = map Some [97, 10]"
    by (rule urange_written[OF s'(3)]) simp_all
  then show ?thesis
    using s'(1,2) by (intro exI[of _ s']) (simp add: numeral_2_eq_2)
qed

end
