(* ===== verification/Xv6_Mkfs.thy ===== *)
theory Xv6_Mkfs
  imports Xv6_Dir Xv6_Uprintf
begin

text \<open>
  \<^verbatim>\<open>mkfs/mkfs.c\<close>: the program that builds the initial file system.  The image is a function from sectors to their 1024 bytes.  The
  machine it runs on is taken to be little-endian, so that \<^verbatim>\<open>xshort\<close> and \<^verbatim>\<open>xint\<close> change nothing, and its reads and writes
  of the image to succeed.  The files to copy are an argument: for each its name and, when it can be opened, what the
  successive calls of \<^verbatim>\<open>read\<close> return.  A failed \<^verbatim>\<open>assert\<close> is a panic.
\<close>

section \<open>Data\<close>

record mkst =
  image :: "nat \<Rightarrow> uint8 list"
  msb :: superblock
  freeinode :: uint32
  freeblock :: uint32

abbreviation (input) FSSIZE :: uint32 where "FSSIZE \<equiv> 2000"
abbreviation (input) NINODES :: uint32 where "NINODES \<equiv> 200"
abbreviation (input) LOGSIZE :: uint32 where "LOGSIZE \<equiv> 30"
abbreviation (input) BLK :: uint32 where "BLK \<equiv> 1024"

definition nbitmap :: uint32 where
  "nbitmap = FSSIZE div (BLK * 8) + 1"

definition ninodeblocks :: uint32 where
  "ninodeblocks = NINODES div IPB + 1"

definition nmeta :: uint32 where
  "nmeta = 2 + LOGSIZE + ninodeblocks + nbitmap"

definition xshort :: "uint16 \<Rightarrow> uint16" where
  "xshort x = le_word [ucast x, ucast (drop_bit 8 x)]"

definition xint :: "uint32 \<Rightarrow> uint32" where
  "xint x = le_word [ucast x, ucast (drop_bit 8 x), ucast (drop_bit 16 x), ucast (drop_bit 24 x)]"

section \<open>Sectors and inodes\<close>

text \<open>The offset of a sector is computed in 32 bits.\<close>

definition sector :: "uint32 \<Rightarrow> nat" where
  "sector sec = unat (sec * BLK) div 1024"

definition rsect :: "uint32 \<Rightarrow> mkst \<Rightarrow> uint8 list" where
  "rsect sec s = image s (sector sec)"

definition wsect :: "uint32 \<Rightarrow> uint8 list \<Rightarrow> mkst \<Rightarrow> mkst" where
  "wsect sec buf s = s\<lparr>image := (image s)(sector sec := buf)\<rparr>"

definition zero_dinode :: inode where
  "zero_dinode = \<lparr>i_dev = 0, i_inum = 0, i_ref = 0, i_valid = 0, i_type = 0, i_major = 0, i_minor = 0, i_nlink = 0, i_size = 0,
     i_addrs = replicate 13 0\<rparr>"

definition winode :: "uint32 \<Rightarrow> inode \<Rightarrow> mkst \<Rightarrow> mkst" where
  "winode inum ip s =
     (let bn = IBLOCK inum (msb s) in wsect bn (splice (dinode_off inum) (dinode_bytes ip) (rsect bn s)) s)"

definition rinode :: "uint32 \<Rightarrow> mkst \<Rightarrow> inode" where
  "rinode inum s = read_dinode (drop (dinode_off inum) (rsect (IBLOCK inum (msb s)) s)) zero_dinode"

definition ialloc_img :: "uint16 \<Rightarrow> mkst \<Rightarrow> uint32 \<times> mkst" where
  "ialloc_img type s =
     (let inum = freeinode s; s = s\<lparr>freeinode := freeinode s + 1\<rparr>;
          din = zero_dinode\<lparr>i_type := xshort type, i_nlink := xshort 1, i_size := xint 0\<rparr>
      in (inum, winode inum din s))"

definition balloc_img :: "int \<Rightarrow> mkst \<Rightarrow> mkst res" where
  "balloc_img used s =
     (if \<not> used < 1024 * 8 then Inl (Panic ''assert'')
      else let buf = fold (\<lambda>i b. b[i div 8 := (b ! (i div 8)) OR push_bit (i mod 8) 1]) [0..<nat used] (replicate 1024 0)
        in Inr (wsect (sb_bmapstart (msb s)) buf s))"

section \<open>Appending to a file\<close>

definition uints :: "uint8 list \<Rightarrow> uint32 list" where
  "uints bs = map (\<lambda>k. field (4 * k) 4 bs) [0..<256]"

definition uint_bytes :: "uint32 list \<Rightarrow> uint8 list" where
  "uint_bytes xs = concat (map (le_bytes 4) xs)"

text \<open>Taking the next free block.\<close>

definition take_block :: "mkst \<Rightarrow> uint32 \<times> mkst" where
  "take_block s = (xint (freeblock s), s\<lparr>freeblock := freeblock s + 1\<rparr>)"

text \<open>The block of the file that holds block number \<open>fbn\<close> of it, allocated when it is missing.\<close>

definition iappend_block :: "uint32 \<Rightarrow> inode \<Rightarrow> mkst \<Rightarrow> uint32 \<times> inode \<times> mkst" where
  "iappend_block fbn din s =
     (if fbn < NDIRECT then
        let (din, s) = (if xint (i_addrs din ! unat fbn) = 0
              then let (b, s) = take_block s in (din\<lparr>i_addrs := (i_addrs din)[unat fbn := b]\<rparr>, s) else (din, s))
        in (xint (i_addrs din ! unat fbn), din, s)
      else
        let (din, s) = (if xint (i_addrs din ! 12) = 0
              then let (b, s) = take_block s in (din\<lparr>i_addrs := (i_addrs din)[12 := b]\<rparr>, s) else (din, s));
            indirect = uints (rsect (xint (i_addrs din ! 12)) s);
            (indirect, s) = (if indirect ! unat (fbn - NDIRECT) = 0
              then let (b, s) = take_block s; indirect = indirect[unat (fbn - NDIRECT) := b] in
                (indirect, wsect (xint (i_addrs din ! 12)) (uint_bytes indirect) s)
              else (indirect, s))
        in (xint (indirect ! unat (fbn - NDIRECT)), din, s))"

text \<open>The loop, over the bytes that are left; a round takes at least one, since a file block is less than \<^verbatim>\<open>MAXFILE\<close>.\<close>

function iappend_loop :: "inode \<Rightarrow> uint32 \<Rightarrow> uint8 list \<Rightarrow> mkst \<Rightarrow> (inode \<times> uint32 \<times> mkst) res" where
  "iappend_loop din off p s =
     (if p = [] then Inr (din, off, s)
      else let fbn = off div BLK in
        if \<not> fbn < MAXFILE then Inl (Panic ''assert'')
        else let (x, din, s) = iappend_block fbn din s;
                 n1 = min (of_nat (length p)) ((fbn + 1) * BLK - off);
                 s = wsect x (splice (unat (off - fbn * BLK)) (take (unat n1) p) (rsect x s)) s
          in if n1 = 0 then Inl Hang else iappend_loop din (off + n1) (drop (unat n1) p) s)"
  by pat_completeness auto
termination
  by (relation "measure (\<lambda>(din, off, p, s). length p)") (auto simp: unat_gt_0)

definition iappend :: "uint32 \<Rightarrow> uint8 list \<Rightarrow> mkst \<Rightarrow> mkst res" where
  "iappend inum p s =
     (let din = rinode inum s in
      bnd (iappend_loop din (xint (i_size din)) p s) (\<lambda>(din, off, s). Inr (winode inum (din\<lparr>i_size := xint off\<rparr>) s)))"

section \<open>The image\<close>

definition sb_bytes :: "superblock \<Rightarrow> uint8 list" where
  "sb_bytes b = le_bytes 4 (sb_magic b) @ le_bytes 4 (sb_size b) @ le_bytes 4 (sb_nblocks b) @ le_bytes 4 (sb_ninodes b) @
     le_bytes 4 (sb_nlog b) @ le_bytes 4 (sb_logstart b) @ le_bytes 4 (sb_inodestart b) @ le_bytes 4 (sb_bmapstart b)"

definition mkfs_sb :: superblock where
  "mkfs_sb = \<lparr>sb_magic = FSMAGIC, sb_size = xint FSSIZE, sb_nblocks = xint (FSSIZE - nmeta), sb_ninodes = xint NINODES, sb_nlog = xint LOGSIZE,
     sb_logstart = xint 2, sb_inodestart = xint (2 + LOGSIZE), sb_bmapstart = xint (2 + LOGSIZE + ninodeblocks)\<rparr>"

definition dirent :: "uint16 \<Rightarrow> uint8 list \<Rightarrow> uint8 list" where
  "dirent inum name = le_bytes 2 inum @ take DIRSIZ (name @ replicate DIRSIZ 0)"

text \<open>The name of a file in the image, and the assertion that it names no directory.\<close>

definition shortname :: "uint8 list \<Rightarrow> uint8 list" where
  "shortname arg = (if take 5 arg = ascii ''user/'' then drop 5 arg else arg)"

definition mkfs_file :: "uint32 \<Rightarrow> uint8 list \<times> uint8 list list option \<Rightarrow> mkst \<Rightarrow> mkst res" where
  "mkfs_file rootino f s =
     (let name = shortname (fst f) in
      if SLASH \<in> set name then Inl (Panic ''assert'')
      else case snd f of None \<Rightarrow> Inl (Panic ''open'')
        | Some reads \<Rightarrow>
          let name = (if name \<noteq> [] \<and> hd name = of_char CHR ''_'' then tl name else name); (inum, s) = ialloc_img T_FILE s in
          bnd (iappend rootino (dirent (xshort (ucast inum)) name) s) (fold (\<lambda>buf r. bnd r (iappend inum buf)) reads \<circ> Inr))"

definition mkfs_init :: "mkst \<Rightarrow> mkst" where
  "mkfs_init s =
     (let s = s\<lparr>msb := mkfs_sb, freeblock := nmeta\<rparr>;
          s = fold (\<lambda>i. wsect i (replicate 1024 0)) (map of_nat [0..<2000]) s
      in wsect 1 (splice 0 (sb_bytes mkfs_sb) (replicate 1024 0)) s)"

definition mkfs_finish :: "uint32 \<Rightarrow> mkst \<Rightarrow> mkst res" where
  "mkfs_finish rootino s =
     (let din = rinode rootino s; off = xint (i_size din); off = (off div BLK + 1) * BLK;
          s = winode rootino (din\<lparr>i_size := xint off\<rparr>) s
      in balloc_img (int_of_u32 (freeblock s)) s)"

definition mkfs_main :: "(uint8 list \<times> uint8 list list option) list \<Rightarrow> mkst \<Rightarrow> mkst res" where
  "mkfs_main files s =
     (let (rootino, s) = ialloc_img T_DIR (mkfs_init s) in
      if rootino \<noteq> ROOTINO then Inl (Panic ''assert'')
      else
        bnd (iappend rootino (dirent (xshort (ucast rootino)) (ascii ''.'')) s) (\<lambda>s.
        bnd (iappend rootino (dirent (xshort (ucast rootino)) (ascii ''..'')) s) (\<lambda>s.
        bnd (fold (\<lambda>f r. bnd r (mkfs_file rootino f)) files (Inr s)) (mkfs_finish rootino))))"

end
