(* ===== verification/Xv6_Mkfs_Inv.thy ===== *)
theory Xv6_Mkfs_Inv
  imports Xv6_Mkfs
begin

text \<open>
  What the image of \<^verbatim>\<open>mkfs/mkfs.c\<close> holds: the files its inodes describe, and that appending to one of them changes that file only.
\<close>

section \<open>Bytes\<close>

lemma xint_id [simp]: "xint x = x"
proof -
  have "[ucast x, ucast (drop_bit 8 x), ucast (drop_bit 16 x), ucast (drop_bit 24 x)] = le_bytes 4 x"
    by (simp add: numeral_eq_Suc)
  then show ?thesis by (simp add: xint_def le_word_le_bytes_full)
qed

lemma xshort_id [simp]: "xshort x = x"
proof -
  have "[ucast x, ucast (drop_bit 8 x)] = le_bytes 2 x"
    by (simp add: numeral_eq_Suc)
  then show ?thesis by (simp add: xshort_def le_word_le_bytes_full)
qed

lemma length_splice [simp]: "off + length new \<le> length bs \<Longrightarrow> length (splice off new bs) = length bs"
  by (simp add: splice_def)

lemma field_skip [simp]: "length xs \<le> off \<Longrightarrow> field off n (xs @ ys) = field (off - length xs) n ys"
  by (simp add: field_def)

lemma field_here: "length xs = n \<Longrightarrow> field 0 n (xs @ ys) = le_word xs"
  by (simp add: field_def)

lemma take_uint_bytes: "k < length xs \<Longrightarrow> take 4 (drop (4 * k) (concat (map (le_bytes 4) xs) @ r)) = le_bytes 4 (xs ! k)"
proof (induction xs arbitrary: k)
  case (Cons x xs)
  then show ?case by (cases k) simp_all
qed simp

lemma field_uints: "k < length xs \<Longrightarrow> (field (4 * k) 4 (concat (map (le_bytes 4) xs) @ r) :: uint32) = xs ! k" for xs :: "uint32 list"
  unfolding field_def by (subst take_uint_bytes) (simp_all add: le_word_le_bytes_full)

lemma length_uint_bytes [simp]: "length (uint_bytes xs) = 4 * length xs"
  by (induction xs) (simp_all add: uint_bytes_def)

lemma uints_uint_bytes [simp]: "length xs = 256 \<Longrightarrow> uints (uint_bytes xs) = xs"
  using field_uints[of _ xs "[]"] by (intro nth_equalityI) (simp_all add: uints_def uint_bytes_def)

lemma length_uints [simp]: "length (uints bs) = 256"
  by (simp add: uints_def)

lemma length_dinode_bytes [simp]: "length (i_addrs ip) = 13 \<Longrightarrow> length (dinode_bytes ip) = 64"
  using length_uint_bytes[of "i_addrs ip"] by (simp add: dinode_bytes_def uint_bytes_def)

lemma read_dinode_bytes:
  assumes "length (i_addrs ip) = 13"
  shows "read_dinode (dinode_bytes ip @ r) ip0 =
    ip0\<lparr>i_type := i_type ip, i_major := i_major ip, i_minor := i_minor ip, i_nlink := i_nlink ip, i_size := i_size ip, i_addrs := i_addrs ip\<rparr>"
proof -
  have "map (\<lambda>k. field (12 + 4 * k) 4 (dinode_bytes ip @ r)) [0..<13] = i_addrs ip"
    using assms by (intro nth_equalityI) (simp_all add: dinode_bytes_def field_uints)
  then show ?thesis
    by (simp add: read_dinode_def) (simp add: dinode_bytes_def field_here le_word_le_bytes_full)
qed

lemma take_field: "off + n \<le> m \<Longrightarrow> field off n (take m bs) = field off n bs"
  by (simp add: field_def drop_take take_take min_def)

lemma read_dinode_take: "read_dinode (take 64 bs) ip = read_dinode bs ip"
  by (simp add: read_dinode_def take_field)

lemma splice_here: "off + length new \<le> length bs \<Longrightarrow> drop off (splice off new bs) = new @ drop (off + length new) bs"
  by (simp add: splice_def)

lemma splice_else:
  assumes "o' + k \<le> off \<or> off + length new \<le> o'" "off + length new \<le> length bs"
  shows "take k (drop o' (splice off new bs)) = take k (drop o' bs)"
proof (rule nth_equalityI)
  show "length (take k (drop o' (splice off new bs))) = length (take k (drop o' bs))"
    using assms(2) by simp
  fix i assume "i < length (take k (drop o' (splice off new bs)))"
  then show "take k (drop o' (splice off new bs)) ! i = take k (drop o' bs) ! i"
    using assms by (auto simp: splice_def nth_append)
qed

section \<open>The inode table\<close>

lemma sector_small: "unat x < 2 ^ 22 \<Longrightarrow> sector x = unat x"
  by (simp add: sector_def unat_word_ariths)

lemma mkfs_sb_simps [simp]: "sb_inodestart mkfs_sb = 32" "sb_bmapstart mkfs_sb = 45" "sb_size mkfs_sb = 2000" "nmeta = 46"
  by (simp_all add: mkfs_sb_def ninodeblocks_def nmeta_def nbitmap_def)

definition iblock :: "uint32 \<Rightarrow> nat" where
  "iblock inum = 32 + unat inum div 16"

lemma sector_IBLOCK:
  assumes "inum < 208"
  shows "sector (IBLOCK inum mkfs_sb) = iblock inum" "iblock inum < 45" "32 \<le> iblock inum"
proof -
  have "unat inum < 208" using assms by (simp add: word_less_nat_alt)
  then have "unat (inum div 16 + 32) = iblock inum"
    by (simp add: iblock_def unat_word_ariths unat_div)
  then show "sector (IBLOCK inum mkfs_sb) = iblock inum"
    using \<open>unat inum < 208\<close> by (subst sector_small) (simp_all add: IBLOCK_def iblock_def)
  show "iblock inum < 45" "32 \<le> iblock inum"
    using \<open>unat inum < 208\<close> by (simp_all add: iblock_def)
qed

definition clean :: "inode \<Rightarrow> bool" where
  "clean ip \<longleftrightarrow> i_dev ip = 0 \<and> i_inum ip = 0 \<and> i_ref ip = 0 \<and> i_valid ip = 0 \<and> length (i_addrs ip) = 13"

lemma clean_rinode [simp]: "clean (rinode inum s)"
  by (simp add: clean_def rinode_def read_dinode_def zero_dinode_def)

lemma clean_upd [simp]: "clean (ip\<lparr>i_size := n\<rparr>) = clean ip" "clean (ip\<lparr>i_addrs := (i_addrs ip)[k := x]\<rparr>) = clean ip"
  by (simp_all add: clean_def)

definition inode_at :: "(nat \<Rightarrow> uint8 list) \<Rightarrow> uint32 \<Rightarrow> inode" where
  "inode_at img inum = read_dinode (drop (dinode_off inum) (img (iblock inum))) zero_dinode"

lemma rinode_at: "msb s = mkfs_sb \<Longrightarrow> inum < 208 \<Longrightarrow> rinode inum s = inode_at (image s) inum"
  by (simp add: rinode_def inode_at_def rsect_def sector_IBLOCK)

lemma winode_image:
  "msb s = mkfs_sb \<Longrightarrow> inum < 208 \<Longrightarrow> winode inum ip s =
   s\<lparr>image := (image s)(iblock inum := splice (dinode_off inum) (dinode_bytes ip) (image s (iblock inum)))\<rparr>"
  by (simp add: winode_def wsect_def rsect_def sector_IBLOCK)

lemma dinode_off_le: "dinode_off inum + 64 \<le> 1024"
proof -
  have "unat (inum mod 16) < 16" by (simp add: unat_mod)
  then show ?thesis by (simp add: dinode_off_def)
qed

lemma inode_at_written:
  assumes "length (img (iblock inum)) = 1024" "clean ip"
  shows "inode_at (img(iblock inum := splice (dinode_off inum) (dinode_bytes ip) (img (iblock inum)))) inum = ip"
proof -
  have "zero_dinode\<lparr>i_type := i_type ip, i_major := i_major ip, i_minor := i_minor ip, i_nlink := i_nlink ip, i_size := i_size ip,
      i_addrs := i_addrs ip\<rparr> = ip"
    using assms(2) by (simp add: clean_def zero_dinode_def)
  then show ?thesis
    using assms dinode_off_le[of inum] by (simp add: inode_at_def splice_here clean_def read_dinode_bytes)
qed

lemma inode_at_other:
  assumes "length (img (iblock inum)) = 1024" "clean ip" "inum' \<noteq> inum"
  shows "inode_at (img(iblock inum := splice (dinode_off inum) (dinode_bytes ip) (img (iblock inum)))) inum' = inode_at img inum'"
proof (cases "iblock inum' = iblock inum")
  case True
  have "unat inum mod 16 \<noteq> unat inum' mod 16"
  proof
    assume "unat inum mod 16 = unat inum' mod 16"
    then have "unat inum = unat inum'"
      using True div_mult_mod_eq[of "unat inum" 16] div_mult_mod_eq[of "unat inum'" 16] by (simp add: iblock_def)
    then show False using assms(3) by (simp add: word_unat_eq_iff)
  qed
  then have "dinode_off inum' + 64 \<le> dinode_off inum \<or> dinode_off inum + 64 \<le> dinode_off inum'"
    by (auto simp: dinode_off_def unat_mod)
  then have "take 64 (drop (dinode_off inum') (splice (dinode_off inum) (dinode_bytes ip) (img (iblock inum)))) =
      take 64 (drop (dinode_off inum') (img (iblock inum)))"
    using assms(1,2) dinode_off_le[of inum] by (intro splice_else) (simp_all add: clean_def)
  then show ?thesis
    using True read_dinode_take by (simp add: inode_at_def) (metis read_dinode_take)
qed (simp add: inode_at_def)

section \<open>Files\<close>

text \<open>The number of the \<open>k\<close>-th block of a file, the blocks of a file of \<open>m\<close> blocks, and the bytes in its blocks.\<close>

definition ptr :: "(nat \<Rightarrow> uint8 list) \<Rightarrow> inode \<Rightarrow> nat \<Rightarrow> nat" where
  "ptr img din k = unat (if k < 12 then i_addrs din ! k else uints (img (unat (i_addrs din ! 12))) ! (k - 12))"

definition own :: "(nat \<Rightarrow> uint8 list) \<Rightarrow> inode \<Rightarrow> nat \<Rightarrow> nat set" where
  "own img din m = ptr img din ` {..<m} \<union> (if m > 12 then {unat (i_addrs din ! 12)} else {})"

definition blocks_of :: "(nat \<Rightarrow> uint8 list) \<Rightarrow> inode \<Rightarrow> nat \<Rightarrow> uint8 list" where
  "blocks_of img din m = concat (map (\<lambda>k. img (ptr img din k)) [0..<m])"

text \<open>The blocks a file of \<open>n\<close> bytes has, and those it takes with its indirect block.\<close>

definition nb :: "nat \<Rightarrow> nat" where
  "nb n = (n + 1023) div 1024"

definition takes :: "nat \<Rightarrow> nat" where
  "takes m = m + (if m > 12 then 1 else 0)"

text \<open>
  A file of \<open>m\<close> blocks: they are different blocks behind the metadata and below the first free one, different also from the
  indirect block, and the pointers behind them are zero.
\<close>

definition file_ok :: "(nat \<Rightarrow> uint8 list) \<Rightarrow> nat \<Rightarrow> inode \<Rightarrow> nat \<Rightarrow> bool" where
  "file_ok img fb din m \<longleftrightarrow> m \<le> 268 \<and> length (i_addrs din) = 13 \<and> own img din m \<subseteq> {46..<fb} \<and> inj_on (ptr img din) {..<m} \<and>
     (\<forall>k<12. m \<le> k \<longrightarrow> i_addrs din ! k = 0) \<and> (m \<le> 12 \<longrightarrow> i_addrs din ! 12 = 0) \<and>
     (m > 12 \<longrightarrow> unat (i_addrs din ! 12) \<notin> ptr img din ` {..<m} \<and>
        (\<forall>k<256. m \<le> 12 + k \<longrightarrow> uints (img (unat (i_addrs din ! 12))) ! k = 0))"

definition img_ok :: "(nat \<Rightarrow> uint8 list) \<Rightarrow> nat \<Rightarrow> bool" where
  "img_ok img fb \<longleftrightarrow> 46 \<le> fb \<and> fb \<le> 2000 \<and> (\<forall>b<2000. length (img b) = 1024) \<and> (\<forall>b. fb \<le> b \<and> b < 2000 \<longrightarrow> img b = replicate 1024 0)"

lemma ptr_cong:
  "m > 12 \<longrightarrow> img' (unat (i_addrs din ! 12)) = img (unat (i_addrs din ! 12)) \<Longrightarrow> k < m \<Longrightarrow> ptr img' din k = ptr img din k"
  by (auto simp: ptr_def)

lemma own_cong: "m > 12 \<longrightarrow> img' (unat (i_addrs din ! 12)) = img (unat (i_addrs din ! 12)) \<Longrightarrow> own img' din m = own img din m"
  using ptr_cong[of m img' din img] by (auto simp: own_def)

lemma file_ok_cong:
  assumes "\<forall>b\<in>own img din m. img' b = img b" "fb \<le> fb'"
  shows "file_ok img fb din m \<Longrightarrow> file_ok img' fb' din m" "own img' din m = own img din m" "blocks_of img' din m = blocks_of img din m"
proof -
  have i: "m > 12 \<longrightarrow> img' (unat (i_addrs din ! 12)) = img (unat (i_addrs din ! 12))"
    using assms(1) by (auto simp: own_def)
  note p = ptr_cong[where img' = img' and img = img, OF i]
  show o: "own img' din m = own img din m" by (rule own_cong[where img' = img' and img = img, OF i])
  show "blocks_of img' din m = blocks_of img din m"
    using p assms(1) by (auto simp: blocks_of_def own_def intro!: arg_cong[where f = concat])
  have "ptr img' din ` {..<m} = ptr img din ` {..<m}" "inj_on (ptr img' din) {..<m} = inj_on (ptr img din) {..<m}"
    using p by (auto simp: inj_on_def)
  moreover have "own img din m \<subseteq> {46..<fb} \<Longrightarrow> own img' din m \<subseteq> {46..<fb'}"
    using o assms(2) by auto
  ultimately show "file_ok img fb din m \<Longrightarrow> file_ok img' fb' din m"
    using i unfolding file_ok_def by simp
qed

lemma blocks_cong: "(\<And>k. k < m \<Longrightarrow> img' (ptr img' din' k) = img (ptr img din k)) \<Longrightarrow> blocks_of img' din' m = blocks_of img din m"
  by (auto simp: blocks_of_def intro!: arg_cong[where f = concat])

lemma ptr_own: "k < m \<Longrightarrow> ptr img din k \<in> own img din m"
  by (simp add: own_def)

lemma length_blocks:
  "(\<forall>b<2000. length (img b) = 1024) \<Longrightarrow> file_ok img fb din m \<Longrightarrow> fb \<le> 2000 \<Longrightarrow> length (blocks_of img din m) = 1024 * m"
proof -
  assume "\<forall>b<2000. length (img b) = 1024" "file_ok img fb din m" "fb \<le> 2000"
  then have "length (img (ptr img din k)) = 1024" if "k < m" for k
  proof -
    have "ptr img din k \<in> {46..<fb}"
      using \<open>file_ok img fb din m\<close> ptr_own[OF that] unfolding file_ok_def by blast
    then show ?thesis
      using \<open>\<forall>b<2000. length (img b) = 1024\<close> \<open>fb \<le> 2000\<close> by simp
  qed
  then have "map length (map (\<lambda>k. img (ptr img din k)) [0..<m]) = replicate m 1024"
    by (intro nth_equalityI) simp_all
  then show ?thesis
    by (simp only: blocks_of_def length_concat sum_list_replicate) simp
qed

section \<open>Finding the block\<close>

lemma file_okD:
  assumes "file_ok img fb din m"
  shows "m \<le> 268" "length (i_addrs din) = 13" "k < m \<Longrightarrow> ptr img din k \<in> {46..<fb}" "m > 12 \<Longrightarrow> unat (i_addrs din ! 12) \<in> {46..<fb}"
    "inj_on (ptr img din) {..<m}" "k < 12 \<Longrightarrow> m \<le> k \<Longrightarrow> i_addrs din ! k = 0" "m \<le> 12 \<Longrightarrow> i_addrs din ! 12 = 0"
    "m > 12 \<Longrightarrow> unat (i_addrs din ! 12) \<notin> ptr img din ` {..<m}"
    "m > 12 \<Longrightarrow> j < 256 \<Longrightarrow> m \<le> 12 + j \<Longrightarrow> uints (img (unat (i_addrs din ! 12))) ! j = 0"
  using assms unfolding file_ok_def own_def by auto

lemma block_there:
  assumes ok: "file_ok (image s) fb din m" and k: "k < m" and fb: "fb \<le> 2000"
  shows "\<exists>x. iappend_block (of_nat k) din s = (x, din, s) \<and> unat x = ptr (image s) din k"
proof -
  have k268: "k < 268" using file_okD(1)[OF ok] k by simp
  have pos: "ptr (image s) din k \<noteq> 0" using file_okD(3)[OF ok k] by auto
  show ?thesis
  proof (cases "k < 12")
    case True
    then show ?thesis
      using pos by (auto simp: iappend_block_def ptr_def word_less_nat_alt unat_of_nat)
  next
    case False
    then have a: "unat (i_addrs din ! 12) \<in> {46..<fb}" using file_okD(4)[OF ok] k by simp
    then have sec: "sector (i_addrs din ! 12) = unat (i_addrs din ! 12)" using fb by (intro sector_small) simp
    have "unat (of_nat k - 12 :: uint32) = k - 12"
      using False k268 by (subst unat_sub) (simp_all add: word_le_nat_alt unat_of_nat)
    then show ?thesis
      using pos False k268 a sec by (auto simp: iappend_block_def ptr_def word_less_nat_alt unat_of_nat rsect_def Let_def)
  qed
qed

text \<open>One more block for a file.\<close>

definition grown :: "(nat \<Rightarrow> uint8 list) \<Rightarrow> nat \<Rightarrow> inode \<Rightarrow> nat \<Rightarrow> (nat \<Rightarrow> uint8 list) \<Rightarrow> inode \<Rightarrow> bool" where
  "grown img fb din m img' din' \<longleftrightarrow> file_ok img' (fb + takes (Suc m) - takes m) din' (Suc m) \<and> img_ok img' (fb + takes (Suc m) - takes m) \<and>
     (\<forall>b. b \<notin> own img din m \<and> b < fb \<longrightarrow> img' b = img b) \<and> blocks_of img' din' m = blocks_of img din m \<and>
     own img' din' (Suc m) \<subseteq> own img din m \<union> {fb..} \<and> (\<exists>a. din' = din\<lparr>i_addrs := a\<rparr>)"

lemma takes_Suc: "m < 12 \<Longrightarrow> fb + takes (Suc m) - takes m = Suc fb" "m = 12 \<Longrightarrow> fb + takes (Suc m) - takes m = Suc (Suc fb)"
  "m > 12 \<Longrightarrow> fb + takes (Suc m) - takes m = Suc fb"
  by (simp_all add: takes_def)

lemma file_ok_Suc:
  assumes ok: "file_ok img fb din m" and p: "\<And>k. k < m \<Longrightarrow> ptr img' din' k = ptr img din k"
    and new: "ptr img' din' m \<in> {46..<fb'}" "ptr img' din' m \<notin> own img din m" and fb: "fb \<le> fb'" and m: "m < 268" "length (i_addrs din') = 13"
    and z: "\<And>k. k < 12 \<Longrightarrow> m < k \<Longrightarrow> i_addrs din' ! k = 0" "m < 12 \<Longrightarrow> i_addrs din' ! 12 = 0"
    and ind: "m \<ge> 12 \<Longrightarrow> unat (i_addrs din' ! 12) \<in> {46..<fb'} - ptr img' din' ` {..<Suc m}"
      "\<And>j. m \<ge> 12 \<Longrightarrow> j < 256 \<Longrightarrow> m < 12 + j \<Longrightarrow> uints (img' (unat (i_addrs din' ! 12))) ! j = 0"
  shows "file_ok img' fb' din' (Suc m)"
proof -
  have "ptr img' din' ` {..<Suc m} \<subseteq> {46..<fb'}"
    using file_okD(3)[OF ok] p new(1) fb by (fastforce simp: less_Suc_eq)
  moreover have "inj_on (ptr img' din') {..<m}"
    using file_okD(5)[OF ok] p by (simp add: inj_on_def)
  moreover have "ptr img' din' m \<notin> ptr img' din' ` {..<m}"
    using new(2) p by (auto simp: own_def)
  ultimately show ?thesis
    using m z ind unfolding file_ok_def own_def by (simp add: lessThan_Suc)
qed

lemma direct_new:
  assumes ok: "file_ok img fb din m" and img: "img_ok img fb" and m: "m < 12" and fb: "fb + 1 \<le> 2000" and x: "unat x = fb"
  shows "grown img fb din m img (din\<lparr>i_addrs := (i_addrs din)[m := x]\<rparr>)" "ptr img (din\<lparr>i_addrs := (i_addrs din)[m := x]\<rparr>) m = fb"
proof -
  let ?din = "din\<lparr>i_addrs := (i_addrs din)[m := x]\<rparr>"
  have p: "ptr img ?din k = ptr img din k" if "k < m" for k
    using that m by (simp add: ptr_def)
  show new: "ptr img ?din m = fb"
    using m x file_okD(2)[OF ok] by (simp add: ptr_def)
  have sub: "own img din m \<subseteq> {46..<fb}" using ok by (simp add: file_ok_def)
  have "file_ok img (Suc fb) ?din (Suc m)"
    using m file_okD(2,6,7)[OF ok] new sub img by (intro file_ok_Suc[OF ok p]) (auto simp: img_ok_def)
  moreover have "blocks_of img ?din m = blocks_of img din m"
    using p by (intro blocks_cong) simp
  moreover have "own img ?din (Suc m) \<subseteq> own img din m \<union> {fb..}"
    using m p new by (auto simp: own_def less_Suc_eq)
  ultimately show "grown img fb din m img ?din"
    using img fb m unfolding grown_def by (auto simp: takes_Suc img_ok_def)
qed

lemma le_word_zeros [simp]: "le_word (replicate n 0) = 0"
  by (induction n) simp_all

lemma zero_uints: "uints (replicate 1024 0) = replicate 256 0"
  by (intro nth_equalityI) (simp_all add: uints_def field_def)

lemma indirect_new:
  assumes ok: "file_ok img fb din m" and img: "img_ok img fb" and m: "12 \<le> m" "m < 268" and fb': "fb' = fb + takes (Suc m) - takes m" "fb' \<le> 2000"
    and a: "length a = 13" "\<And>k. k < 12 \<Longrightarrow> a ! k = i_addrs din ! k" "unat (a ! 12) = (if m = 12 then fb else unat (i_addrs din ! 12))"
    and x: "unat x = fb' - 1" and L: "L = (uints (img (unat (a ! 12))))[m - 12 := x]"
  shows "uints (img (unat (a ! 12))) ! (m - 12) = 0" "grown img fb din m (img(unat (a ! 12) := uint_bytes L)) (din\<lparr>i_addrs := a\<rparr>)"
    "ptr (img(unat (a ! 12) := uint_bytes L)) (din\<lparr>i_addrs := a\<rparr>) m = fb' - 1"
proof -
  let ?i = "unat (a ! 12)" and ?din = "din\<lparr>i_addrs := a\<rparr>"
  let ?img = "img(?i := uint_bytes L)"
  have sub: "own img din m \<subseteq> {46..<fb}" using ok by (simp add: file_ok_def)
  have old: "uints (img ?i) ! j = 0" if "m \<le> 12 + j" "j < 256" for j
  proof (cases "m = 12")
    case True
    then have "img ?i = replicate 1024 0" using a(3) img fb' by (auto simp: img_ok_def takes_def)
    then show ?thesis using that by (simp add: zero_uints)
  next
    case False
    then show ?thesis using file_okD(9)[OF ok] a(3) m that by (simp add: word_unat_eq_iff)
  qed
  then show "uints (img ?i) ! (m - 12) = 0" using m by simp
  have i: "?i \<in> {46..<fb'}" "?i \<notin> ptr img din ` {..<m}" "?i < fb' - 1" "?i \<in> own img din m \<union> {fb}" "fb \<le> fb' - 1"
    using a(3) file_okD(3,4,8)[OF ok] m fb' img by (auto simp: takes_def own_def img_ok_def)
  have L': "length L = 256" "uints (uint_bytes L) = L" by (simp_all add: L)
  have p: "ptr ?img ?din k = ptr img din k" if "k < m" for k
  proof (cases "k < 12")
    case False
    then have "m > 12" using that by simp
    then have "a ! 12 = i_addrs din ! 12" using a(3) by (simp add: word_unat_eq_iff)
    then show ?thesis using False that L' by (simp add: ptr_def L)
  qed (simp add: ptr_def a)
  have ne: "ptr img din k \<noteq> ?i" if "k < m" for k
  proof
    assume "ptr img din k = ?i"
    moreover have "ptr img din k \<in> ptr img din ` {..<m}" using that by (intro imageI) simp
    ultimately show False using i(2) by simp
  qed
  show new: "ptr ?img ?din m = fb' - 1"
    using m L' x by (simp add: ptr_def L)
  have "fb' - 1 \<notin> own img din m" using sub i(5) by auto
  moreover have "?i \<notin> ptr ?img ?din ` {..<Suc m}"
    using i(2,3) p new by (auto simp: lessThan_Suc)
  ultimately have "file_ok ?img fb' ?din (Suc m)"
    using m file_okD(6)[OF ok] new i a old L' by (intro file_ok_Suc[OF ok p]) (auto simp: L nth_list_update)
  moreover have "blocks_of ?img ?din m = blocks_of img din m"
    using p ne by (intro blocks_cong) simp
  moreover have "own ?img ?din (Suc m) \<subseteq> own img din m \<union> {fb..}"
  proof -
    have "ptr ?img ?din ` {..<m} = ptr img din ` {..<m}" using p by simp
    then have "own ?img ?din (Suc m) = insert ?i (insert (fb' - 1) (ptr img din ` {..<m}))"
      using m new by (simp add: own_def lessThan_Suc)
    moreover have "ptr img din ` {..<m} \<subseteq> own img din m" by (simp add: own_def)
    ultimately show ?thesis using i(4,5) by auto
  qed
  moreover have "img_ok ?img fb'"
    using img i fb' L' by (auto simp: img_ok_def takes_def)
  ultimately show "grown img fb din m ?img ?din"
    using i(4) fb'(1) unfolding grown_def by auto
qed

lemma unat_plus_one: "unat x < 4000 \<Longrightarrow> unat (x + 1) = Suc (unat x)" for x :: uint32
  by (simp add: unat_word_ariths)

lemma block_new:
  assumes ok: "file_ok (image s) fb din m" and img: "img_ok (image s) fb" and m: "m < 268" and fb: "unat (freeblock s) = fb"
    and fb': "fb' = fb + takes (Suc m) - takes m" "fb' \<le> 2000"
  shows "\<exists>x din' img'. iappend_block (of_nat m) din s = (x, din', s\<lparr>image := img', freeblock := of_nat fb'\<rparr>) \<and>
    unat x = ptr img' din' m \<and> ptr img' din' m = fb' - 1 \<and> grown (image s) fb din m img' din'"
proof -
  have of: "freeblock s = of_nat fb" unfolding fb[symmetric] by simp
  show ?thesis
  proof (cases "m < 12")
    case True
    have f: "fb' = Suc fb" using fb'(1) takes_Suc(1)[OF True] by simp
    then have n: "freeblock s + 1 = of_nat fb'" using of by simp
    note d = direct_new[OF ok img True _ fb]
    show ?thesis
      using True d f fb'(2) fb file_okD(2,6)[OF ok] n
      by (intro exI[of _ "freeblock s"] exI[of _ "din\<lparr>i_addrs := (i_addrs din)[m := freeblock s]\<rparr>"] exI[of _ "image s"])
        (simp add: iappend_block_def take_block_def word_less_nat_alt unat_of_nat)
  next
    case False
    let ?a = "if m = 12 then (i_addrs din)[12 := freeblock s] else i_addrs din"
    let ?s = "if m = 12 then s\<lparr>freeblock := freeblock s + 1\<rparr> else s"
    let ?x = "freeblock ?s"
    have fb2000: "fb \<le> 2000" using img by (simp add: img_ok_def)
    have f: "unat ?x = fb' - 1" "?x + 1 = of_nat fb'"
    proof -
      have "unat (freeblock s + 1) = Suc fb" using fb fb2000 unat_plus_one[of "freeblock s"] by simp
      then show "unat ?x = fb' - 1" using fb fb'(1) False by (simp add: takes_def)
      show "?x + 1 = of_nat fb'" using of fb'(1) False by (simp add: takes_def)
    qed
    have "unat (of_nat m - 12 :: uint32) = m - 12"
      using False m by (subst unat_sub) (simp_all add: word_le_nat_alt unat_of_nat)
    note idx = this
    let ?L = "(uints (image s (unat (?a ! 12))))[m - 12 := ?x]"
    let ?img = "(image s)(unat (?a ! 12) := uint_bytes ?L)"
    have a: "length ?a = 13" "\<And>k. k < 12 \<Longrightarrow> ?a ! k = i_addrs din ! k" "unat (?a ! 12) = (if m = 12 then fb else unat (i_addrs din ! 12))"
      using file_okD(2)[OF ok] fb by simp_all
    note ind = indirect_new[OF ok img _ m fb' a f(1) refl]
    have lt: "unat (?a ! 12) < 2000"
      using a(3) file_okD(4)[OF ok] False fb' by (auto simp: takes_def)
    have blk: "iappend_block (of_nat m) din s = (?x, din\<lparr>i_addrs := ?a\<rparr>, s\<lparr>image := ?img, freeblock := of_nat fb'\<rparr>)"
    proof (cases "m = 12")
      case True
      then show ?thesis
        using ind(1) f(2) file_okD(7)[OF ok] sector_small[of "freeblock s"] lt file_okD(2)[OF ok] fb
        by (simp add: iappend_block_def take_block_def rsect_def wsect_def Let_def)
    next
      case m12: False
      then have "i_addrs din ! 12 \<noteq> 0" using file_okD(4)[OF ok] False by auto
      then show ?thesis
        using m12 False m ind(1) idx f(2) sector_small[of "i_addrs din ! 12"] lt
        by (simp add: iappend_block_def take_block_def rsect_def wsect_def Let_def word_less_nat_alt unat_of_nat)
    qed
    then show ?thesis
      using ind(2,3) False f(1) by (intro exI[of _ ?x] exI[of _ "din\<lparr>i_addrs := ?a\<rparr>"] exI[of _ ?img]) simp
  qed
qed

section \<open>Appending\<close>

definition contents :: "(nat \<Rightarrow> uint8 list) \<Rightarrow> inode \<Rightarrow> nat \<Rightarrow> uint8 list" where
  "contents img din n = take n (blocks_of img din (nb n))"

text \<open>A file of \<open>n\<close> bytes after appending \<open>p\<close>: blocks that were in use and belong to other files are as before.\<close>

definition appended :: "(nat \<Rightarrow> uint8 list) \<Rightarrow> nat \<Rightarrow> inode \<Rightarrow> nat \<Rightarrow> uint8 list \<Rightarrow> (nat \<Rightarrow> uint8 list) \<Rightarrow> nat \<Rightarrow> inode \<Rightarrow> bool" where
  "appended img fb din n p img' fb' din' \<longleftrightarrow> file_ok img' fb' din' (nb (n + length p)) \<and> img_ok img' fb' \<and>
     fb' + takes (nb n) = fb + takes (nb (n + length p)) \<and>
     (\<forall>b. b \<notin> own img din (nb n) \<and> b < fb \<longrightarrow> img' b = img b) \<and> contents img' din' (n + length p) = contents img din n @ p \<and>
     own img' din' (nb (n + length p)) \<subseteq> own img din (nb n) \<union> {fb..} \<and> (\<exists>a. din' = din\<lparr>i_addrs := a\<rparr>)"

lemma blocks_Suc: "blocks_of img din (Suc k) = blocks_of img din k @ img (ptr img din k)"
  by (simp add: blocks_of_def)

lemma takes_mono: "m \<le> m' \<Longrightarrow> takes m \<le> takes m'"
  by (simp add: takes_def)

lemma div_mult2_eq_add: "r < 1024 \<Longrightarrow> (1024 * q + r) div 1024 = (q :: nat)"
  by simp

lemma nb_div: "nb n = (if n mod 1024 = 0 then n div 1024 else Suc (n div 1024))"
proof (cases "n mod 1024")
  case 0
  then have "n + 1023 = 1024 * (n div 1024) + 1023" using mult_div_mod_eq[of 1024 n] by simp
  then show ?thesis unfolding nb_def by (subst \<open>n + 1023 = _\<close>, subst div_mult2_eq_add) (simp_all add: 0)
next
  case (Suc r)
  then have "n + 1023 = 1024 * Suc (n div 1024) + r" "r < 1024" using mult_div_mod_eq[of 1024 n] mod_less_divisor[of 1024 n] by simp_all
  then show ?thesis unfolding nb_def by (subst \<open>n + 1023 = _\<close>, subst div_mult2_eq_add) (simp_all add: Suc)
qed

lemma file_ok_less: "file_ok img fb din (Suc k) \<Longrightarrow> (\<forall>b<2000. length (img b) = 1024) \<Longrightarrow> fb \<le> 2000 \<Longrightarrow> length (blocks_of img din k) = 1024 * k"
  using length_blocks[of img fb din "Suc k"] file_okD(3)[of img fb din "Suc k" k] by (auto simp: blocks_Suc)

text \<open>After a round has found its block, it is there.\<close>

lemma block_ready:
  assumes ok: "file_ok (image s) fb din (nb n)" and img: "img_ok (image s) fb" and n: "n < 268 * 1024" and fb: "unat (freeblock s) = fb"
    and fb': "fb' + takes (nb n) = fb + takes (Suc (n div 1024))" "fb' \<le> 2000"
  shows "\<exists>x din' img'. iappend_block (of_nat (n div 1024)) din s = (x, din', s\<lparr>image := img', freeblock := of_nat fb'\<rparr>) \<and>
    unat x = ptr img' din' (n div 1024) \<and> file_ok img' fb' din' (Suc (n div 1024)) \<and> img_ok img' fb' \<and>
    (\<forall>b. b \<notin> own (image s) din (nb n) \<and> b < fb \<longrightarrow> img' b = image s b) \<and>
    take n (blocks_of img' din' (Suc (n div 1024))) = contents (image s) din n \<and>
    own img' din' (Suc (n div 1024)) \<subseteq> own (image s) din (nb n) \<union> {fb..} \<and> ptr img' din' (n div 1024) \<in> own (image s) din (nb n) \<union> {fb..} \<and>
    (\<exists>a. din' = din\<lparr>i_addrs := a\<rparr>)"
proof (cases "n mod 1024 = 0")
  case True
  then have m: "nb n = n div 1024" "n = 1024 * (n div 1024)" by (auto simp: nb_div)
  let ?m = "n div 1024"
  have f: "fb' = fb + takes (Suc ?m) - takes ?m" "?m < 268" using fb'(1) m n by simp_all
  obtain x din' img' where b: "iappend_block (of_nat ?m) din s = (x, din', s\<lparr>image := img', freeblock := of_nat fb'\<rparr>)"
    "unat x = ptr img' din' ?m" "ptr img' din' ?m = fb' - 1" "grown (image s) fb din ?m img' din'"
    using block_new[OF ok[unfolded m(1)] img f(2) fb f(1) fb'(2)] by blast
  have "length (blocks_of img' din' ?m) = n"
    using b(4) m length_blocks[OF _ ok[unfolded m(1)]] img by (simp add: grown_def img_ok_def)
  then have "take n (blocks_of img' din' (Suc ?m)) = contents (image s) din n"
    using b(4) m length_blocks[OF _ ok[unfolded m(1)]] img by (simp add: grown_def contents_def blocks_Suc img_ok_def)
  moreover have "ptr img' din' ?m \<in> own (image s) din ?m \<union> {fb..}"
    using b(4) ptr_own[of ?m "Suc ?m" img' din'] by (auto simp: grown_def)
  ultimately show ?thesis
    using b m(1) unfolding grown_def f(1)[symmetric] by (intro exI[of _ x] exI[of _ din'] exI[of _ img']) simp
next
  case False
  then have m: "nb n = Suc (n div 1024)" by (simp add: nb_div)
  have f: "fb' = fb" using fb'(1) m by simp
  have of: "freeblock s = of_nat fb" unfolding fb[symmetric] by simp
  obtain x where "iappend_block (of_nat (n div 1024)) din s = (x, din, s)" "unat x = ptr (image s) din (n div 1024)"
    using block_there[OF ok, of "n div 1024"] m fb'(2) f by auto
  moreover have "s\<lparr>image := image s, freeblock := of_nat fb\<rparr> = s" "\<exists>a. din = din\<lparr>i_addrs := a\<rparr>"
    using of by (simp, intro exI[of _ "i_addrs din"], simp)
  ultimately show ?thesis
    using ok img m f ptr_own[of "n div 1024" "nb n" "image s" din]
    by (intro exI[of _ x] exI[of _ din] exI[of _ "image s"]) (simp add: contents_def)
qed

lemma write_block:
  assumes ok: "file_ok img fb din (Suc k)" and img: "img_ok img fb" and n: "n div 1024 = k" and c: "n mod 1024 + length c \<le> 1024"
  defines "img' \<equiv> img(ptr img din k := splice (n mod 1024) c (img (ptr img din k)))"
  shows "file_ok img' fb din (Suc k)" "img_ok img' fb" "own img' din (Suc k) = own img din (Suc k)"
    "take (n + length c) (blocks_of img' din (Suc k)) = take n (blocks_of img din (Suc k)) @ c"
proof -
  let ?x = "ptr img din k"
  have x: "?x \<in> {46..<fb}" "fb \<le> 2000" "\<forall>b<2000. length (img b) = 1024" using file_okD(3)[OF ok] img by (auto simp: img_ok_def)
  then have len: "length (img ?x) = 1024" by simp
  have ni: "12 < Suc k \<Longrightarrow> unat (i_addrs din ! 12) \<noteq> ?x" using file_okD(8)[OF ok] by (auto simp: lessThan_Suc)
  have i: "12 < Suc k \<longrightarrow> img' (unat (i_addrs din ! 12)) = img (unat (i_addrs din ! 12))" using ni by (simp add: img'_def)
  note p = ptr_cong[where img' = img' and img = img, OF i]
  show o: "own img' din (Suc k) = own img din (Suc k)" by (rule own_cong[where img' = img' and img = img, OF i])
  have "ptr img' din ` {..<Suc k} = ptr img din ` {..<Suc k}" "inj_on (ptr img' din) {..<Suc k} = inj_on (ptr img din) {..<Suc k}"
    using p by (auto simp: inj_on_def)
  then show "file_ok img' fb din (Suc k)"
    using ok o i unfolding file_ok_def by simp
  show "img_ok img' fb"
    using img x c len by (auto simp: img_ok_def img'_def)
  have "ptr img din j \<noteq> ?x" if "j < k" for j
    using inj_onD[OF file_okD(5)[OF ok], of j k] that by auto
  then have front: "blocks_of img' din k = blocks_of img din k"
    using p by (intro blocks_cong) (simp add: img'_def)
  have l: "length (blocks_of img din k) = 1024 * k"
    using file_ok_less[OF ok x(3,2)] .
  have k: "n - 1024 * k = n mod 1024" "n + length c - 1024 * k = n mod 1024 + length c" "1024 * k \<le> n"
    using n mult_div_mod_eq[of 1024 n] by simp_all
  have "take (n mod 1024 + length c) (splice (n mod 1024) c (img ?x)) = take (n mod 1024) (img ?x) @ c"
    using c len by (simp add: splice_def)
  then show "take (n + length c) (blocks_of img' din (Suc k)) = take n (blocks_of img din (Suc k)) @ c"
    using k l front p[of k] by (simp add: blocks_Suc img'_def)
qed

lemma loop_words:
  assumes "n < 268 * 1024" "length p < 2 ^ 31"
  defines "off \<equiv> of_nat n :: uint32" and "c \<equiv> min (length p) (1024 - n mod 1024)"
  shows "off div BLK = of_nat (n div 1024)" "of_nat (n div 1024) < (MAXFILE :: uint32)" "unat (off - off div BLK * BLK) = n mod 1024"
    "min (of_nat (length p)) ((off div BLK + 1) * BLK - off) = of_nat c" "unat (of_nat c :: uint32) = c"
proof -
  have k: "unat off = n" using assms(1) by (simp add: off_def unat_of_nat)
  show d: "off div BLK = of_nat (n div 1024)"
    using k assms(1) by (simp add: word_unat_eq_iff unat_div unat_of_nat)
  show "of_nat (n div 1024) < (MAXFILE :: uint32)"
    using assms(1) by (simp add: word_less_nat_alt unat_of_nat)
  have nk: "n = 1024 * (n div 1024) + n mod 1024" by simp
  have "off = of_nat (n div 1024) * 1024 + of_nat (n mod 1024)"
    unfolding off_def by (subst nk) (simp only: of_nat_add of_nat_mult of_nat_numeral mult.commute)
  then have "off - off div BLK * BLK = of_nat (n mod 1024)" "(off div BLK + 1) * BLK - off = of_nat (1024 - n mod 1024)"
    unfolding d by (simp_all add: of_nat_diff algebra_simps)
  note rest = this
  show "unat (off - off div BLK * BLK) = n mod 1024"
    unfolding rest by (simp add: unat_of_nat)
  show "min (of_nat (length p)) ((off div BLK + 1) * BLK - off) = of_nat c"
  proof -
    define e where "e = 1024 - n mod 1024"
    have "e \<le> 1024" by (simp add: e_def)
    then have "unat (of_nat e :: uint32) = e" "unat (of_nat (length p) :: uint32) = length p"
      using assms(2) by (simp_all add: unat_of_nat take_bit_nat_eq_self)
    then show ?thesis
      unfolding rest c_def by (simp add: min_def word_le_nat_alt flip: e_def)
  qed
  have "c \<le> 1024" by (simp add: c_def)
  then show "unat (of_nat c :: uint32) = c" by (simp add: unat_of_nat take_bit_nat_eq_self)
qed

lemma appended_Nil: "file_ok img fb din (nb n) \<Longrightarrow> img_ok img fb \<Longrightarrow> appended img fb din n [] img fb din"
  unfolding appended_def by (auto intro!: exI[of _ "i_addrs din"])

lemma appended_trans:
  assumes 1: "appended img fb din n c img1 fb1 din1" and 2: "appended img1 fb1 din1 (n + length c) r img2 fb2 din2"
  shows "appended img fb din n (c @ r) img2 fb2 din2"
proof -
  have "takes (nb n) \<le> takes (nb (n + length c))"
    by (intro takes_mono) (simp add: nb_def div_le_mono)
  then have fb: "fb \<le> fb1" using 1 by (simp add: appended_def)
  have "img2 b = img b" if "b \<notin> own img din (nb n)" "b < fb" for b
  proof -
    have "b \<notin> own img1 din1 (nb (n + length c))"
      using 1 that by (auto simp: appended_def)
    then show ?thesis using 1 2 that fb by (simp add: appended_def)
  qed
  moreover have "own img2 din2 (nb (n + length (c @ r))) \<subseteq> own img din (nb n) \<union> {fb..}"
    using 1 2 fb by (fastforce simp: appended_def add.assoc)
  moreover have "\<exists>a. din2 = din\<lparr>i_addrs := a\<rparr>"
    using 1 2 by (auto simp: appended_def)
  ultimately show ?thesis
    using 1 2 by (simp add: appended_def add.assoc)
qed

lemma iappend_round:
  assumes ok: "file_ok (image s) fb din (nb n)" and img: "img_ok (image s) fb" and n: "n + length c \<le> 268 * 1024" and fb: "unat (freeblock s) = fb"
    and c: "c \<noteq> []" "n mod 1024 + length c \<le> 1024" and room: "fb + takes (nb (n + length c)) \<le> 2000 + takes (nb n)"
  shows "\<exists>x din' s1 img' fb'. iappend_block (of_nat (n div 1024)) din s = (x, din', s1) \<and>
    wsect x (splice (n mod 1024) c (rsect x s1)) s1 = s\<lparr>image := img', freeblock := of_nat fb'\<rparr> \<and> appended (image s) fb din n c img' fb' din'"
proof -
  let ?k = "n div 1024"
  have k: "nb (n + length c) = Suc ?k"
  proof -
    obtain j where j: "length c = Suc j" using c(1) by (cases c) simp_all
    then have "n + length c + 1023 = 1024 * Suc ?k + (n mod 1024 + j)" "n mod 1024 + j < 1024"
      using c(2) mult_div_mod_eq[of 1024 n] by simp_all
    then show ?thesis unfolding nb_def by (simp only: div_mult2_eq_add)
  qed
  define fb' where "fb' = fb + takes (Suc ?k) - takes (nb n)"
  have "takes (nb n) \<le> takes (Suc ?k)" by (intro takes_mono) (simp add: nb_div)
  then have fb': "fb' + takes (nb n) = fb + takes (Suc ?k)" "fb' \<le> 2000"
    using room k by (simp_all add: fb'_def)
  have "n < 268 * 1024" using n c(1) by (cases c) simp_all
  then obtain x din' img1 where b: "iappend_block (of_nat ?k) din s = (x, din', s\<lparr>image := img1, freeblock := of_nat fb'\<rparr>)"
    "unat x = ptr img1 din' ?k" "file_ok img1 fb' din' (Suc ?k)" "img_ok img1 fb'"
    "\<forall>b. b \<notin> own (image s) din (nb n) \<and> b < fb \<longrightarrow> img1 b = image s b"
    "take n (blocks_of img1 din' (Suc ?k)) = contents (image s) din n"
    "own img1 din' (Suc ?k) \<subseteq> own (image s) din (nb n) \<union> {fb..}" "ptr img1 din' ?k \<in> own (image s) din (nb n) \<union> {fb..}"
    "\<exists>a. din' = din\<lparr>i_addrs := a\<rparr>"
    using block_ready[OF ok img _ fb fb'] by blast
  let ?img = "img1(ptr img1 din' ?k := splice (n mod 1024) c (img1 (ptr img1 din' ?k)))"
  have "ptr img1 din' ?k < 2000" using file_okD(3)[OF b(3), of ?k] fb' by simp
  then have "sector x = ptr img1 din' ?k" using b(2) by (simp add: sector_small)
  then have "wsect x (splice (n mod 1024) c (rsect x (s\<lparr>image := img1, freeblock := of_nat fb'\<rparr>))) (s\<lparr>image := img1, freeblock := of_nat fb'\<rparr>) =
      s\<lparr>image := ?img, freeblock := of_nat fb'\<rparr>"
    by (simp add: wsect_def rsect_def)
  moreover have "appended (image s) fb din n c ?img fb' din'"
    using write_block[OF b(3,4) refl c(2)] b(5-9) fb'(1) unfolding appended_def k contents_def by auto
  ultimately show ?thesis
    using b(1) by blast
qed

declare iappend_loop.simps [simp del]

lemma iappend_loop_appends:
  assumes "file_ok (image s) fb din (nb n)" "img_ok (image s) fb" "n + length p \<le> 268 * 1024" "unat (freeblock s) = fb"
    and "fb + takes (nb (n + length p)) \<le> 2000 + takes (nb n)"
  shows "\<exists>din' img' fb'. iappend_loop din (of_nat n) p s = Inr (din', of_nat (n + length p), s\<lparr>image := img', freeblock := of_nat fb'\<rparr>) \<and>
    appended (image s) fb din n p img' fb' din'"
  using assms
proof (induction "length p" arbitrary: n p s din fb rule: less_induct)
  case less
  show ?case
  proof (cases "p = []")
    case True
    have "freeblock s = of_nat fb" unfolding less.prems(4)[symmetric] by simp
    then have "iappend_loop din (of_nat n) p s = Inr (din, of_nat (n + length p), s\<lparr>image := image s, freeblock := of_nat fb\<rparr>)"
      using True by (simp add: iappend_loop.simps)
    then show ?thesis
      using appended_Nil[OF less.prems(1,2)] True by blast
  next
    case False
    define c where "c = min (length p) (1024 - n mod 1024)"
    have n: "n < 268 * 1024" "length p < 2 ^ 31" using less.prems(3) False by (cases p; simp)+
    note w = loop_words[OF n, folded c_def]
    have c: "take c p \<noteq> []" "length (take c p) = c" "n mod 1024 + c \<le> 1024" "0 < c" "c \<le> length p"
      using False by (simp_all add: c_def)
    have mono: "takes (nb (n + c)) \<le> takes (nb (n + length p))"
      using c(5) by (intro takes_mono) (simp add: nb_def div_le_mono)
    obtain x din1 s1 img1 fb1 where r: "iappend_block (of_nat (n div 1024)) din s = (x, din1, s1)"
      "wsect x (splice (n mod 1024) (take c p) (rsect x s1)) s1 = s\<lparr>image := img1, freeblock := of_nat fb1\<rparr>"
      "appended (image s) fb din n (take c p) img1 fb1 din1"
      using iappend_round[OF less.prems(1,2) _ less.prems(4) c(1), unfolded c(2), OF _ c(3)] less.prems(3,5) c(5) mono by auto
    let ?s = "s\<lparr>image := img1, freeblock := of_nat fb1\<rparr>"
    have a: "file_ok img1 fb1 din1 (nb (n + c))" "img_ok img1 fb1" "fb1 + takes (nb n) = fb + takes (nb (n + c))"
      using r(3) c(2) by (simp_all add: appended_def)
    have nz: "(of_nat c :: uint32) \<noteq> 0" using w(5) c(4) by (metis unat_0 less_not_refl)
    have "iappend_loop din (of_nat n) p s = iappend_loop din1 (of_nat (n + c)) (drop c p) ?s"
      unfolding iappend_loop.simps[of din "of_nat n" p s] Let_def w(3,4,5)
      unfolding w(1) r(1) using False w(2) nz r(2) by simp
    moreover have "\<exists>din' img' fb'. iappend_loop din1 (of_nat (n + c)) (drop c p) ?s =
        Inr (din', of_nat (n + c + length (drop c p)), ?s\<lparr>image := img', freeblock := of_nat fb'\<rparr>) \<and>
        appended (image ?s) fb1 din1 (n + c) (drop c p) img' fb' din'"
    proof (rule less.hyps)
      have "fb1 \<le> 2000" using a(2) by (simp add: img_ok_def)
      then show "unat (freeblock ?s) = fb1" by (simp add: unat_of_nat take_bit_nat_eq_self)
    qed (use a c less.prems(3,5) in simp_all)
    ultimately show ?thesis
      using appended_trans[OF r(3), unfolded c(2)] c(5) by fastforce
  qed
qed

end
