(* ===== verification/Xv6_Mkfs_Props.thy ===== *)
theory Xv6_Mkfs_Props
  imports Xv6_Mkfs_Inv
begin

text \<open>
  The file system \<^verbatim>\<open>mkfs/mkfs.c\<close> leaves: its invariant, kept by allocating inodes and appending to files, and what the kernel finds on
  the disk, the files with their contents, the root directory and a bitmap from which it allocates.
\<close>

section \<open>The invariant\<close>

abbreviation node :: "mkst \<Rightarrow> uint32 \<Rightarrow> inode" where
  "node s i \<equiv> inode_at (image s) i"

definition fsize :: "mkst \<Rightarrow> uint32 \<Rightarrow> nat" where
  "fsize s i = unat (i_size (node s i))"

definition content :: "mkst \<Rightarrow> uint32 \<Rightarrow> uint8 list" where
  "content s i = contents (image s) (node s i) (fsize s i)"

definition owned :: "mkst \<Rightarrow> uint32 \<Rightarrow> nat set" where
  "owned s i = own (image s) (node s i) (nb (fsize s i))"

text \<open>Every inode in use describes a file, and no two of them share a block.\<close>

definition fs_ok :: "mkst \<Rightarrow> bool" where
  "fs_ok s \<longleftrightarrow> msb s = mkfs_sb \<and> img_ok (image s) (unat (freeblock s)) \<and> freeinode s \<le> 200 \<and>
     (\<forall>i. 0 < i \<and> i < freeinode s \<longrightarrow> file_ok (image s) (unat (freeblock s)) (node s i) (nb (fsize s i)) \<and> fsize s i \<le> 268 * 1024) \<and>
     (\<forall>i j. 0 < i \<and> i < freeinode s \<and> 0 < j \<and> j < freeinode s \<and> i \<noteq> j \<longrightarrow> owned s i \<inter> owned s j = {})"

lemma fs_okD:
  assumes "fs_ok s"
  shows "msb s = mkfs_sb" "img_ok (image s) (unat (freeblock s))" "i < freeinode s \<Longrightarrow> i < 208"
    "0 < i \<Longrightarrow> i < freeinode s \<Longrightarrow> file_ok (image s) (unat (freeblock s)) (node s i) (nb (fsize s i))"
    "0 < i \<Longrightarrow> i < freeinode s \<Longrightarrow> fsize s i \<le> 268 * 1024"
    "0 < i \<Longrightarrow> i < freeinode s \<Longrightarrow> 0 < j \<Longrightarrow> j < freeinode s \<Longrightarrow> i \<noteq> j \<Longrightarrow> owned s i \<inter> owned s j = {}"
    "0 < i \<Longrightarrow> i < freeinode s \<Longrightarrow> owned s i \<subseteq> {46..<unat (freeblock s)}"
proof -
  show "i < freeinode s \<Longrightarrow> i < 208"
    using assms order_less_le_trans[of i "freeinode s" 200] order_less_trans[of i 200 208] unfolding fs_ok_def by simp
qed (use assms in \<open>auto simp: fs_ok_def owned_def file_ok_def\<close>)

lemma node_cong: "image s' (iblock i) = image s (iblock i) \<Longrightarrow> node s' i = node s i"
  by (simp add: inode_at_def)

text \<open>A file whose inode and blocks are untouched is the same file.\<close>

lemma same_file:
  assumes "node s' i = node s i" "\<forall>b\<in>owned s i. image s' b = image s b" "fb \<le> fb'"
  shows "fsize s' i = fsize s i" "owned s' i = owned s i" "content s' i = content s i"
    "file_ok (image s) fb (node s i) (nb (fsize s i)) \<Longrightarrow> file_ok (image s') fb' (node s' i) (nb (fsize s' i))"
proof -
  show f: "fsize s' i = fsize s i" using assms(1) by (simp add: fsize_def)
  note c = file_ok_cong[OF assms(2)[unfolded owned_def] assms(3)]
  show "owned s' i = owned s i" "content s' i = content s i"
    "file_ok (image s) fb (node s i) (nb (fsize s i)) \<Longrightarrow> file_ok (image s') fb' (node s' i) (nb (fsize s' i))"
    using c f assms(1) by (simp_all add: owned_def content_def contents_def)
qed

text \<open>What an operation on file \<open>i\<close> leaves of the others.\<close>

definition others_same :: "uint32 \<Rightarrow> mkst \<Rightarrow> mkst \<Rightarrow> bool" where
  "others_same i s s' \<longleftrightarrow> image s' 1 = image s 1 \<and> (\<forall>j. 0 < j \<and> j < freeinode s \<and> j \<noteq> i \<longrightarrow> node s' j = node s j \<and> content s' j = content s j)"

lemma disj_grow: "A \<subseteq> B \<union> {f..} \<Longrightarrow> C \<subseteq> {a..<f} \<Longrightarrow> B \<inter> C = {} \<Longrightarrow> A \<inter> C = {}" for f :: nat
  by fastforce

lemma fs_ok_upd:
  assumes ok: "fs_ok s" and m: "msb s' = mkfs_sb" "img_ok (image s') (unat (freeblock s'))" "freeinode s' \<le> 200"
    and fb: "unat (freeblock s) \<le> unat (freeblock s')"
    and i: "file_ok (image s') (unat (freeblock s')) (node s' i) (nb (fsize s' i))" "fsize s' i \<le> 268 * 1024"
      "owned s' i \<subseteq> (if i < freeinode s then owned s i else {}) \<union> {unat (freeblock s)..}" "0 < i" "i < freeinode s'"
    and j: "\<And>j. 0 < j \<Longrightarrow> j < freeinode s' \<Longrightarrow> j \<noteq> i \<Longrightarrow> j < freeinode s \<and> node s' j = node s j \<and> (\<forall>b\<in>owned s j. image s' b = image s b)"
  shows "fs_ok s'"
proof -
  have same: "owned s' j = owned s j \<and> file_ok (image s') (unat (freeblock s')) (node s' j) (nb (fsize s' j)) \<and> fsize s' j = fsize s j \<and> j < freeinode s"
    if "0 < j" "j < freeinode s'" "j \<noteq> i" for j
    using same_file(1,2,4)[of s' j s, OF _ _ fb] j[OF that] fs_okD(4)[OF ok that(1)] by simp
  have "owned s' i \<inter> owned s' j = {}" if "0 < j" "j < freeinode s'" "j \<noteq> i" for j
    using same[OF that] i(4) that disj_grow[OF i(3) fs_okD(7)[OF ok that(1)]] fs_okD(6)[OF ok, of i j] by (cases "i < freeinode s") simp_all
  then have "owned s' a \<inter> owned s' b = {}" if "0 < a" "a < freeinode s'" "0 < b" "b < freeinode s'" "a \<noteq> b" for a b
    using that same[of a] same[of b] fs_okD(6)[OF ok, of a b] by (cases "a = i"; cases "b = i") auto
  then show ?thesis
    using m i same fs_okD(5)[OF ok] unfolding fs_ok_def by metis
qed

section \<open>Appending and allocating\<close>

lemma img_ok_iblock:
  assumes "img_ok img fb" "b < 46" "length d = 1024"
  shows "img_ok (img(b := d)) fb"
  using assms by (auto simp: img_ok_def)

lemma size_upd [simp]:
  "ptr img (d\<lparr>i_size := z\<rparr>) = ptr img d" "own img (d\<lparr>i_size := z\<rparr>) m = own img d m"
  "file_ok img fb (d\<lparr>i_size := z\<rparr>) m = file_ok img fb d m" "blocks_of img (d\<lparr>i_size := z\<rparr>) m = blocks_of img d m"
proof -
  show p: "ptr img (d\<lparr>i_size := z\<rparr>) = ptr img d" by (simp add: ptr_def fun_eq_iff)
  then show "own img (d\<lparr>i_size := z\<rparr>) m = own img d m" by (simp add: own_def)
  then show "file_ok img fb (d\<lparr>i_size := z\<rparr>) m = file_ok img fb d m" "blocks_of img (d\<lparr>i_size := z\<rparr>) m = blocks_of img d m"
    using p by (simp_all add: file_ok_def blocks_of_def)
qed

lemma iappend_file:
  assumes ok: "fs_ok s" and i: "0 < i" "i < freeinode s" and n: "fsize s i + length p \<le> 268 * 1024"
    and room: "unat (freeblock s) + takes (nb (fsize s i + length p)) \<le> 2000 + takes (nb (fsize s i))"
  shows "\<exists>s'. iappend i p s = Inr s' \<and> fs_ok s' \<and> content s' i = content s i @ p \<and> fsize s' i = fsize s i + length p \<and>
    i_type (node s' i) = i_type (node s i) \<and> others_same i s s' \<and> freeinode s' = freeinode s \<and>
    unat (freeblock s') + takes (nb (fsize s i)) = unat (freeblock s) + takes (nb (fsize s i + length p))"
proof -
  let ?n = "fsize s i" and ?fb = "unat (freeblock s)" and ?din = "node s i"
  have i208: "i < 208" using fs_okD(3)[OF ok i(2)] .
  have fl: "file_ok (image s) ?fb ?din (nb ?n)" using fs_okD(4)[OF ok i] .
  note img = fs_okD(2)[OF ok]
  obtain din' img' fb' where loop: "iappend_loop ?din (of_nat ?n) p s = Inr (din', of_nat (?n + length p), s\<lparr>image := img', freeblock := of_nat fb'\<rparr>)"
    "appended (image s) ?fb ?din ?n p img' fb' din'"
    using iappend_loop_appends[OF fl img n refl room] by blast
  let ?ip = "din'\<lparr>i_size := of_nat (?n + length p)\<rparr>" and ?m = "nb (?n + length p)"
  let ?d = "splice (dinode_off i) (dinode_bytes ?ip) (img' (iblock i))"
  define img2 where "img2 = img'(iblock i := ?d)"
  let ?s = "s\<lparr>image := img2, freeblock := of_nat fb'\<rparr>"
  have frame: "img' b = image s b" if "b \<notin> owned s i" "b < ?fb" for b
    using loop(2) that by (simp add: appended_def owned_def)
  have low: "img' b = image s b" if "b < 46" for b
  proof (rule frame)
    show "b \<notin> owned s i" using fs_okD(7)[OF ok i] that by force
    show "b < ?fb" using img that by (simp add: img_ok_def)
  qed
  have fb': "img_ok img' fb'" "unat (of_nat fb' :: uint32) = fb'" "fb' + takes (nb ?n) = ?fb + takes ?m"
    using loop(2) by (auto simp: appended_def img_ok_def unat_of_nat take_bit_nat_eq_self)
  have "takes (nb ?n) \<le> takes ?m" by (intro takes_mono) (simp add: nb_def div_le_mono)
  then have mono: "?fb \<le> fb'" using fb'(3) by simp
  have ib: "iblock j < 46" "length (img' (iblock j)) = 1024" if "j < 208" for j
    using sector_IBLOCK(2)[OF that] fb'(1) by (auto simp: img_ok_def)
  have cl: "clean ?ip" using loop(2) file_okD(2) clean_rinode[of i s] rinode_at[OF fs_okD(1)[OF ok] i208]
    by (auto simp: appended_def clean_def file_ok_def)
  have run: "iappend i p s = Inr ?s"
    using loop(1) rinode_at[OF fs_okD(1)[OF ok] i208] winode_image[of "s\<lparr>image := img', freeblock := of_nat fb'\<rparr>" i ?ip] fs_okD(1)[OF ok] i208
    by (simp add: iappend_def Let_def fsize_def img2_def)
  have dl: "length ?d = 1024" using ib[OF i208] cl dinode_off_le[of i] by (simp add: clean_def)
  have nodei: "node ?s i = ?ip" using inode_at_written[where img = img', OF ib(2)[OF i208] cl] by (simp add: img2_def)
  have nodej: "node ?s j = node s j" if "j < 208" "j \<noteq> i" for j
    using inode_at_other[where img = img', OF ib(2)[OF i208] cl that(2)] low ib(1)[OF that(1)] by (simp add: inode_at_def img2_def)
  have sz: "fsize ?s i = ?n + length p" 
  proof -
    have "unat (of_nat (?n + length p) :: uint32) = ?n + length p"
      unfolding unat_of_nat using n by (simp add: take_bit_nat_eq_self)
    then show ?thesis unfolding fsize_def[of ?s] nodei by simp
  qed
  have new: "file_ok img' fb' din' ?m" "own img' din' ?m \<subseteq> owned s i \<union> {?fb..}" "contents img' din' (?n + length p) = content s i @ p"
    using loop(2) by (simp_all add: appended_def owned_def content_def)
  have "\<forall>b\<in>own img' din' ?m. img2 b = img' b"
    using new(1) ib(1)[OF i208] unfolding file_ok_def img2_def by force
  note c = file_ok_cong[where img' = img2, OF this order_refl[of fb']]
  have i': "file_ok (image ?s) (unat (freeblock ?s)) (node ?s i) (nb (fsize ?s i))" "owned ?s i \<subseteq> owned s i \<union> {?fb..}" "content ?s i = content s i @ p"
    using c new fb'(2) nodei sz by (simp_all add: owned_def content_def contents_def)
  have jj: "node ?s j = node s j \<and> (\<forall>b\<in>owned s j. image ?s b = image s b)" if j: "0 < j" "j < freeinode s" "j \<noteq> i" for j
  proof
    show "node ?s j = node s j" using nodej fs_okD(3)[OF ok j(2)] j(3) by blast
    show "\<forall>b\<in>owned s j. image ?s b = image s b"
    proof
      fix b assume b: "b \<in> owned s j"
      then have "b \<notin> owned s i" "b \<in> {46..<?fb}" using fs_okD(6)[OF ok j(1,2) i] j(3) fs_okD(7)[OF ok j(1,2)] by blast+
      then show "image ?s b = image s b" using frame[of b] ib(1)[OF i208] by (simp add: img2_def)
    qed
  qed
  have "fs_ok ?s"
  proof (rule fs_ok_upd[OF ok _ _ _ _ i'(1) _ _ i(1)])
    show "img_ok (image ?s) (unat (freeblock ?s))" using img_ok_iblock[OF fb'(1) ib(1)[OF i208] dl] fb'(2) by (simp add: img2_def)
    show "owned ?s i \<subseteq> (if i < freeinode s then owned s i else {}) \<union> {?fb..}" using i'(2) i(2) by simp
  qed (use fs_okD(1)[OF ok] ok fb' mono sz n i jj in \<open>simp_all add: fs_ok_def\<close>)
  moreover have "others_same i s ?s"
  proof -
    have "img2 1 = image s 1" using low[of 1] sector_IBLOCK(3)[OF i208] by (simp add: img2_def)
    moreover have "content ?s j = content s j" if "0 < j" "j < freeinode s" "j \<noteq> i" for j
      using same_file(3)[of ?s j s, OF _ _ order_refl] jj[OF that] by blast
    ultimately show ?thesis using jj by (simp add: others_same_def)
  qed
  moreover have "i_type (node ?s i) = i_type (node s i)"
    using nodei loop(2) by (auto simp: appended_def)
  ultimately show ?thesis
    using run i'(3) sz fb' by (intro exI[of _ ?s]) simp
qed

lemma file_ok_empty: "length (i_addrs din) = 13 \<Longrightarrow> \<forall>k<13. i_addrs din ! k = 0 \<Longrightarrow> file_ok img fb din 0"
  by (simp add: file_ok_def own_def)

lemma ialloc_file:
  assumes ok: "fs_ok s" and i: "0 < freeinode s" "freeinode s < 200"
  shows "\<exists>s'. ialloc_img t s = (freeinode s, s') \<and> fs_ok s' \<and> content s' (freeinode s) = [] \<and> fsize s' (freeinode s) = 0 \<and>
    i_type (node s' (freeinode s)) = t \<and> others_same (freeinode s) s s' \<and> freeinode s' = freeinode s + 1 \<and> freeblock s' = freeblock s"
proof -
  let ?i = "freeinode s" and ?fb = "unat (freeblock s)"
  let ?ip = "zero_dinode\<lparr>i_type := t, i_nlink := 1\<rparr>"
  let ?d = "splice (dinode_off ?i) (dinode_bytes ?ip) (image s (iblock ?i))"
  define img2 where "img2 = (image s)(iblock ?i := ?d)"
  let ?s = "s\<lparr>freeinode := ?i + 1, image := img2\<rparr>"
  have i208: "?i < 208" using i(2) by (rule order_less_trans) simp
  note img = fs_okD(2)[OF ok]
  have ib: "iblock ?i < 46" "length (image s (iblock ?i)) = 1024"
    using sector_IBLOCK(2)[OF i208] img by (auto simp: img_ok_def)
  have cl: "clean ?ip" by (simp add: clean_def zero_dinode_def)
  have z: "zero_dinode\<lparr>i_type := t, i_nlink := 1, i_size := 0\<rparr> = ?ip" by (simp add: zero_dinode_def)
  have run: "ialloc_img t s = (?i, ?s)"
    using winode_image[of "s\<lparr>freeinode := ?i + 1\<rparr>" ?i ?ip] fs_okD(1)[OF ok] i208 by (simp add: ialloc_img_def Let_def z img2_def)
  have nodei: "node ?s ?i = ?ip" using inode_at_written[where img = "image s", OF ib(2) cl] by (simp add: img2_def)
  have nodej: "node ?s j = node s j" if "j \<noteq> ?i" for j
    using inode_at_other[where img = "image s", OF ib(2) cl that] by (simp add: img2_def)
  have dl: "length ?d = 1024" using ib cl dinode_off_le[of ?i] by (simp add: clean_def)
  have sz: "fsize ?s ?i = 0" "nb 0 = 0" unfolding fsize_def nodei by (simp_all add: zero_dinode_def nb_def)
  have e: "file_ok (image ?s) (unat (freeblock ?s)) (node ?s ?i) (nb (fsize ?s ?i))" "owned ?s ?i = {}" "content ?s ?i = []"
    unfolding owned_def content_def contents_def nodei sz
    by (intro file_ok_empty) (simp_all add: zero_dinode_def own_def nth_Cons' less_Suc_eq numeral_eq_Suc)
  have i1: "?i + 1 \<le> 200" "j < ?i + 1 \<longleftrightarrow> j \<le> ?i" for j
  proof -
    have "unat (?i + 1) = Suc (unat ?i)" "unat ?i < 200" using i(2) unat_plus_one[of ?i] by (simp_all add: word_less_nat_alt)
    then show "?i + 1 \<le> 200" "j < ?i + 1 \<longleftrightarrow> j \<le> ?i" by (simp_all add: word_less_nat_alt word_le_nat_alt less_Suc_eq_le)
  qed
  have jj: "j < freeinode s \<and> node ?s j = node s j \<and> (\<forall>b\<in>owned s j. image ?s b = image s b)" if j: "0 < j" "j < freeinode ?s" "j \<noteq> ?i" for j
  proof -
    have jl: "j < ?i" using j(2,3) i1(2) by simp
    have "\<forall>b\<in>owned s j. b \<noteq> iblock ?i" using fs_okD(7)[OF ok j(1) jl] ib(1) by force
    then show ?thesis using jl nodej[OF j(3)] by (simp add: img2_def)
  qed
  have "fs_ok ?s"
  proof (rule fs_ok_upd[OF ok _ _ _ _ e(1) _ _ i(1)])
    show "img_ok (image ?s) (unat (freeblock ?s))" using img_ok_iblock[OF img ib(1) dl] by (simp add: img2_def)
  qed (use fs_okD(1)[OF ok] sz e(2) i1 jj in simp_all)
  moreover have "others_same ?i s ?s"
  proof -
    have "img2 1 = image s 1" using sector_IBLOCK(3)[OF i208] by (simp add: img2_def)
    moreover have "content ?s j = content s j" "node ?s j = node s j" if j: "0 < j" "j < freeinode s" "j \<noteq> ?i" for j
      using same_file(3)[of ?s j s, OF _ _ order_refl] jj[OF j(1) _ j(3)] j(2) i1(2) by (simp_all add: less_imp_le)
    ultimately show ?thesis by (simp add: others_same_def)
  qed
  ultimately show ?thesis
    using run e sz(1) nodei by (intro exI[of _ ?s]) simp
qed

lemma le_nb: "n \<le> 1024 * nb n"
  using dividend_less_times_div[of 1024 "n + 1023"] by (simp add: nb_def)

lemma length_content: "fs_ok s \<Longrightarrow> 0 < i \<Longrightarrow> i < freeinode s \<Longrightarrow> length (content s i) = fsize s i"
proof -
  assume ok: "fs_ok s" "0 < i" "i < freeinode s"
  have "fsize s i \<le> 1024 * nb (fsize s i)" by (rule le_nb)
  then show ?thesis
    using length_blocks[OF _ fs_okD(4)[OF ok]] fs_okD(2)[OF ok(1)] by (simp add: content_def contents_def img_ok_def)
qed

text \<open>Appending the pieces a file is read in.\<close>

lemma iappend_all:
  assumes "fs_ok s" "0 < i" "i < freeinode s" "fsize s i + length (concat ps) \<le> 268 * 1024"
    and "unat (freeblock s) + takes (nb (fsize s i + length (concat ps))) \<le> 2000 + takes (nb (fsize s i))"
  shows "\<exists>s'. fold (\<lambda>buf r. bnd r (iappend i buf)) ps (Inr s) = Inr s' \<and> fs_ok s' \<and> content s' i = content s i @ concat ps \<and>
    i_type (node s' i) = i_type (node s i) \<and> others_same i s s' \<and> freeinode s' = freeinode s \<and>
    unat (freeblock s') + takes (nb (fsize s i)) = unat (freeblock s) + takes (nb (fsize s i + length (concat ps)))"
  using assms
proof (induction ps arbitrary: s)
  case Nil
  then show ?case by (intro exI[of _ s]) (simp add: others_same_def)
next
  case (Cons p ps)
  have "takes (nb (fsize s i + length p)) \<le> takes (nb (fsize s i + length (concat (p # ps))))"
    by (intro takes_mono) (simp add: nb_def div_le_mono)
  then obtain s1 where s1: "iappend i p s = Inr s1" "fs_ok s1" "content s1 i = content s i @ p" "fsize s1 i = fsize s i + length p"
    "i_type (node s1 i) = i_type (node s i)" "others_same i s s1" "freeinode s1 = freeinode s"
    "unat (freeblock s1) + takes (nb (fsize s i)) = unat (freeblock s) + takes (nb (fsize s i + length p))"
    using iappend_file[OF Cons.prems(1-3), of p] Cons.prems(4,5) by auto
  obtain s' where s': "fold (\<lambda>buf r. bnd r (iappend i buf)) ps (Inr s1) = Inr s'" "fs_ok s'" "content s' i = content s1 i @ concat ps"
    "i_type (node s' i) = i_type (node s1 i)" "others_same i s1 s'" "freeinode s' = freeinode s1"
    "unat (freeblock s') + takes (nb (fsize s1 i)) = unat (freeblock s1) + takes (nb (fsize s1 i + length (concat ps)))"
    using Cons.IH[of s1] s1 Cons.prems by (auto simp: add.assoc)
  show ?case
    using s1 s' by (intro exI[of _ s']) (auto simp: others_same_def add.assoc)
qed

section \<open>The whole image\<close>

definition fname :: "uint8 list \<Rightarrow> uint8 list" where
  "fname arg = (let n = shortname arg in if n \<noteq> [] \<and> hd n = of_char CHR ''_'' then tl n else n)"

definition fdata :: "uint8 list \<times> uint8 list list option \<Rightarrow> uint8 list" where
  "fdata f = concat (the (snd f))"

text \<open>The entries of the root directory, and the blocks the file system takes.\<close>

definition root_data :: "(uint8 list \<times> uint8 list list option) list \<Rightarrow> uint8 list" where
  "root_data fs = dirent 1 (ascii ''.'') @ dirent 1 (ascii ''..'') @ concat (map (\<lambda>(j, f). dirent (of_nat (2 + j)) (fname (fst f))) (enumerate 0 fs))"

definition needed :: "(uint8 list \<times> uint8 list list option) list \<Rightarrow> nat" where
  "needed fs = 46 + sum_list (map (\<lambda>f. takes (nb (length (fdata f)))) fs) + takes (nb (16 * (2 + length fs)))"

text \<open>Files that can be copied: they can be opened, are named without a slash and fit.\<close>

definition copyable :: "uint8 list \<times> uint8 list list option \<Rightarrow> bool" where
  "copyable f \<longleftrightarrow> snd f \<noteq> None \<and> SLASH \<notin> set (shortname (fst f)) \<and> length (fdata f) \<le> 268 * 1024"

definition built :: "mkst \<Rightarrow> (uint8 list \<times> uint8 list list option) list \<Rightarrow> bool" where
  "built s fs \<longleftrightarrow> fs_ok s \<and> freeinode s = of_nat (2 + length fs) \<and> content s 1 = root_data fs \<and> i_type (node s 1) = T_DIR \<and>
     (\<forall>j<length fs. content s (of_nat (2 + j)) = fdata (fs ! j) \<and> i_type (node s (of_nat (2 + j))) = T_FILE) \<and>
     unat (freeblock s) = needed fs \<and> take 32 (image s 1) = sb_bytes mkfs_sb"

lemma length_dirent [simp]: "length (dirent i n) = 16"
  by (simp add: dirent_def)

lemma length_root_data: "length (root_data fs) = 16 * (2 + length fs)"
proof -
  have "length (concat (map (\<lambda>(j, f). dirent (of_nat (2 + j)) (fname (fst f))) (enumerate k fs))) = 16 * length fs" for k
    by (induction fs arbitrary: k) simp_all
  then show ?thesis by (simp add: root_data_def)
qed

lemma root_data_snoc: "root_data (fs @ [f]) = root_data fs @ dirent (of_nat (2 + length fs)) (fname (fst f))"
  by (simp add: root_data_def enumerate_append_eq)

lemma needed_snoc: "needed (fs @ [f]) = needed fs + takes (nb (length (fdata f))) + takes (nb (16 * (3 + length fs))) - takes (nb (16 * (2 + length fs)))"
  by (simp add: needed_def algebra_simps)

lemma unat_inum: "j < 1000 \<Longrightarrow> unat (of_nat (2 + j) :: uint32) = 2 + j"
  unfolding unat_of_nat by (simp add: take_bit_nat_eq_self)

lemma inum_less:
  assumes "j < 1000" "k < 1000"
  shows "(of_nat (2 + j) :: uint32) < of_nat (2 + k) \<longleftrightarrow> j < k" "(of_nat (2 + j) :: uint32) = of_nat (2 + k) \<longleftrightarrow> j = k"
    "0 < (of_nat (2 + j) :: uint32)" "1 < (of_nat (2 + j) :: uint32)"
  unfolding word_less_nat_alt word_unat_eq_iff unat_inum[OF assms(1)] unat_inum[OF assms(2)] by simp_all

lemma needed_le: "needed fs \<le> needed (fs @ [f])" "needed fs + takes (nb (16 * (3 + length fs))) \<le> needed (fs @ [f]) + takes (nb (16 * (2 + length fs)))"
  "needed (fs @ [f]) + takes (nb (16 * (2 + length fs))) = needed fs + takes (nb (16 * (3 + length fs))) + takes (nb (length (fdata f)))"
proof -
  have "takes (nb (16 * (2 + length fs))) \<le> takes (nb (16 * (3 + length fs)))"
    by (intro takes_mono) (simp add: nb_def div_le_mono)
  then show "needed fs \<le> needed (fs @ [f])" by (simp add: needed_def)
  show "needed fs + takes (nb (16 * (3 + length fs))) \<le> needed (fs @ [f]) + takes (nb (16 * (2 + length fs)))" by (simp add: needed_def)
  show "needed (fs @ [f]) + takes (nb (16 * (2 + length fs))) = needed fs + takes (nb (16 * (3 + length fs))) + takes (nb (length (fdata f)))"
    by (simp add: needed_def)
qed

lemma takes_0 [simp]: "takes (nb 0) = 0"
  by (simp add: takes_def nb_def)

lemma others_sameD: "others_same i s s' \<Longrightarrow> 0 < j \<Longrightarrow> j < freeinode s \<Longrightarrow> j \<noteq> i \<Longrightarrow> content s' j = content s j \<and> node s' j = node s j"
  "others_same i s s' \<Longrightarrow> image s' 1 = image s 1"
  by (simp_all add: others_same_def)

lemma unat_eq_imp_eq: "unat x = unat y \<Longrightarrow> x = y"
  by (simp add: word_unat_eq_iff)

lemma built_file:
  assumes b: "built s fs" and f: "copyable f" and len: "length fs < 198" and room: "needed (fs @ [f]) \<le> 2000"
  shows "\<exists>s'. mkfs_file 1 f s = Inr s' \<and> built s' (fs @ [f])"
proof -
  let ?k = "length fs"
  define i where "i = (of_nat (2 + ?k) :: uint32)"
  have u: "unat i = 2 + ?k" unfolding i_def by (rule unat_inum) (use len in simp)
  have s: "fs_ok s" "freeinode s = i" "content s 1 = root_data fs" "unat (freeblock s) = needed fs" using b by (simp_all add: built_def i_def)
  have i: "0 < i" "i < 200" "1 \<noteq> i" "1 < i" "i \<noteq> 1"
    using u len by (auto simp: word_less_nat_alt word_unat_eq_iff)
  obtain s1 where s1: "ialloc_img T_FILE s = (i, s1)" "fs_ok s1" "content s1 i = []" "fsize s1 i = 0" "i_type (node s1 i) = T_FILE"
    "others_same i s s1" "freeinode s1 = i + 1" "freeblock s1 = freeblock s"
    using ialloc_file[OF s(1), of T_FILE] s(2) i by auto
  have i1: "i + 1 = of_nat (2 + length (fs @ [f]))" "i < i + 1" "1 < i + 1"
    using u len unat_plus_one[of i] by (simp_all add: word_less_nat_alt) (simp add: i_def)
  have r1: "content s1 1 = root_data fs" "node s1 1 = node s 1" using others_sameD(1)[OF s1(6), of 1] s i by simp_all
  have z1: "fsize s1 1 = 16 * (2 + ?k)" using length_content[OF s1(2), of 1] r1 s1(7) i1(3) length_root_data[of fs] by simp
  let ?e = "dirent (of_nat (2 + ?k)) (fname (fst f))"
  have z3: "16 * (2 + ?k) + length ?e = 16 * (3 + ?k)" by simp
  obtain s2 where s2: "iappend 1 ?e s1 = Inr s2" "fs_ok s2" "content s2 1 = root_data fs @ ?e" "i_type (node s2 1) = i_type (node s1 1)"
    "others_same 1 s1 s2" "freeinode s2 = freeinode s1" "unat (freeblock s2) + takes (nb (16 * (2 + ?k))) = needed fs + takes (nb (16 * (3 + ?k)))"
    using iappend_file[OF s1(2), of 1 ?e, unfolded z1 z3 r1(1)] s1(7,8) i1(3) s(4) needed_le(2)[of fs f] room len by auto
  have r2: "content s2 i = []" "node s2 i = node s1 i" "fsize s2 i = 0"
    using others_sameD(1)[OF s2(5) i(1)] s1(3,4,7) i1(2) i(3) by (auto simp: fsize_def)
  obtain ps where ps: "snd f = Some ps" "fdata f = concat ps" using f by (auto simp: copyable_def fdata_def)
  obtain s3 where s3: "fold (\<lambda>buf r. bnd r (iappend i buf)) ps (Inr s2) = Inr s3" "fs_ok s3" "content s3 i = fdata f" "i_type (node s3 i) = T_FILE"
    "others_same i s2 s3" "freeinode s3 = i + 1" "unat (freeblock s3) = unat (freeblock s2) + takes (nb (length (fdata f)))"
    using iappend_all[OF s2(2) i(1), of ps, unfolded r2 r2(3)] s2(6,7) s1(5,7) i1(2) f room needed_le(3)[of fs f] ps(2) by (auto simp: copyable_def)
  have uc: "(ucast i :: uint16) = of_nat (2 + ?k)"
  proof (rule unat_eq_imp_eq)
    have "unat (ucast i :: uint16) = 2 + ?k" using u len by (simp add: unsigned_ucast_eq take_bit_nat_eq_self)
    moreover have "unat (of_nat (2 + ?k) :: uint16) = 2 + ?k" unfolding unat_of_nat using len by (simp add: take_bit_nat_eq_self)
    ultimately show "unat (ucast i :: uint16) = unat (of_nat (2 + ?k) :: uint16)" by simp
  qed
  have nm: "fname (fst f) = (if shortname (fst f) \<noteq> [] \<and> hd (shortname (fst f)) = of_char CHR ''_'' then tl (shortname (fst f)) else shortname (fst f))"
    by (simp add: fname_def Let_def)
  have run: "mkfs_file 1 f s = Inr s3"
    unfolding mkfs_file_def Let_def ps(1) s1(1) prod.case option.case nm[symmetric] xshort_id uc s2(1) bnd_simps using f s3(1)
    by (simp add: copyable_def)
  have old: "content s3 (of_nat (2 + j)) = fdata (fs ! j) \<and> i_type (node s3 (of_nat (2 + j))) = T_FILE" if j: "j < ?k" for j
  proof -
    define w where "w = (of_nat (2 + j) :: uint32)"
    have "unat w = 2 + j" unfolding w_def by (rule unat_inum) (use j len in simp)
    then have "0 < w" "w < i" "w \<noteq> i" "w \<noteq> 1" "w < i + 1"
      using u j i1(2) order_less_trans[of w i "i + 1"] by (auto simp: word_less_nat_alt word_unat_eq_iff)
    moreover have "content s w = fdata (fs ! j) \<and> i_type (node s w) = T_FILE"
      using b j unfolding built_def w_def by blast
    ultimately show ?thesis
      using others_sameD(1)[OF s1(6), of w] others_sameD(1)[OF s2(5), of w] others_sameD(1)[OF s3(5), of w] s(2) s1(7) s2(6)
      unfolding w_def[symmetric] by simp
  qed
  have "content s3 1 = root_data (fs @ [f])" "i_type (node s3 1) = T_DIR"
    using others_sameD(1)[OF s3(5), of 1] s2(3,4,6) s1(7) i(3) i1(3) r1(2) b by (simp_all add: root_data_snoc built_def)
  moreover have "take 32 (image s3 1) = sb_bytes mkfs_sb"
    using others_sameD(2)[OF s1(6)] others_sameD(2)[OF s2(5)] others_sameD(2)[OF s3(5)] b by (simp add: built_def)
  moreover have "unat (freeblock s3) = needed (fs @ [f])"
    using s3(7) s2(7) needed_le(3)[of fs f] by simp
  moreover have "content s3 (of_nat (2 + j)) = fdata ((fs @ [f]) ! j) \<and> i_type (node s3 (of_nat (2 + j))) = T_FILE" if "j < length (fs @ [f])" for j
    using that old[of j] s3(3,4) unfolding i_def by (cases "j = ?k") (simp_all add: nth_append)
  ultimately have "built s3 (fs @ [f])"
    using s3(2,6) i1(1) unfolding built_def by simp
  then show ?thesis using run by blast
qed

section \<open>The bitmap\<close>

definition bitmap :: "nat \<Rightarrow> uint8 list" where
  "bitmap n = fold (\<lambda>i b. b[i div 8 := (b ! (i div 8)) OR push_bit (i mod 8) 1]) [0..<n] (replicate 1024 0)"

lemma bitmap_bits:
  assumes "n \<le> 8192"
  shows "length (bitmap n) = 1024 \<and> (\<forall>i<8192. bit (bitmap n ! (i div 8)) (i mod 8) \<longleftrightarrow> i < n)"
  using assms
proof (induction n)
  case 0
  then show ?case by (simp add: bitmap_def nth_replicate less_mult_imp_div_less)
next
  case (Suc n)
  then have IH: "length (bitmap n) = 1024" "\<And>i. i < 8192 \<Longrightarrow> bit (bitmap n ! (i div 8)) (i mod 8) \<longleftrightarrow> i < n" by simp_all
  have step: "bitmap (Suc n) = (bitmap n)[n div 8 := (bitmap n ! (n div 8)) OR push_bit (n mod 8) 1]"
    by (simp add: bitmap_def)
  have n: "n div 8 < 1024" using Suc.prems by (simp add: less_mult_imp_div_less)
  have "bit (bitmap (Suc n) ! (i div 8)) (i mod 8) \<longleftrightarrow> i < Suc n" if i: "i < 8192" for i
  proof (cases "i div 8 = n div 8")
    case True
    have "i mod 8 = n mod 8 \<longleftrightarrow> i = n"
      using True by (metis div_mult_mod_eq)
    moreover have "bit (push_bit (n mod 8) 1 :: uint8) (i mod 8) \<longleftrightarrow> i mod 8 = n mod 8"
      by (auto simp: bit_exp_iff)
    ultimately show ?thesis
      using step n IH(1) IH(2)[OF i] True by (auto simp: bit_or_iff less_Suc_eq)
  next
    case False
    then show ?thesis using step IH(2)[OF i] by (auto simp: less_Suc_eq)
  qed
  then show ?case using step IH(1) by simp
qed

lemma balloc_scan_first:
  assumes "\<And>i. i < 8192 \<Longrightarrow> bit (bm ! (i div 8)) (i mod 8) \<longleftrightarrow> i < n" "k \<le> n" "n < 2000"
  shows "balloc_scan bm 0 2000 [k..<8192] = Some n"
  using assms(2)
proof (induction "n - k" arbitrary: k)
  case 0
  then have k: "k = n" "[k..<8192] = n # [Suc n..<8192]" using assms(3) upt_conv_Cons[of n 8192] by simp_all
  have "\<not> bit (bm ! (n div 8)) (n mod 8)" using assms(1)[of n] assms(3) by simp
  then have "bm ! (n div 8) AND push_bit (n mod 8) 1 = 0" by (simp add: bit_iff_and_push_bit_not_eq_0)
  moreover have "(of_nat n :: uint32) < 2000" using assms(3) by (simp add: word_less_nat_alt unat_of_nat take_bit_nat_eq_self)
  ultimately show ?case using k by simp
next
  case (Suc d)
  then have k: "k < n" "[k..<8192] = k # [Suc k..<8192]" using assms(3) upt_conv_Cons[of k 8192] by simp_all
  have "bit (bm ! (k div 8)) (k mod 8)" using assms(1)[of k] assms(3) k by simp
  then have "bm ! (k div 8) AND push_bit (k mod 8) 1 \<noteq> 0" by (simp add: bit_iff_and_push_bit_not_eq_0)
  moreover have "(of_nat k :: uint32) < 2000" using assms(3) k by (simp add: word_less_nat_alt unat_of_nat take_bit_nat_eq_self)
  ultimately show ?case using k Suc.hyps(1)[of "Suc k"] Suc.hyps(2) by simp
qed

section \<open>Start and end\<close>

lemma zero_all:
  assumes "k \<le> 2000"
  shows "\<exists>img. fold (\<lambda>i. wsect i z) (map of_nat [0..<k]) s = s\<lparr>image := img\<rparr> \<and> (\<forall>b<k. img b = z)"
  using assms
proof (induction k)
  case 0
  then show ?case by (intro exI[of _ "image s"]) simp
next
  case (Suc k)
  then obtain img where img: "fold (\<lambda>i. wsect i z) (map of_nat [0..<k]) s = s\<lparr>image := img\<rparr>" "\<forall>b<k. img b = z" by auto
  have "sector (of_nat k) = k"
    using Suc.prems sector_small[of "of_nat k"] by (simp add: unat_of_nat take_bit_nat_eq_self)
  then have "wsect (of_nat k) z (s\<lparr>image := img\<rparr>) = s\<lparr>image := img(k := z)\<rparr>" by (simp add: wsect_def)
  then show ?case
    using img by (intro exI[of _ "img(k := z)"] conjI) (simp del: fun_upd_apply, simp add: less_Suc_eq)
qed

lemma mkfs_init_ok:
  assumes "freeinode s = 1"
  shows "fs_ok (mkfs_init s)" "freeinode (mkfs_init s) = 1" "unat (freeblock (mkfs_init s)) = 46" "take 32 (image (mkfs_init s) 1) = sb_bytes mkfs_sb"
proof -
  let ?s = "s\<lparr>msb := mkfs_sb, freeblock := 46\<rparr>"
  obtain img where img: "fold (\<lambda>i. wsect i (replicate 1024 0)) (map of_nat [0..<2000]) ?s = ?s\<lparr>image := img\<rparr>" "\<forall>b<2000. img b = replicate 1024 0"
    using zero_all[of 2000 "replicate 1024 0" ?s] by blast
  have sb: "length (sb_bytes mkfs_sb) = 32" by (simp add: sb_bytes_def)
  have init: "mkfs_init s = ?s\<lparr>image := img(1 := splice 0 (sb_bytes mkfs_sb) (replicate 1024 0))\<rparr>"
    unfolding mkfs_init_def Let_def mkfs_sb_simps(4) img(1) wsect_def using sector_small[of 1] by simp
  show "freeinode (mkfs_init s) = 1" "unat (freeblock (mkfs_init s)) = 46" using init assms by simp_all
  show "take 32 (image (mkfs_init s) 1) = sb_bytes mkfs_sb" using init sb by (simp add: splice_def)
  have "\<not> (0 < i \<and> i < 1)" for i :: uint32 by (auto simp: word_less_nat_alt)
  moreover have "img_ok (image (mkfs_init s)) 46"
    using init img(2) sb by (auto simp: img_ok_def)
  ultimately show "fs_ok (mkfs_init s)"
    using init assms unfolding fs_ok_def by simp
qed

lemma decode_sb_bytes: "take 32 bs = sb_bytes x \<Longrightarrow> decode_sb bs = x"
proof -
  assume "take 32 bs = sb_bytes x"
  moreover have "decode_sb bs = decode_sb (take 32 bs)" by (simp add: decode_sb_def take_field)
  moreover have "decode_sb (sb_bytes x) = x"
  proof -
    have "(field 0 4 (le_bytes 4 (sb_bmapstart x)) :: uint32) = sb_bmapstart x" by (simp add: field_def le_word_le_bytes_full)
    then show ?thesis by (simp add: decode_sb_def sb_bytes_def field_here le_word_le_bytes_full)
  qed
  ultimately show ?thesis by simp
qed

lemma built_start:
  assumes "freeinode s = 1"
  shows "\<exists>s1 s2 s3. ialloc_img T_DIR (mkfs_init s) = (1, s1) \<and> iappend 1 (dirent 1 (ascii ''.'')) s1 = Inr s2 \<and>
    iappend 1 (dirent 1 (ascii ''..'')) s2 = Inr s3 \<and> built s3 []"
proof -
  note init = mkfs_init_ok[OF assms]
  obtain s1 where s1: "ialloc_img T_DIR (mkfs_init s) = (1, s1)" "fs_ok s1" "content s1 1 = []" "fsize s1 1 = 0" "i_type (node s1 1) = T_DIR"
    "others_same 1 (mkfs_init s) s1" "freeinode s1 = 2" "unat (freeblock s1) = 46"
    using ialloc_file[OF init(1), of T_DIR] init(2,3) by auto
  obtain s2 where s2: "iappend 1 (dirent 1 (ascii ''.'')) s1 = Inr s2" "fs_ok s2" "content s2 1 = dirent 1 (ascii ''.'')" "fsize s2 1 = 16"
    "i_type (node s2 1) = T_DIR" "others_same 1 s1 s2" "freeinode s2 = 2" "unat (freeblock s2) = 47"
    using iappend_file[OF s1(2), of 1 "dirent 1 (ascii ''.'')"] s1 by (auto simp: takes_def nb_def)
  obtain s3 where s3: "iappend 1 (dirent 1 (ascii ''..'')) s2 = Inr s3" "fs_ok s3" "content s3 1 = dirent 1 (ascii ''.'') @ dirent 1 (ascii ''..'')"
    "i_type (node s3 1) = T_DIR" "others_same 1 s2 s3" "freeinode s3 = 2" "unat (freeblock s3) = 47"
    using iappend_file[OF s2(2), of 1 "dirent 1 (ascii ''..'')"] s2 by (auto simp: takes_def nb_def)
  have "image s3 1 = image (mkfs_init s) 1"
    using others_sameD(2)[OF s1(6)] others_sameD(2)[OF s2(6)] others_sameD(2)[OF s3(5)] by simp
  then have "built s3 []"
    using s3 init(4) unfolding built_def by (simp add: root_data_def needed_def takes_def nb_def)
  then show ?thesis using s1(1) s2(1) s3(1) by blast
qed

lemma needed_mono: "needed fs \<le> needed (fs @ gs)"
proof -
  have "takes (nb (16 * (2 + length fs))) \<le> takes (nb (16 * (2 + length (fs @ gs))))"
    by (intro takes_mono) (simp add: nb_def div_le_mono)
  then show ?thesis by (simp add: needed_def)
qed

lemma built_all:
  assumes "built s fs" "\<forall>f\<in>set gs. copyable f" "length (fs @ gs) \<le> 198" "needed (fs @ gs) \<le> 2000"
  shows "\<exists>s'. fold (\<lambda>f r. bnd r (mkfs_file 1 f)) gs (Inr s) = Inr s' \<and> built s' (fs @ gs)"
  using assms
proof (induction gs arbitrary: fs s)
  case (Cons f gs)
  have "needed (fs @ [f]) \<le> 2000" using needed_mono[of "fs @ [f]" gs] Cons.prems(4) by simp
  then obtain s1 where "mkfs_file 1 f s = Inr s1" "built s1 (fs @ [f])"
    using built_file[OF Cons.prems(1), of f] Cons.prems(2,3) by auto
  then show ?case using Cons.IH[of s1 "fs @ [f]"] Cons.prems(2-4) by simp
qed auto

lemma mkfs_finish_ok:
  assumes b: "built s fs" and len: "length fs \<le> 198"
  shows "\<exists>s'. mkfs_finish 1 s = Inr s' \<and> take 32 (image s' 1) = sb_bytes mkfs_sb \<and> image s' 45 = bitmap (needed fs) \<and>
    (\<forall>j. 1 < j \<and> j < freeinode s \<longrightarrow> content s' j = content s j \<and> node s' j = node s j) \<and>
    i_type (node s' 1) = T_DIR \<and> fsize s' 1 = 1024 * (16 * (2 + length fs) div 1024 + 1) \<and>
    contents (image s') (node s' 1) (16 * (2 + length fs)) = root_data fs"
proof -
  have s: "fs_ok s" "freeinode s = of_nat (2 + length fs)" "content s 1 = root_data fs" "i_type (node s 1) = T_DIR"
    "unat (freeblock s) = needed fs" "take 32 (image s 1) = sb_bytes mkfs_sb" using b by (simp_all add: built_def)
  have fi: "1 < freeinode s" using s(2) inum_less(4)[of "length fs" 0] len by (simp del: of_nat_add)
  let ?n = "16 * (2 + length fs)"
  have n: "fsize s 1 = ?n" using length_content[OF s(1), of 1] fi s(3) length_root_data[of fs] by simp
  define ip where "ip = (node s 1)\<lparr>i_size := (i_size (node s 1) div BLK + 1) * BLK\<rparr>"
  define img where "img = (image s)(iblock 1 := splice (dinode_off 1) (dinode_bytes ip) (image s (iblock 1)))"
  let ?s = "s\<lparr>image := img(45 := bitmap (needed fs))\<rparr>"
  have cl: "clean ip" using clean_rinode[of 1 s] rinode_at[OF fs_okD(1)[OF s(1)], of 1] unfolding ip_def by simp
  note img_ok = fs_okD(2)[OF s(1)]
  have ib: "iblock 1 = 32" "length (image s (iblock 1)) = 1024" using img_ok by (simp_all add: iblock_def img_ok_def)
  have sz: "unat (i_size ip) = 1024 * (?n div 1024 + 1)"
    using n len unfolding ip_def by (simp add: fsize_def unat_word_ariths unat_div)
  have needed: "needed fs \<le> 2000" using img_ok s(5) by (simp add: img_ok_def)
  have "int_of_u32 (freeblock s) = int (needed fs)"
    using int_of_u32_nat[of "needed fs"] needed unfolding s(5)[symmetric] by simp
  note used = this
  have r: "rinode 1 s = node s 1" "winode 1 ip s = s\<lparr>image := img\<rparr>"
    using rinode_at[OF fs_okD(1)[OF s(1)], of 1] winode_image[OF fs_okD(1)[OF s(1)], of 1 ip] by (simp_all add: img_def)
  have "mkfs_finish 1 s = balloc_img (int (needed fs)) (s\<lparr>image := img\<rparr>)"
    unfolding mkfs_finish_def Let_def r(1) xint_id ip_def[symmetric] r(2) using used by simp
  then have run: "mkfs_finish 1 s = Inr ?s"
    using needed fs_okD(1)[OF s(1)] sector_small[of 45] by (simp add: balloc_img_def wsect_def bitmap_def)
  have node1: "node ?s 1 = ip"
    using inode_at_written[where img = "image s", OF ib(2) cl] ib(1) by (simp add: inode_at_def img_def)
  have nodej: "node ?s j = node s j" if "j \<noteq> 1" "j < 208" for j
    using inode_at_other[where img = "image s", OF ib(2) cl that(1)] sector_IBLOCK(2)[OF that(2)] by (simp add: inode_at_def img_def)
  have high: "image ?s b = image s b" if "b \<ge> 46" for b using that ib(1) by (simp add: img_def)
  have "content ?s j = content s j \<and> node ?s j = node s j" if j: "1 < j" "j < freeinode s" for j
  proof -
    have p: "0 < j" "j \<noteq> 1" using j(1) by (auto simp: word_less_nat_alt)
    have "\<forall>b\<in>owned s j. image ?s b = image s b" using fs_okD(7)[OF s(1) p(1) j(2)] high by force
    then show ?thesis using nodej[OF p(2) fs_okD(3)[OF s(1) j(2)]] same_file(3)[of ?s j s, OF _ _ order_refl] by blast
  qed
  moreover have "contents (image ?s) (node ?s 1) ?n = root_data fs"
  proof -
    have "\<forall>b\<in>owned s 1. image ?s b = image s b" using fs_okD(7)[OF s(1) _ fi] high by force
    then have "blocks_of (image ?s) (node s 1) (nb ?n) = blocks_of (image s) (node s 1) (nb ?n)"
      using file_ok_cong(3)[of "image s" "node s 1" "nb ?n" "image ?s", OF _ order_refl] n by (simp add: owned_def)
    then show ?thesis
      using s(3) n unfolding node1 contents_def content_def by (simp add: ip_def)
  qed
  moreover have "fsize ?s 1 = 1024 * (?n div 1024 + 1)" unfolding fsize_def node1 by (rule sz)
  moreover have "i_type (node ?s 1) = T_DIR" unfolding node1 using s(4) by (simp add: ip_def)
  ultimately show ?thesis
    using run s(6) ib(1) by (intro exI[of _ ?s]) (simp add: img_def)
qed

text \<open>
  C22: \<^verbatim>\<open>mkfs\<close> builds the file system.  Given files that can be opened, are named without a slash and fit, at most 198 of them with all their
  blocks below 2000, it finishes, and the disk then has the superblock the kernel decodes; for each file an inode of type \<^verbatim>\<open>T_FILE\<close> whose blocks hold
  exactly the bytes of the file, whatever pieces \<^verbatim>\<open>read\<close> delivered; in inode 1 a directory with the entries for itself, its parent and
  the files by name, its size rounded up to blocks; and a bitmap that marks exactly the blocks taken, so that the first block the kernel's \<^verbatim>\<open>balloc\<close> finds
  free is the first one that is.
\<close>

theorem mkfs_builds:
  assumes "freeinode s = 1" "\<forall>f\<in>set files. copyable f" "length files \<le> 198" "needed files < 2000"
  shows "\<exists>s'. mkfs_main files s = Inr s' \<and> decode_sb (image s' 1) = mkfs_sb \<and>
    (\<forall>j<length files. content s' (of_nat (2 + j)) = fdata (files ! j) \<and> i_type (node s' (of_nat (2 + j))) = T_FILE) \<and>
    i_type (node s' 1) = T_DIR \<and> fsize s' 1 = 1024 * (16 * (2 + length files) div 1024 + 1) \<and>
    contents (image s') (node s' 1) (16 * (2 + length files)) = root_data files \<and>
    balloc_scan (image s' (unat (BBLOCK 0 mkfs_sb))) 0 (sb_size mkfs_sb) [0..<8192] = Some (needed files)"
proof -
  obtain s1 s2 s3 where start: "ialloc_img T_DIR (mkfs_init s) = (1, s1)" "iappend 1 (dirent 1 (ascii ''.'')) s1 = Inr s2"
    "iappend 1 (dirent 1 (ascii ''..'')) s2 = Inr s3" "built s3 []"
    using built_start[OF assms(1)] by blast
  obtain s4 where s4: "fold (\<lambda>f r. bnd r (mkfs_file 1 f)) files (Inr s3) = Inr s4" "built s4 files"
    using built_all[OF start(4) assms(2)] assms(3,4) by auto
  obtain s' where s': "mkfs_finish 1 s4 = Inr s'" "take 32 (image s' 1) = sb_bytes mkfs_sb" "image s' 45 = bitmap (needed files)"
    "\<forall>j. 1 < j \<and> j < freeinode s4 \<longrightarrow> content s' j = content s4 j \<and> node s' j = node s4 j"
    "i_type (node s' 1) = T_DIR" "fsize s' 1 = 1024 * (16 * (2 + length files) div 1024 + 1)"
    "contents (image s') (node s' 1) (16 * (2 + length files)) = root_data files"
    using mkfs_finish_ok[OF s4(2) assms(3)] by blast
  have "mkfs_main files s = Inr s'"
    unfolding mkfs_main_def Let_def start(1) prod.case using start(2,3) s4(1) s'(1) by simp
  moreover have "content s' (of_nat (2 + j)) = fdata (files ! j) \<and> i_type (node s' (of_nat (2 + j))) = T_FILE" if j: "j < length files" for j
  proof -
    have "1 < (of_nat (2 + j) :: uint32)" "of_nat (2 + j) < freeinode s4"
      using inum_less(1,4)[of j "length files"] j assms(3) s4(2) unfolding built_def by simp_all
    then show ?thesis using s'(4) s4(2) j unfolding built_def by metis
  qed
  moreover have "balloc_scan (image s' (unat (BBLOCK 0 mkfs_sb))) 0 (sb_size mkfs_sb) [0..<8192] = Some (needed files)"
  proof -
    have "\<And>i. i < 8192 \<Longrightarrow> bit (bitmap (needed files) ! (i div 8)) (i mod 8) \<longleftrightarrow> i < needed files" using bitmap_bits[of "needed files"] assms(4) by simp
    from balloc_scan_first[OF this, of 0] show ?thesis
      using assms(4) s'(3) unfolding BBLOCK_def mkfs_sb_simps by simp
  qed
  ultimately show ?thesis
    using decode_sb_bytes[OF s'(2)] s'(5-7) by blast
qed

theorem mkfs_builds_witness:
  "\<exists>s'. mkfs_main [(ascii ''user/_cat'', Some [[1, 2], [3]])] \<lparr>image = \<lambda>_. [], msb = mkfs_sb, freeinode = 1, freeblock = 0\<rparr> = Inr s' \<and>
     content s' 2 = [1, 2, 3] \<and> fsize s' 1 = 1024 \<and>
     take 5 (drop 32 (contents (image s') (node s' 1) 48)) = [2, 0] @ ascii ''cat''"
proof -
  let ?f = "[(ascii ''user/_cat'', Some [[1, 2], [3 :: uint8]])]"
  have f: "\<forall>f\<in>set ?f. copyable f" "needed ?f = 48" "length ?f = 1" "fdata (?f ! 0) = [1, 2, 3]"
    by (simp_all add: copyable_def shortname_def fdata_def ascii_def needed_def takes_def nb_def)
  have "take 5 (drop 32 (root_data ?f)) = [2, 0] @ ascii ''cat''"
    by code_simp
  then show ?thesis
    using mkfs_builds[of "\<lparr>image = \<lambda>_. [], msb = mkfs_sb, freeinode = 1, freeblock = 0\<rparr>" ?f] f by (auto simp del: upt_rec_numeral)
qed

end
