(* ===== verification/Xv6_Lru.thy ===== *)
theory Xv6_Lru
  imports Xv6_Reset
begin

text \<open>
  The buffer cache of \<^verbatim>\<open>kernel/bio.c\<close> as a list of buffers in order of use.  \<open>linked s xs\<close> says that the links through
  the buffers, followed from the list head, visit \<open>xs\<close> and come back, and that the backward links visit the same
  list in reverse.  Over it, \<^verbatim>\<open>bget\<close>, \<^verbatim>\<open>brelse\<close>, \<^verbatim>\<open>bpin\<close> and \<^verbatim>\<open>bunpin\<close> implement a specification that knows no links.
\<close>

section \<open>A doubly linked list\<close>

fun seg :: "'a bst_scheme \<Rightarrow> bptr \<Rightarrow> nat list \<Rightarrow> bptr \<Rightarrow> bool" where
  "seg s p [] q \<longleftrightarrow> lnext s p = q \<and> lprev s q = p"
| "seg s p (x # xs) q \<longleftrightarrow> lnext s p = Buf x \<and> lprev s (Buf x) = p \<and> seg s (Buf x) xs q"

definition linked :: "'a bst_scheme \<Rightarrow> nat list \<Rightarrow> bool" where
  "linked s xs \<longleftrightarrow> distinct xs \<and> seg s Head xs Head"

lemma seg_append: "seg s p (xs @ x # ys) q \<longleftrightarrow> seg s p xs (Buf x) \<and> seg s (Buf x) ys q"
proof (induction xs arbitrary: p)
  case Nil
  show ?case unfolding seg.simps append.simps by (rule conj_assoc[symmetric])
next
  case (Cons a xs)
  show ?case unfolding seg.simps append.simps Cons.IH by blast
qed

lemma seg_ends:
  assumes "seg s p xs q"
  shows "lnext s p = (case xs of [] \<Rightarrow> q | x # _ \<Rightarrow> Buf x)" "lprev s q = (if xs = [] then p else Buf (last xs))"
proof -
  show "lnext s p = (case xs of [] \<Rightarrow> q | x # _ \<Rightarrow> Buf x)"
    using assms by (cases xs) (auto simp only: seg.simps list.case)
  show "lprev s q = (if xs = [] then p else Buf (last xs))"
    using assms by (cases xs rule: rev_cases) (auto simp only: seg.simps seg_append last_snoc append_is_Nil_conv list.distinct if_True if_False simp_thms)
qed

lemma links_set [simp]:
  "lnext (set_next p q s) r = (if r = p then q else lnext s r)" "lprev (set_next p q s) r = lprev s r"
  "lprev (set_prev p q s) r = (if r = p then q else lprev s r)" "lnext (set_prev p q s) r = lnext s r"
  by (auto simp: lnext_def lprev_def set_next_def set_prev_def set_buf_def split: bptr.splits)

lemma mem_Buf [simp]: "Buf b \<in> Buf ` A \<longleftrightarrow> b \<in> A" "Head \<notin> Buf ` A"
  by auto

lemma seg_set_next: "p' \<noteq> p \<Longrightarrow> p' \<notin> Buf ` set xs \<Longrightarrow> seg (set_next p' r s) p xs q = seg s p xs q"
  by (induction xs arbitrary: p) auto

lemma seg_set_prev: "q' \<noteq> q \<Longrightarrow> q' \<notin> Buf ` set xs \<Longrightarrow> seg (set_prev q' r s) p xs q = seg s p xs q"
  by (induction xs arbitrary: p) auto

text \<open>Pointing the predecessor and the successor of a stretch at each other joins the stretches around it.\<close>

lemma seg_join:
  assumes "seg s p xs a" "seg s b ys q" "distinct (xs @ ys)" "p \<notin> Buf ` set (xs @ ys)" "q \<notin> Buf ` set (xs @ ys)"
    "a \<notin> insert p (Buf ` set (xs @ ys))" "b \<notin> insert q (Buf ` set (xs @ ys))"
  shows "seg (set_next (lprev s a) (lnext s b) (set_prev (lnext s b) (lprev s a) s)) p (xs @ ys) q"
  using assms
proof (induction xs arbitrary: p)
  case Nil
  then have "lprev s a = p" by simp
  moreover have "Buf y \<noteq> q" if "ys = y # zs" for y zs
    using Nil.prems(5) that by auto
  ultimately show ?case
    using Nil.prems(2-5) by (cases ys) (simp_all add: seg_set_next seg_set_prev)
next
  case (Cons x xs)
  have "lprev s a = Buf (last (x # xs))" "lnext s b = (case ys of [] \<Rightarrow> q | y # _ \<Rightarrow> Buf y)"
    using seg_ends(2)[OF Cons.prems(1)] seg_ends(1)[OF Cons.prems(2)] by simp_all
  moreover have "Buf (last (x # xs)) \<in> Buf ` set (x # xs)"
    by (intro imageI last_in_set) simp
  ultimately have "p \<noteq> lprev s a" "Buf x \<noteq> lnext s b"
    using Cons.prems(3-5) by (auto split: list.splits)
  moreover have "seg (set_next (lprev s a) (lnext s b) (set_prev (lnext s b) (lprev s a) s)) (Buf x) (xs @ ys) q"
    using Cons.prems by (intro Cons.IH) auto
  ultimately show ?case
    using Cons.prems(1) by simp
qed

lemma unlink_linked:
  assumes "linked s (xs @ b # ys)"
  shows "linked (unlink b s) (xs @ ys)"
proof -
  have "seg s Head xs (Buf b)" "seg s (Buf b) ys Head"
    using assms by (simp_all add: linked_def seg_append)
  from seg_join[OF this] assms show ?thesis
    by (simp add: linked_def unlink_def Let_def)
qed

lemma link_front_linked:
  assumes "linked s xs" "b \<notin> set xs"
  shows "linked (link_front b s) (b # xs)"
  using assms by (cases xs) (auto simp: linked_def link_front_def Let_def seg_set_next seg_set_prev)

lemma move_front_linked:
  assumes "linked s xs" "b \<in> set xs"
  shows "linked (link_front b (unlink b s)) (b # remove1 b xs)"
proof -
  from assms obtain ys zs where "xs = ys @ b # zs" "b \<notin> set ys" "b \<notin> set zs"
    by (metis distinct.simps(2) distinct_append linked_def split_list_first)
  then show ?thesis
    using assms unlink_linked[of s ys b zs] link_front_linked[of "unlink b s" "ys @ zs" b]
    by (simp add: remove1_append)
qed

section \<open>The searches\<close>

lemma bget_cached_find:
  assumes "seg s p xs Head"
  shows "bget_cached dev blockno (lnext s p) s =
    Some (find (\<lambda>b. (b_dev (bufs s b), b_blockno (bufs s b)) = (dev, blockno)) xs)"
  using assms
proof (induction xs arbitrary: p)
  case Nil
  then show ?case by (simp add: bget_cached.simps)
next
  case (Cons b xs)
  have "b_next (bufs s b) = lnext s (Buf b)"
    by (simp add: lnext_def)
  with Cons show ?case
    by (simp add: bget_cached.simps[of _ _ "Buf b"])
qed

lemma bget_unused_find:
  assumes "seg s Head xs q"
  shows "bget_unused (lprev s q) s = Some (find (\<lambda>b. b_refcnt (bufs s b) = 0) (rev xs))"
  using assms
proof (induction xs arbitrary: q rule: rev_induct)
  case Nil
  then show ?case by (simp add: bget_unused.simps)
next
  case (snoc b xs)
  have "b_prev (bufs s b) = lprev s (Buf b)"
    by (simp add: lprev_def)
  with snoc show ?case
    by (simp add: bget_unused.simps[of "Buf b"] seg_append)
qed

section \<open>The specification\<close>

text \<open>
  The buffers from the most to the least recently used, and of each buffer the block it caches, how many users it has and
  which process has its sleeplock.
\<close>

record lru =
  order :: "nat list"
  tag :: "nat \<Rightarrow> uint32 \<times> uint32"
  uses :: "nat \<Rightarrow> uint32"
  owner :: "nat \<Rightarrow> int option"

text \<open>The process \<open>pid\<close> takes the sleeplock of a buffer that it was told to use.\<close>

definition lru_lock :: "int \<Rightarrow> nat \<Rightarrow> lru \<Rightarrow> (nat \<times> lru) option" where
  "lru_lock pid b L = (if owner L b = None then Some (b, L\<lparr>owner := (owner L)(b := Some pid)\<rparr>) else None)"

text \<open>
  A block that is cached is used where it is; for another, the least recently used of the buffers without users is
  recycled.  There is no result when all buffers have users, or when the buffer is locked.
\<close>

definition lru_get :: "int \<Rightarrow> uint32 \<times> uint32 \<Rightarrow> lru \<Rightarrow> (nat \<times> lru) option" where
  "lru_get pid t L =
     (case find (\<lambda>b. tag L b = t) (order L) of
        Some b \<Rightarrow> lru_lock pid b (L\<lparr>uses := (uses L)(b := uses L b + 1)\<rparr>)
      | None \<Rightarrow> (case find (\<lambda>b. uses L b = 0) (rev (order L)) of
            Some b \<Rightarrow> lru_lock pid b (L\<lparr>tag := (tag L)(b := t), uses := (uses L)(b := 1)\<rparr>)
          | None \<Rightarrow> None))"

text \<open>The last user's release makes the buffer the most recently used.\<close>

definition lru_release :: "int \<Rightarrow> nat \<Rightarrow> lru \<Rightarrow> lru option" where
  "lru_release pid b L =
     (if owner L b = Some pid then
        Some (L\<lparr>order := (if uses L b - 1 = 0 then b # remove1 b (order L) else order L),
          uses := (uses L)(b := uses L b - 1), owner := (owner L)(b := None)\<rparr>)
      else None)"

definition lru_pin :: "uint32 \<Rightarrow> nat \<Rightarrow> lru \<Rightarrow> lru" where
  "lru_pin k b L = L\<lparr>uses := (uses L)(b := uses L b + k)\<rparr>"

text \<open>What the kernel's state stands for: the links are followed from the list head for at most \<^verbatim>\<open>NBUF\<close> buffers.\<close>

primrec follow :: "nat \<Rightarrow> bptr \<Rightarrow> 'a bst_scheme \<Rightarrow> nat list" where
  "follow 0 p s = []"
| "follow (Suc n) p s = (case p of Head \<Rightarrow> [] | Buf b \<Rightarrow> b # follow n (lnext s p) s)"

definition cache_abs :: "'a bst_scheme \<Rightarrow> lru" where
  "cache_abs s = \<lparr>order = follow NBUF (head_next s) s, tag = \<lambda>b. (b_dev (bufs s b), b_blockno (bufs s b)),
     uses = \<lambda>b. b_refcnt (bufs s b),
     owner = \<lambda>b. if sl_locked (sleeplocks s (BufSleep b)) = 0 then None else Some (sl_pid (sleeplocks s (BufSleep b)))\<rparr>"

definition cache_ok :: "'a bst_scheme \<Rightarrow> bool" where
  "cache_ok s \<longleftrightarrow> linked s (order (cache_abs s)) \<and> set (order (cache_abs s)) = {..<NBUF}"

text \<open>No lock that the cache needs is taken, and a process runs.\<close>

definition cache_quiet :: "nat \<Rightarrow> 'a bst_scheme \<Rightarrow> bool" where
  "cache_quiet p s \<longleftrightarrow> cpu_ok s \<and> procs_free s \<and> myproc s = Some p \<and> lock_free BcacheLock s \<and>
     (\<forall>b<NBUF. lock_free (SleepGuard (BufSleep b)) s)"

lemma follow_linked:
  assumes "seg s p xs Head" "length xs \<le> n"
  shows "follow n (lnext s p) s = xs"
  using assms
proof (induction xs arbitrary: p n)
  case Nil
  then show ?case by (cases n) simp_all
next
  case (Cons b xs)
  then show ?case by (cases n) simp_all
qed

lemma order_linked:
  assumes "linked s xs" "set xs = {..<NBUF}"
  shows "order (cache_abs s) = xs" "cache_ok s"
proof -
  have "length xs = NBUF"
    using assms distinct_card[of xs] by (simp add: linked_def)
  moreover have "lnext s Head = head_next s"
    by (simp add: lnext_def)
  ultimately show "order (cache_abs s) = xs"
    using assms(1) follow_linked[of s Head xs NBUF] by (simp add: linked_def cache_abs_def)
  then show "cache_ok s"
    using assms by (simp add: cache_ok_def)
qed

section \<open>The operations under the cache's lock\<close>

lemma bst_held [simp]:
  "bufs (held lk s) = bufs s" "head_next (held lk s) = head_next s" "head_prev (held lk s) = head_prev s"
  "bufs (settle s) = bufs s" "head_next (settle s) = head_next s" "head_prev (settle s) = head_prev s"
  "platter (held lk s) = platter s" "platter (settle s) = platter s" "platter (woken ch ps s) = platter s"
  "bufs (woken ch ps s) = bufs s" "head_next (woken ch ps s) = head_next s" "head_prev (woken ch ps s) = head_prev s"
  by (simp_all add: held_def settle_def woken_def)

lemma bst_upd_held [lock_simps]:
  "set_buf b f (held lk s) = held lk (set_buf b f s)" "set_buf b f (settle s) = settle (set_buf b f s)"
  "set_next p q (held lk s) = held lk (set_next p q s)" "set_prev p q (held lk s) = held lk (set_prev p q s)"
  by (cases s; cases p; simp add: held_def settle_def set_buf_def set_next_def set_prev_def)+

lemma links_cong:
  assumes "lnext s' = lnext s" "lprev s' = lprev s"
  shows "linked s' = linked s" "follow n (head_next s') s' = follow n (head_next s) s"
proof -
  have "seg s' p xs q = seg s p xs q" for p xs q
    using assms by (induction xs arbitrary: p) (simp_all only: seg.simps)
  then show "linked s' = linked s"
    by (simp add: linked_def fun_eq_iff)
  have "follow n q s' = follow n q s" for q
    using assms by (induction n arbitrary: q) (simp_all split: bptr.split)
  moreover have "head_next s' = head_next s"
    using fun_cong[OF assms(1), of Head] by (simp add: lnext_def)
  ultimately show "follow n (head_next s') s' = follow n (head_next s) s"
    by simp
qed

lemma links_keep:
  "lnext (held lk s) = lnext s" "lprev (held lk s) = lprev s" "lnext (settle s) = lnext s" "lprev (settle s) = lprev s"
  "lnext (woken ch ps s) = lnext s" "lprev (woken ch ps s) = lprev s"
  "lnext (s\<lparr>sleeplocks := y\<rparr>) = lnext s" "lprev (s\<lparr>sleeplocks := y\<rparr>) = lprev s"
  by (simp_all add: lnext_def lprev_def fun_eq_iff split: bptr.split)

lemma links_set_buf:
  "(\<And>x. b_next (f x) = b_next x) \<Longrightarrow> lnext (set_buf b f s) = lnext s"
  "(\<And>x. b_prev (f x) = b_prev x) \<Longrightarrow> lprev (set_buf b f s) = lprev s"
  by (simp_all add: lnext_def lprev_def set_buf_def fun_eq_iff split: bptr.split)

lemma linked_keep [simp]:
  "linked (held lk s) = linked s" "linked (settle s) = linked s" "linked (woken ch ps s) = linked s"
  "linked (s\<lparr>sleeplocks := y\<rparr>) = linked s"
  by (rule links_cong; simp add: links_keep)+

lemma sleeplocks_woken [simp]: "sleeplocks (woken ch ps s) = sleeplocks s"
  by (simp add: woken_def)

lemma cache_abs_keep [simp]:
  "cache_abs (held lk s) = cache_abs s" "cache_abs (settle s) = cache_abs s" "cache_abs (woken ch ps s) = cache_abs s"
  using links_cong(2)[OF links_keep(1,2)[of lk s]] links_cong(2)[OF links_keep(3,4)[of s]]
    links_cong(2)[OF links_keep(5,6)[of ch ps s]]
  by (simp_all add: cache_abs_def cong: if_cong)

lemma cache_abs_sleeplocks [simp]:
  "cache_abs (s\<lparr>sleeplocks := (sleeplocks s)(BufSleep b := x)\<rparr>) =
   (cache_abs s)\<lparr>owner := (owner (cache_abs s))(b := if sl_locked x = 0 then None else Some (sl_pid x))\<rparr>"
  using links_cong(2)[OF links_keep(7,8)[where s = s]]
  by (auto simp add: cache_abs_def fun_eq_iff)

lemma set_buf_keep:
  assumes "\<And>x. b_next (f x) = b_next x" "\<And>x. b_prev (f x) = b_prev x"
  shows "linked (set_buf b f s) = linked s"
    "cache_abs (set_buf b f s) = (cache_abs s)
       \<lparr>tag := (tag (cache_abs s))(b := (b_dev (f (bufs s b)), b_blockno (f (bufs s b)))),
        uses := (uses (cache_abs s))(b := b_refcnt (f (bufs s b)))\<rparr>"
  using links_cong[OF links_set_buf(1)[of f b s, OF assms(1)] links_set_buf(2)[of f b s, OF assms(2)]]
  by (auto simp add: cache_abs_def fun_eq_iff set_buf_def)

lemma quiet_keep [simp]:
  "cache_quiet p (settle s) = cache_quiet p s" "cache_quiet p (woken ch ps s) = cache_quiet p s"
  "cache_quiet p (s\<lparr>sleeplocks := y\<rparr>) = cache_quiet p s" "cache_quiet p (set_buf b f s) = cache_quiet p s"
  "cache_quiet p (set_next u v s) = cache_quiet p s" "cache_quiet p (set_prev u v s) = cache_quiet p s"
  by (simp_all add: cache_quiet_def cpu_ok_def lock_free_def procs_free_def myproc_def mycpu_def set_buf_def set_next_def
    set_prev_def settle_def split: bptr.split)

text \<open>What an operation of the process \<open>p\<close> on the cache leaves: the state \<open>L\<close> of the specification, and all else as it was.\<close>

definition cache_next :: "nat \<Rightarrow> 'a bst_scheme \<Rightarrow> 'a bst_scheme \<Rightarrow> lru \<Rightarrow> bool" where
  "cache_next p s s' L \<longleftrightarrow> cache_ok s' \<and> cache_quiet p s' \<and> cache_abs s' = L \<and> p_pid (procs s' p) = p_pid (procs s p) \<and>
     mem s' = mem s \<and> platter s' = platter s \<and> (\<forall>b. b_data (bufs s' b) = b_data (bufs s b))"

lemma acquiresleep_lru:
  assumes "cache_quiet p s" "b < NBUF"
  shows "case lru_lock (p_pid (procs s p)) b (cache_abs s) of
      None \<Rightarrow> \<exists>f. acquiresleep env (BufSleep b) s = Inl f
    | Some (b', L) \<Rightarrow> \<exists>s'. acquiresleep env (BufSleep b) s = Inr s' \<and> b' = b \<and> cache_abs s' = L \<and> linked s' = linked s \<and>
        cache_quiet p s' \<and> procs s' = procs s \<and> mem s' = mem s \<and> platter s' = platter s \<and> bufs s' = bufs s"
proof (cases "sl_locked (sleeplocks s (BufSleep b)) = 0")
  case True
  then show ?thesis
    using assms acquiresleep_free[of s "BufSleep b" p env]
    by (auto simp: cache_quiet_def lru_lock_def cache_abs_def[of s, THEN arg_cong[where f = owner]])
next
  case False
  then show ?thesis
    using acquiresleep_taken[of s "BufSleep b" env] by (simp add: lru_lock_def cache_abs_def)
qed

lemma set_buf_frame [simp]:
  "procs (set_buf b f s) = procs s" "mem (set_buf b f s) = mem s" "platter (set_buf b f s) = platter s"
  "sleeplocks (set_buf b f s) = sleeplocks s" "bufs (set_buf b f s) = (bufs s)(b := f (bufs s b))"
  by (simp_all add: set_buf_def)

text \<open>A change of a buffer that leaves its links alone, under the cache's lock.\<close>

lemma locked_set_buf:
  assumes "cache_quiet p s"
  shows "release BcacheLock (set_buf b f (held BcacheLock s)) = Inr (settle (set_buf b f s))"
proof -
  have "cache_quiet p (set_buf b f s)"
    using assms by simp
  then show ?thesis
    by (simp add: lock_simps release_held cache_quiet_def)
qed

lemma bget_claim:
  assumes ok: "cache_ok s" "cache_quiet p s" "b < NBUF"
    and f: "\<And>x. b_next (f x) = b_next x" "\<And>x. b_prev (f x) = b_prev x" "\<And>x. b_data (f x) = b_data x"
  shows "case lru_lock (p_pid (procs s p)) b (cache_abs (set_buf b f s)) of
      None \<Rightarrow> \<exists>e. bnd (release BcacheLock (set_buf b f (held BcacheLock s))) (\<lambda>s.
        bnd (acquiresleep env (BufSleep b) s) (\<lambda>s. Inr (b, s))) = Inl e
    | Some (b', L) \<Rightarrow> \<exists>s'. bnd (release BcacheLock (set_buf b f (held BcacheLock s))) (\<lambda>s.
        bnd (acquiresleep env (BufSleep b) s) (\<lambda>s. Inr (b, s))) = Inr (b', s') \<and> cache_next p s s' L"
proof -
  let ?s = "settle (set_buf b f s)"
  have "linked ?s = linked s" "order (cache_abs ?s) = order (cache_abs s)"
    using set_buf_keep[of f b s] f by simp_all
  moreover have "order (snd x) = order L" if "lru_lock q b L = Some x" for x q L
    using that by (auto simp: lru_lock_def split: if_splits)
  ultimately show ?thesis
    using acquiresleep_lru[of p ?s b env] ok f(3)
    by (auto simp: locked_set_buf[OF ok(2)] cache_next_def cache_ok_def split: option.splits)
qed

lemma cache_abs_count:
  "cache_abs (set_buf b (\<lambda>x. x\<lparr>b_refcnt := b_refcnt x + 1\<rparr>) s) = lru_pin 1 b (cache_abs s)"
  "cache_abs (set_buf b (\<lambda>x. x\<lparr>b_refcnt := b_refcnt x - 1\<rparr>) s) = lru_pin (-1) b (cache_abs s)"
  "cache_abs (set_buf b (\<lambda>x. x\<lparr>b_dev := dev, b_blockno := blockno, b_valid := 0, b_refcnt := 1\<rparr>) s) =
     (cache_abs s)\<lparr>tag := (tag (cache_abs s))(b := (dev, blockno)), uses := (uses (cache_abs s))(b := 1)\<rparr>"
  by (simp_all add: set_buf_keep lru_pin_def) (simp_all add: cache_abs_def fun_upd_idem)

lemma find_mem: "find P xs = Some b \<Longrightarrow> b \<in> set xs"
  by (induction xs) (auto split: if_splits)

lemma find_in_order:
  assumes "cache_ok s" "find P (order (cache_abs s)) = Some b \<or> find P (rev (order (cache_abs s))) = Some b"
  shows "b < NBUF"
  using assms find_mem[of P _ b] by (fastforce simp: cache_ok_def)

lemma bget_lru:
  assumes "cache_ok s" "cache_quiet p s"
  shows "case lru_get (p_pid (procs s p)) (dev, blockno) (cache_abs s) of
      None \<Rightarrow> \<exists>e. bget env dev blockno s = Inl e
    | Some (b, L) \<Rightarrow> \<exists>s'. bget env dev blockno s = Inr (b, s') \<and> cache_next p s s' L"
proof -
  let ?s = "held BcacheLock s" and ?L = "cache_abs s"
  have acq: "acquire BcacheLock s = Inr ?s"
    using assms(2) by (simp add: cache_quiet_def acquire_held)
  have "linked ?s (order ?L)"
    using assms(1) by (simp add: cache_ok_def)
  note seg = this[unfolded linked_def, THEN conjunct2]
  have cached: "bget_cached dev blockno (head_next ?s) ?s = Some (find (\<lambda>b. tag ?L b = (dev, blockno)) (order ?L))"
    using bget_cached_find[OF seg, of dev blockno] by (simp add: lnext_def cache_abs_def)
  have unused: "bget_unused (head_prev ?s) ?s = Some (find (\<lambda>b. uses ?L b = 0) (rev (order ?L)))"
    using bget_unused_find[OF seg] by (simp add: lprev_def cache_abs_def)
  note claim = bget_claim[OF assms, of _ "\<lambda>x. x\<lparr>b_refcnt := b_refcnt x + 1\<rparr>" env]
    bget_claim[OF assms, of _ "\<lambda>x. x\<lparr>b_dev := dev, b_blockno := blockno, b_valid := 0, b_refcnt := 1\<rparr>" env]
  show ?thesis
  proof (cases "find (\<lambda>b. tag ?L b = (dev, blockno)) (order ?L)")
    case (Some b)
    then have "bget env dev blockno s = bnd (release BcacheLock (set_buf b (\<lambda>x. x\<lparr>b_refcnt := b_refcnt x + 1\<rparr>) ?s)) (\<lambda>s.
        bnd (acquiresleep env (BufSleep b) s) (\<lambda>s. Inr (b, s)))"
      using cached by (simp add: bget_def acq)
    moreover have "b < NBUF"
      using find_in_order[OF assms(1)] Some by blast
    ultimately show ?thesis
      using claim(1)[of b] Some by (simp add: lru_get_def cache_abs_count lru_pin_def cong: option.case_cong)
  next
    case None
    show ?thesis
    proof (cases "find (\<lambda>b. uses ?L b = 0) (rev (order ?L))")
      case (Some b)
      then have "bget env dev blockno s = bnd (release BcacheLock (set_buf b
          (\<lambda>x. x\<lparr>b_dev := dev, b_blockno := blockno, b_valid := 0, b_refcnt := 1\<rparr>) ?s)) (\<lambda>s.
          bnd (acquiresleep env (BufSleep b) s) (\<lambda>s. Inr (b, s)))"
        using cached unused None by (simp add: bget_def acq)
      moreover have "b < NBUF"
        using find_in_order[OF assms(1)] Some by blast
      ultimately show ?thesis
        using claim(2)[of b] Some None by (simp add: lru_get_def cache_abs_count cong: option.case_cong)
    next
      case no_buffers: None
      then have "bget env dev blockno s = Inl (Panic ''bget: no buffers'')"
        using cached unused None by (simp add: bget_def acq)
      with None no_buffers show ?thesis
        by (simp add: lru_get_def)
    qed
  qed
qed

lemma bpin_lru:
  assumes "cache_ok s" "cache_quiet p s" "b < NBUF"
  shows "\<exists>s'. bpin b s = Inr s' \<and> cache_next p s s' (lru_pin 1 b (cache_abs s))"
    "\<exists>s'. bunpin b s = Inr s' \<and> cache_next p s s' (lru_pin (-1) b (cache_abs s))"
proof -
  have acq: "acquire BcacheLock s = Inr (held BcacheLock s)"
    using assms(2) by (simp add: cache_quiet_def acquire_held)
  show "\<exists>s'. bpin b s = Inr s' \<and> cache_next p s s' (lru_pin 1 b (cache_abs s))"
    "\<exists>s'. bunpin b s = Inr s' \<and> cache_next p s s' (lru_pin (-1) b (cache_abs s))"
    using assms locked_set_buf[OF assms(2), of b]
    by (simp_all add: bpin_def bunpin_def acq cache_next_def cache_ok_def cache_abs_count set_buf_keep(1)) (simp_all add: lru_pin_def)
qed

text \<open>Changing links changes nothing else, and goes on under a lock as without it.\<close>

lemma set_link_frame [simp]:
  "(tag (cache_abs (set_next u v s))) = tag (cache_abs s)" "(tag (cache_abs (set_prev u v s))) = tag (cache_abs s)"
  "(uses (cache_abs (set_next u v s))) = uses (cache_abs s)" "(uses (cache_abs (set_prev u v s))) = uses (cache_abs s)"
  "(owner (cache_abs (set_next u v s))) = owner (cache_abs s)" "(owner (cache_abs (set_prev u v s))) = owner (cache_abs s)"
  "procs (set_next u v s) = procs s" "procs (set_prev u v s) = procs s" "mem (set_next u v s) = mem s" "mem (set_prev u v s) = mem s"
  "platter (set_next u v s) = platter s" "platter (set_prev u v s) = platter s"
  "b_data (bufs (set_next u v s) b) = b_data (bufs s b)" "b_data (bufs (set_prev u v s) b) = b_data (bufs s b)"
  by (auto simp: set_next_def set_prev_def cache_abs_def fun_eq_iff set_buf_def split: bptr.split)

lemma relink_held [lock_simps]:
  "unlink b (held lk s) = held lk (unlink b s)" "link_front b (held lk s) = held lk (link_front b s)"
  by (simp_all add: unlink_def link_front_def Let_def lock_simps links_keep)

lemma relink_frame [simp]:
  "cache_quiet p (link_front b (unlink b s)) = cache_quiet p s"
  "tag (cache_abs (link_front b (unlink b s))) = tag (cache_abs s)"
  "uses (cache_abs (link_front b (unlink b s))) = uses (cache_abs s)"
  "owner (cache_abs (link_front b (unlink b s))) = owner (cache_abs s)"
  "procs (link_front b (unlink b s)) = procs s" "mem (link_front b (unlink b s)) = mem s"
  "platter (link_front b (unlink b s)) = platter s" "b_data (bufs (link_front b (unlink b s)) c) = b_data (bufs s c)"
  by (simp_all add: unlink_def link_front_def Let_def)

text \<open>The part of \<^verbatim>\<open>brelse\<close> under the cache's lock.\<close>

lemma brelse_locked:
  assumes "cache_ok s" "cache_quiet p s" "b < NBUF"
  shows "\<exists>s'. bnd (acquire BcacheLock s) (\<lambda>s.
       let s = set_buf b (\<lambda>x. x\<lparr>b_refcnt := b_refcnt x - 1\<rparr>) s;
           s = (if b_refcnt (bufs s b) = 0 then link_front b (unlink b s) else s)
       in release BcacheLock s) = Inr s' \<and>
     cache_next p s s' ((lru_pin (-1) b (cache_abs s))\<lparr>order := (if uses (cache_abs s) b - 1 = 0
       then b # remove1 b (order (cache_abs s)) else order (cache_abs s))\<rparr>)"
proof -
  let ?s2 = "set_buf b (\<lambda>x. x\<lparr>b_refcnt := b_refcnt x - 1\<rparr>) s"
  define s3 where "s3 = (if b_refcnt (bufs ?s2 b) = 0 then link_front b (unlink b ?s2) else ?s2)"
  let ?xs = "if uses (cache_abs s) b - 1 = 0 then b # remove1 b (order (cache_abs s)) else order (cache_abs s)"
  have q: "cache_quiet p s3" and cnt: "uses (cache_abs s) b = b_refcnt (bufs s b)"
    using assms(2) by (simp_all add: s3_def cache_abs_def)
  have "linked ?s2 (order (cache_abs s))" and "b \<in> set (order (cache_abs s))" "distinct (order (cache_abs s))"
    using assms(1,3) by (simp_all add: cache_ok_def set_buf_keep linked_def)
  then have "linked s3 ?xs" "set ?xs = {..<NBUF}"
    using assms(1) move_front_linked[of ?s2 "order (cache_abs s)" b] by (auto simp: s3_def cnt cache_ok_def)
  note order = order_linked[OF this]
  have "release BcacheLock (held BcacheLock s3) = Inr (settle s3)"
    using q by (simp add: release_held cache_quiet_def)
  moreover have "acquire BcacheLock s = Inr (held BcacheLock s)"
    using assms(2) by (simp add: acquire_held cache_quiet_def)
  moreover have "cache_abs s3 = (lru_pin (-1) b (cache_abs s))\<lparr>order := ?xs\<rparr>"
    using order(1) by (intro lru.equality) (simp_all add: s3_def cache_abs_count lru_pin_def)
  moreover have "b_data (bufs s3 c) = b_data (bufs s c)" "procs s3 = procs s" "mem s3 = mem s" "platter s3 = platter s" for c
    by (simp_all add: s3_def)
  moreover have "(let s = set_buf b (\<lambda>x. x\<lparr>b_refcnt := b_refcnt x - 1\<rparr>) (held BcacheLock s)
      in if b_refcnt (bufs s b) = 0 then link_front b (unlink b s) else s) = held BcacheLock s3"
    by (simp add: s3_def lock_simps Let_def)
  ultimately show ?thesis
    using q order(2) by (intro exI[of _ "settle s3"]) (simp add: Let_def cache_next_def cache_ok_def)
qed

lemma brelse_lru:
  assumes "cache_ok s" "cache_quiet p s" "b < NBUF"
  shows "case lru_release (p_pid (procs s p)) b (cache_abs s) of
      None \<Rightarrow> brelse b s = Inl (Panic ''brelse'')
    | Some L \<Rightarrow> \<exists>s'. brelse b s = Inr s' \<and> cache_next p s s' L"
proof (cases "owner (cache_abs s) b = Some (p_pid (procs s p))")
  case False
  then have "holdingsleep (BufSleep b) s = Inr False"
    using assms(2) by (auto simp: holdingsleep_def mypid_def cache_abs_def cache_quiet_def)
  with False show ?thesis
    by (simp add: brelse_def lru_release_def)
next
  case True
  then have held: "sl_locked (sleeplocks s (BufSleep b)) \<noteq> 0" "sl_pid (sleeplocks s (BufSleep b)) = p_pid (procs s p)"
    by (auto simp: cache_abs_def split: if_splits)
  then have "holdingsleep (BufSleep b) s = Inr True"
    using assms(2) by (simp add: holdingsleep_def mypid_def cache_quiet_def)
  moreover define s1 where "s1 = settle (woken (Some (ChanSleep (BufSleep b))) [0..<N_PROC]
    (s\<lparr>sleeplocks := (sleeplocks s)(BufSleep b := (sleeplocks s (BufSleep b))\<lparr>sl_locked := 0, sl_pid := 0\<rparr>)\<rparr>))"
  moreover have "releasesleep (BufSleep b) s = Inr s1"
    using releasesleep_held[OF held] assms unfolding s1_def cache_quiet_def by simp
  moreover have "cache_ok s1" "cache_quiet p s1" and abs: "cache_abs s1 = (cache_abs s)\<lparr>owner := (owner (cache_abs s))(b := None)\<rparr>"
    using assms by (simp_all add: s1_def cache_ok_def)
  note locked = brelse_locked[OF this(1,2) assms(3)]
  moreover have "mem s1 = mem s" "platter s1 = platter s" "bufs s1 = bufs s" "p_pid (procs s1 p) = p_pid (procs s p)"
    by (simp_all add: s1_def woken_def)
  ultimately show ?thesis
    using True by (auto simp: brelse_def lru_release_def abs cache_next_def lru_pin_def)
qed

section \<open>The specification is implemented\<close>

text \<open>
  C?: the buffer cache does what a list of buffers in order of use does, though its order is only in the links.  For a running
  process that finds the locks of the cache free, \<^verbatim>\<open>bget\<close> returns the buffer that already caches the block, or else recycles
  the least recently used buffer without users, and the buffer is then locked by the process; it returns no buffer just when there is none to recycle or
  the buffer is locked already.  \<^verbatim>\<open>brelse\<close> panics for a buffer the process has not locked, and otherwise unlocks it
  and, if it was the last user, moves it to the front; \<^verbatim>\<open>bpin\<close> and \<^verbatim>\<open>bunpin\<close> count a user more or less.  The
  links stay those of a doubly linked list of all buffers, and neither the data in the buffers, nor memory, nor the disk change.
\<close>

theorem bcache_refines:
  assumes "cache_ok s" "cache_quiet p s" "b < NBUF"
  shows "(case lru_get (p_pid (procs s p)) (dev, blockno) (cache_abs s) of
        None \<Rightarrow> \<exists>e. bget env dev blockno s = Inl e
      | Some (b, L) \<Rightarrow> \<exists>s'. bget env dev blockno s = Inr (b, s') \<and> cache_next p s s' L) \<and>
    (case lru_release (p_pid (procs s p)) b (cache_abs s) of
        None \<Rightarrow> brelse b s = Inl (Panic ''brelse'')
      | Some L \<Rightarrow> \<exists>s'. brelse b s = Inr s' \<and> cache_next p s s' L) \<and>
    (\<exists>s'. bpin b s = Inr s' \<and> cache_next p s s' (lru_pin 1 b (cache_abs s))) \<and>
    (\<exists>s'. bunpin b s = Inr s' \<and> cache_next p s s' (lru_pin (-1) b (cache_abs s)))"
  using bget_lru[OF assms(1,2)] brelse_lru[OF assms] bpin_lru[OF assms] by blast

section \<open>One buffer for a block\<close>

lemma initsleeplock_links [simp]:
  "lnext (initsleeplock lk n s) = lnext s" "lprev (initsleeplock lk n s) = lprev s"
  "tag (cache_abs (initsleeplock lk n s)) = tag (cache_abs s)" "uses (cache_abs (initsleeplock lk n s)) = uses (cache_abs s)"
  by (simp_all add: initsleeplock_def initlock_def lnext_def lprev_def fun_eq_iff cache_abs_def split: bptr.split)

lemma set_links_initsleeplock:
  "initsleeplock lk n (set_next u v s) = set_next u v (initsleeplock lk n s)"
  "initsleeplock lk n (set_prev u v s) = set_prev u v (initsleeplock lk n s)"
  by (cases s; cases u; simp add: initsleeplock_def initlock_def set_next_def set_prev_def set_buf_def)+

lemma binit_loop_Cons:
  "binit_loop (b # bs) s = binit_loop bs (link_front b (initsleeplock (BufSleep b) ''buffer'' s))"
  by (simp add: link_front_def Let_def set_links_initsleeplock)

lemma link_front_frame [simp]:
  "tag (cache_abs (link_front b s)) = tag (cache_abs s)" "uses (cache_abs (link_front b s)) = uses (cache_abs s)"
  by (simp_all add: link_front_def Let_def)

lemma binit_loop_linked:
  fixes s :: "'a bst_scheme"
  assumes "linked s xs" "distinct bs" "set bs \<inter> set xs = {}"
  shows "linked (binit_loop bs s) (rev bs @ xs)" "tag (cache_abs (binit_loop bs s)) = tag (cache_abs s)"
    "uses (cache_abs (binit_loop bs s)) = uses (cache_abs s)"
  using assms
proof (induction bs arbitrary: s xs)
  case Nil
  case 1 then show ?case by simp
  case 2 then show ?case by simp
  case 3 then show ?case by simp
next
  case (Cons b bs)
  have front: "linked (link_front b (initsleeplock (BufSleep b) ''buffer'' s)) (b # xs)"
    if "linked s xs" "set (b # bs) \<inter> set xs = {}" for xs and s :: "'a bst_scheme"
    using that link_front_linked[of "initsleeplock (BufSleep b) ''buffer'' s" xs b]
      links_cong(1)[OF initsleeplock_links(1,2), of "BufSleep b" "''buffer''" s] by simp
  case 1 then show ?case
    using Cons.IH(1)[OF front, of s xs] by (auto simp add: binit_loop_Cons simp del: binit_loop.simps)
  case 2 then show ?case
    using Cons.IH(2)[OF front, of s xs] by (auto simp add: binit_loop_Cons simp del: binit_loop.simps)
  case 3 then show ?case
    using Cons.IH(3)[OF front, of s xs] by (auto simp add: binit_loop_Cons simp del: binit_loop.simps)
qed

lemma binit_lru:
  "order (cache_abs (binit s)) = rev [0..<NBUF]" "cache_ok (binit s)"
  "tag (cache_abs (binit s)) = tag (cache_abs s)" "uses (cache_abs (binit s)) = uses (cache_abs s)"
proof -
  define t where "t = set_next Head Head (set_prev Head Head (initlock BcacheLock ''bcache'' s))"
  have "linked t []"
    by (simp add: t_def linked_def)
  note loop = binit_loop_linked[OF this, of "[0..<NBUF]"]
  have run: "binit s = binit_loop [0..<NBUF] t"
    by (simp only: binit_def t_def Let_def)
  have "set (rev [0..<NBUF] @ []) = {..<NBUF}"
    by (auto simp del: upt_rec_numeral)
  from order_linked[OF loop(1) this] show "order (cache_abs (binit s)) = rev [0..<NBUF]" "cache_ok (binit s)"
    unfolding run by (simp_all del: upt_rec_numeral)
  show "tag (cache_abs (binit s)) = tag (cache_abs s)" "uses (cache_abs (binit s)) = uses (cache_abs s)"
    using loop(2,3) unfolding run by (simp_all add: t_def del: upt_rec_numeral) (simp_all add: cache_abs_def initlock_def)
qed

text \<open>
  The life of the cache.  \<^verbatim>\<open>binit\<close> finds all fields of the buffers zero; between two operations the rest of the system does
  what it likes, other processes included, but neither relinks a buffer nor changes which block it caches.
\<close>

inductive cache_runs :: "'a bst_scheme \<Rightarrow> bool" where
  boot: "\<forall>b. b_dev (bufs s b) = 0 \<Longrightarrow> cache_runs (binit s)"
| other: "cache_runs s \<Longrightarrow> \<forall>b. b_dev (bufs s' b) = b_dev (bufs s b) \<and> b_blockno (bufs s' b) = b_blockno (bufs s b) \<Longrightarrow>
    lnext s' = lnext s \<Longrightarrow> lprev s' = lprev s \<Longrightarrow> cache_runs s'"
| get: "cache_runs s \<Longrightarrow> cache_quiet p s \<Longrightarrow> dev \<noteq> 0 \<Longrightarrow> bget env dev blockno s = Inr (b, s') \<Longrightarrow> cache_runs s'"
| release: "cache_runs s \<Longrightarrow> cache_quiet p s \<Longrightarrow> b < NBUF \<Longrightarrow> brelse b s = Inr s' \<Longrightarrow> cache_runs s'"
| pin: "cache_runs s \<Longrightarrow> cache_quiet p s \<Longrightarrow> b < NBUF \<Longrightarrow> bpin b s = Inr s' \<Longrightarrow> cache_runs s'"
| unpin: "cache_runs s \<Longrightarrow> cache_quiet p s \<Longrightarrow> b < NBUF \<Longrightarrow> bunpin b s = Inr s' \<Longrightarrow> cache_runs s'"

definition tags_once :: "lru \<Rightarrow> bool" where
  "tags_once L \<longleftrightarrow> (\<forall>b\<in>set (order L). \<forall>c\<in>set (order L). tag L b = tag L c \<and> fst (tag L b) \<noteq> 0 \<longrightarrow> b = c)"

lemma lru_lock_tag: "lru_lock pid b L = Some (b', L') \<Longrightarrow> b' = b \<and> tag L' = tag L \<and> order L' = order L"
  by (auto simp: lru_lock_def split: if_splits)

lemma lru_get_once:
  assumes "tags_once L" "lru_get pid t L = Some (b, L')"
  shows "tags_once L'"
proof (cases "find (\<lambda>b. tag L b = t) (order L)")
  case (Some c)
  with assms show ?thesis
    by (auto simp: lru_get_def tags_once_def dest!: lru_lock_tag)
next
  case None
  with assms(2) obtain c where "lru_lock pid c (L\<lparr>tag := (tag L)(c := t), uses := (uses L)(c := 1)\<rparr>) = Some (b, L')"
    by (auto simp: lru_get_def split: option.splits)
  from lru_lock_tag[OF this] None assms(1) show ?thesis
    by (auto simp: tags_once_def find_None_iff)
qed

lemma lru_release_once:
  assumes "tags_once L" "lru_release pid b L = Some L'" "b \<in> set (order L)"
  shows "tags_once L'"
proof -
  have "tag L' = tag L" "set (order L') \<subseteq> set (order L)"
    using assms(2,3) set_remove1_subset[of b "order L"] by (auto simp: lru_release_def split: if_splits)
  with assms(1) show ?thesis
    unfolding tags_once_def by (metis subsetD)
qed

lemma cache_runs_ok: "cache_runs s \<Longrightarrow> cache_ok s \<and> tags_once (cache_abs s)"
proof (induction rule: cache_runs.induct)
  case (boot s)
  then show ?case
    using binit_lru[of s] by (simp add: tags_once_def cache_abs_def[of s])
next
  case (other s s')
  note keep = links_cong[OF other.hyps(3,4)]
  have "order (cache_abs s') = order (cache_abs s)" "tag (cache_abs s') = tag (cache_abs s)"
    using keep(2) other.hyps(2) by (simp_all add: cache_abs_def)
  then show ?case
    using other.IH keep(1) unfolding cache_ok_def tags_once_def by metis
next
  case (get s p dev env blockno b s')
  then show ?case
    using bget_lru[of s p env dev blockno] lru_get_once
    by (auto simp: cache_next_def split: option.splits)
next
  case (release s p b s')
  then have "b \<in> set (order (cache_abs s))"
    by (simp add: cache_ok_def)
  with release show ?case
    using brelse_lru[of s p b] lru_release_once[of "cache_abs s" _ b]
    by (auto simp: cache_next_def split: option.splits)
next
  case (pin s p b s')
  then show ?case
    using bpin_lru(1)[of s p b] by (auto simp: cache_next_def tags_once_def lru_pin_def)
next
  case (unpin s p b s')
  then show ?case
    using bpin_lru(2)[of s p b] by (auto simp: cache_next_def tags_once_def lru_pin_def)
qed

text \<open>
  C?: a disk block is never in two buffers.  From \<^verbatim>\<open>binit\<close> on, whatever operations on the cache succeed, in any order and by
  any processes, no two of its buffers cache the same block of a device (device 0 stands for none), and the links through the buffers are
  always a cycle that visits every buffer once.
\<close>

theorem bcache_once:
  assumes "cache_runs s"
  shows "(\<exists>xs. linked s xs \<and> set xs = {..<NBUF}) \<and>
    (\<forall>b<NBUF. \<forall>c<NBUF. b_dev (bufs s b) = b_dev (bufs s c) \<and> b_blockno (bufs s b) = b_blockno (bufs s c) \<and> b_dev (bufs s b) \<noteq> 0
       \<longrightarrow> b = c)"
proof -
  have "cache_ok s" "tags_once (cache_abs s)"
    using cache_runs_ok[OF assms] by simp_all
  then show ?thesis
    by (auto simp: cache_ok_def tags_once_def cache_abs_def[of s, THEN arg_cong[where f = tag]])
qed

text \<open>The cache after reset, and after one block was asked for.\<close>

definition booted :: trst where
  "booted = binit reset"

lemma cache_quiet_initsleeplock: "cache_quiet p s \<Longrightarrow> cache_quiet p (initsleeplock (BufSleep b) n s)"
  by (auto simp: cache_quiet_def initsleeplock_def initlock_def cpu_ok_def procs_free_def lock_free_def myproc_def mycpu_def)

lemma cache_quiet_binit_loop: "cache_quiet p s \<Longrightarrow> cache_quiet p (binit_loop bs s)"
  by (induction bs arbitrary: s) (simp_all add: cache_quiet_initsleeplock)

lemma procs_binit_loop: "procs (binit_loop bs s) = procs s"
  by (induction bs arbitrary: s) (simp_all add: initsleeplock_def initlock_def Let_def)

lemma set_links_sleeplocks [simp]: "sleeplocks (set_next u v s) = sleeplocks s" "sleeplocks (set_prev u v s) = sleeplocks s"
  by (simp_all add: set_next_def set_prev_def split: bptr.split)

lemma sleeplocks_binit_loop:
  "\<forall>lk. sl_locked (sleeplocks s lk) = 0 \<Longrightarrow> sl_locked (sleeplocks (binit_loop bs s) lk) = 0"
  by (induction bs arbitrary: s) (simp_all add: initsleeplock_def initlock_def Let_def)

lemma booted_ok: "cache_ok booted" "cache_quiet 0 booted" "cache_runs booted" "procs booted = procs reset" "owner (cache_abs booted) b = None"
  "lru_get pid (1, 5) (cache_abs booted) = lru_lock pid 0 ((cache_abs booted)
     \<lparr>tag := (tag (cache_abs booted))(0 := (1, 5)), uses := (uses (cache_abs booted))(0 := 1)\<rparr>)"
proof -
  show "cache_ok booted"
    unfolding booted_def by (rule binit_lru)
  have "cache_quiet 0 (initlock BcacheLock ''bcache'' reset)"
    by (simp add: cache_quiet_def initlock_def cpu_ok_def procs_free_def lock_free_def myproc_def mycpu_def reset_def)
  then show "cache_quiet 0 booted"
    unfolding booted_def binit_def Let_def by (intro cache_quiet_binit_loop) simp
  show "cache_runs booted"
    unfolding booted_def by (rule cache_runs.boot) (simp add: reset_def)
  show "procs booted = procs reset"
    by (simp add: booted_def binit_def Let_def procs_binit_loop initlock_def del: upt_rec_numeral)
  have "sl_locked (sleeplocks booted (BufSleep b)) = 0"
    unfolding booted_def binit_def Let_def by (rule sleeplocks_binit_loop) (simp add: initlock_def reset_def)
  then show "owner (cache_abs booted) b = None"
    by (simp add: cache_abs_def)
  have "find (\<lambda>b. tag (cache_abs booted) b = (1, 5)) xs = None" for xs
    unfolding booted_def binit_lru by (simp add: find_None_iff cache_abs_def reset_def)
  moreover have "[0..<NBUF] = 0 # [1..<NBUF]"
    using upt_conv_Cons[of 0 NBUF] by (simp del: upt_rec_numeral)
  then have "find (\<lambda>b. uses (cache_abs booted) b = 0) (rev (order (cache_abs booted))) = Some 0"
    unfolding booted_def binit_lru by (simp add: cache_abs_def reset_def del: upt_rec_numeral)
  ultimately show "lru_get pid (1, 5) (cache_abs booted) = lru_lock pid 0 ((cache_abs booted)
     \<lparr>tag := (tag (cache_abs booted))(0 := (1, 5)), uses := (uses (cache_abs booted))(0 := 1)\<rparr>)"
    by (simp add: lru_get_def)
qed

lemma booted_get:
  "lru_get pid (1, 5) (cache_abs booted) = Some (0, (cache_abs booted)\<lparr>tag := (tag (cache_abs booted))(0 := (1, 5)),
     uses := (uses (cache_abs booted))(0 := 1), owner := (owner (cache_abs booted))(0 := Some pid)\<rparr>)"
  using booted_ok(5)[of 0] by (simp add: booted_ok(6) lru_lock_def)

theorem bcache_refines_witness:
  "\<exists>s'. bget (\<lambda>_. None) 1 5 booted = Inr (0, s') \<and> cache_ok s' \<and> tag (cache_abs s') 0 = (1, 5) \<and> uses (cache_abs s') 0 = 1 \<and>
     owner (cache_abs s') 0 = Some 0"
proof -
  have "(0::nat) < NBUF"
    by simp
  from bcache_refines[OF booted_ok(1,2) this, of "\<lambda>_. None" 1 5] show ?thesis
    by (auto simp: booted_ok(4) booted_get cache_next_def reset_def)
qed

theorem bcache_once_witness:
  "\<exists>s. bget (\<lambda>_. None) 1 5 booted = Inr (0, s) \<and> cache_runs s \<and> b_dev (bufs s 0) = 1 \<and>
     (\<forall>b<NBUF. b_dev (bufs s b) = 1 \<and> b_blockno (bufs s b) = 5 \<longrightarrow> b = 0)"
proof -
  obtain s where s: "bget (\<lambda>_. None) 1 5 booted = Inr (0, s)" "tag (cache_abs s) 0 = (1, 5)"
    using bget_lru[OF booted_ok(1,2), of "\<lambda>_. None" 1 5] by (auto simp: booted_get cache_next_def)
  have runs: "cache_runs s"
    using cache_runs.get[OF booted_ok(3,2) _ s(1)] by simp
  have "b_dev (bufs s 0) = 1" "b_blockno (bufs s 0) = 5"
    using s(2) by (simp_all add: cache_abs_def)
  with bcache_once[OF runs] s(1) runs show ?thesis
    by auto
qed

end
