(* ===== verification/Xv6_Names.thy ===== *)
theory Xv6_Names
  imports Xv6_Reset
begin

text \<open>
  File names: which elements \<^verbatim>\<open>skipelem\<close> finds in a path, and when \<^verbatim>\<open>dirlookup\<close> finds a name that \<^verbatim>\<open>dirlink\<close> has
  entered.
\<close>

section \<open>Elements of a path\<close>

text \<open>The string in a name buffer: a full buffer has no NUL.\<close>

definition name_of :: "uint8 list \<Rightarrow> uint8 list" where
  "name_of buf = takeWhile (\<lambda>c. c \<noteq> 0) (take DIRSIZ buf)"

text \<open>The names that the loop of \<^verbatim>\<open>namex\<close> gets from \<^verbatim>\<open>skipelem\<close>, with a bound on its rounds.\<close>

primrec path_names :: "nat \<Rightarrow> uint8 list \<Rightarrow> uint8 list \<Rightarrow> uint8 list list option" where
  "path_names 0 path name = None"
| "path_names (Suc k) path name =
     (case skipelem path name of
        (None, name) \<Rightarrow> Some []
      | (Some path, name) \<Rightarrow> map_option (Cons (name_of name)) (path_names k path name))"

text \<open>A path with the given elements, each followed by a number of slashes.\<close>

primrec spell :: "(uint8 list \<times> nat) list \<Rightarrow> uint8 list" where
  "spell [] = []"
| "spell (ek # es) = fst ek @ replicate (snd ek) SLASH @ spell es"

definition element_ok :: "uint8 list \<Rightarrow> bool" where
  "element_ok e \<longleftrightarrow> e \<noteq> [] \<and> SLASH \<notin> set e \<and> 0 \<notin> set e"

definition spelled :: "(uint8 list \<times> nat) list \<Rightarrow> bool" where
  "spelled es \<longleftrightarrow> (\<forall>(e, k) \<in> set es. element_ok e) \<and> (\<forall>(e, k) \<in> set (butlast es). k > 0)"

lemma spelled_Cons: "spelled (ek # es) \<longleftrightarrow> element_ok (fst ek) \<and> (es = [] \<or> snd ek > 0) \<and> spelled es"
  by (cases es) (auto simp: spelled_def split: prod.splits)

lemma dropWhile_slashes: "dropWhile (\<lambda>c. c = SLASH) (replicate k SLASH @ xs) = dropWhile (\<lambda>c. c = SLASH) xs"
  by (induction k) simp_all

lemma spell_no_slash: "spelled es \<Longrightarrow> dropWhile (\<lambda>c. c = SLASH) (spell es) = spell es"
  by (cases es) (auto simp: spelled_Cons element_ok_def neq_Nil_conv)

lemma spell_element:
  assumes "element_ok e" "es = [] \<or> k > 0"
  shows "takeWhile (\<lambda>c. c \<noteq> SLASH) (e @ replicate k SLASH @ spell es) = e"
proof -
  have "takeWhile (\<lambda>c. c \<noteq> SLASH) (replicate k SLASH @ spell es) = []"
    using assms(2) by (cases k) auto
  moreover have "\<forall>c\<in>set e. c \<noteq> SLASH"
    using assms(1) by (auto simp: element_ok_def)
  ultimately show ?thesis
    by (simp add: takeWhile_append2)
qed

lemma name_of_element:
  assumes "element_ok e" "length name = DIRSIZ"
  shows "name_of (if length e \<ge> DIRSIZ then splice 0 (take DIRSIZ e) name else splice 0 (e @ [0]) name) = take DIRSIZ e"
    "length (if length e \<ge> DIRSIZ then splice 0 (take DIRSIZ e) name else splice 0 (e @ [0]) name) = DIRSIZ"
proof -
  have nz: "\<forall>c\<in>set e. c \<noteq> 0"
    using assms(1) by (auto simp: element_ok_def)
  then have all: "takeWhile (\<lambda>c. c \<noteq> 0) (take n e) = take n e" for n
    by (auto intro!: takeWhile_eq_all_conv[THEN iffD2] dest: in_set_takeD)
  have "takeWhile (\<lambda>c. c \<noteq> 0) (e @ 0 # ys) = e" for ys
    using nz by (simp add: takeWhile_append2)
  with all assms(2)
  show "name_of (if length e \<ge> DIRSIZ then splice 0 (take DIRSIZ e) name else splice 0 (e @ [0]) name) = take DIRSIZ e"
    "length (if length e \<ge> DIRSIZ then splice 0 (take DIRSIZ e) name else splice 0 (e @ [0]) name) = DIRSIZ"
    by (simp_all add: name_of_def splice_def)
qed

lemma skipelem_spell:
  assumes "spelled ((e, k) # es)" "length name = DIRSIZ"
  shows "\<exists>name'. skipelem (replicate j SLASH @ spell ((e, k) # es)) name = (Some (spell es), name') \<and>
    name_of name' = take DIRSIZ e \<and> length name' = DIRSIZ"
proof -
  have e: "element_ok e" "es = [] \<or> k > 0" "spelled es" "e \<noteq> []"
    using assms(1) by (auto simp: spelled_Cons element_ok_def)
  have "dropWhile (\<lambda>c. c = SLASH) (replicate j SLASH @ spell ((e, k) # es)) = spell ((e, k) # es)"
    using spell_no_slash[OF assms(1)] by (simp add: dropWhile_slashes)
  with e name_of_element[OF e(1) assms(2)] spell_element[OF e(1,2)] spell_no_slash[OF e(3)] show ?thesis
    by (simp add: skipelem_def Let_def dropWhile_slashes)
qed

lemma path_names_spell:
  assumes "spelled es" "length name = DIRSIZ" "length es < n"
  shows "path_names n (replicate j SLASH @ spell es) name = Some (map (take DIRSIZ \<circ> fst) es)"
  using assms
proof (induction es arbitrary: n j name)
  case Nil
  then show ?case
    using dropWhile_slashes[of j "[]"] by (cases n) (simp_all add: skipelem_def)
next
  case (Cons ek es)
  obtain e k where ek: "ek = (e, k)" by (cases ek)
  obtain m where m: "n = Suc m" using Cons.prems(3) by (cases n) auto
  obtain name' where "skipelem (replicate j SLASH @ spell (ek # es)) name = (Some (spell es), name')"
    "name_of name' = take DIRSIZ e" "length name' = DIRSIZ"
    using skipelem_spell[of e k es name j] Cons.prems ek by auto
  then show ?case
    using Cons.IH[of name' m 0] Cons.prems ek m by (simp add: spelled_Cons del: spell.simps)
qed

lemma spell_long: "spelled es \<Longrightarrow> length es \<le> length (spell es)"
  by (induction es) (auto simp: spelled_Cons element_ok_def Suc_le_eq neq_Nil_conv)

text \<open>
  C?: \<^verbatim>\<open>skipelem\<close> takes a path apart.  Whatever the number of slashes in front of a path, between its elements and after the last
  one, the loop of \<^verbatim>\<open>namex\<close> gets exactly the elements, in order, cut to \<^verbatim>\<open>DIRSIZ\<close> bytes; and as many rounds as \<open>namex\<close> of the
  model has are enough for it.
\<close>

theorem path_elements:
  assumes "spelled es" "length name = DIRSIZ" "path = replicate j SLASH @ spell es"
  shows "path_names (Suc (length path)) path name = Some (map (\<lambda>(e, k). take DIRSIZ e) es)"
  using path_names_spell[OF assms(1,2), of "Suc (length path)" j] spell_long[OF assms(1)] assms(3)
  by (simp add: comp_def case_prod_beta)

text \<open>The path \<^verbatim>\<open>//usr/bin///ls/\<close>.\<close>

theorem path_elements_witness:
  "let path = bytes_of ''//usr/bin///ls/'' in path_names (Suc (length path)) path (replicate DIRSIZ 0) =
     Some [bytes_of ''usr'', bytes_of ''bin'', bytes_of ''ls'']"
proof -
  have "spelled [(bytes_of ''usr'', 1), (bytes_of ''bin'', 3), (bytes_of ''ls'', 1)]"
    by (simp add: spelled_def element_ok_def bytes_of_def)
  moreover have "bytes_of ''//usr/bin///ls/'' =
      replicate 2 SLASH @ spell [(bytes_of ''usr'', 1), (bytes_of ''bin'', 3), (bytes_of ''ls'', 1)]"
    by (simp add: bytes_of_def numeral_2_eq_2 numeral_3_eq_3)
  moreover have "length (bytes_of w) = length w" for w
    by (simp add: bytes_of_def)
  ultimately show ?thesis
    using path_elements[of "[(bytes_of ''usr'', 1), (bytes_of ''bin'', 3), (bytes_of ''ls'', 1)]"
      "replicate DIRSIZ 0" "bytes_of ''//usr/bin///ls/''" 2]
    by (simp add: Let_def del: path_names.simps)
qed

section \<open>Entries\<close>

lemma byte_at_simps [simp]: "byte_at 0 (x # xs) = x" "byte_at 0 [] = 0"
  by (simp_all add: byte_at_def)

lemma strncmp_bytes_prefix:
  assumes "0 \<notin> set bs"
  shows "strncmp_bytes (length bs + n) (bs @ xs) (bs @ ys) = strncmp_bytes n xs ys"
  using assms by (induction bs) simp_all

lemma strncmp_bytes_same:
  assumes "0 \<notin> set bs" "length bs < n"
  shows "strncmp_bytes n bs (bs @ 0 # ys) = 0"
proof -
  obtain m where "n = length bs + Suc m"
    using assms(2) less_iff_Suc_add by auto
  then show ?thesis
    using strncmp_bytes_prefix[OF assms(1), of "Suc m" "[]" "0 # ys"] by simp
qed

text \<open>
  C?: \<^verbatim>\<open>dirlookup\<close> finds a name that \<^verbatim>\<open>dirlink\<close> entered just if the name is shorter than \<^verbatim>\<open>DIRSIZ\<close>.  The entry made for a
  name of \<^verbatim>\<open>DIRSIZ\<close> bytes, which \<^verbatim>\<open>skipelem\<close> and the on-disk format allow, holds only the first \<^verbatim>\<open>DIRSIZ - 1\<close> of them and a NUL, so the comparison of
  \<^verbatim>\<open>dirlookup\<close> never succeeds for it.
\<close>

theorem dirlink_finds:
  assumes "length de = 16" "0 \<notin> set name" "length name \<le> DIRSIZ"
  shows "namecmp name (de_name (dirlink_entry de name inum)) = 0 \<longleftrightarrow> length name < DIRSIZ"
proof (cases "length name < DIRSIZ")
  case True
  have all: "take 13 name = name" "takeWhile (\<lambda>c. c \<noteq> 0) name = name"
    using True assms(2) by (auto simp: takeWhile_eq_all_conv)
  have "\<exists>ys. de_name (dirlink_entry de name inum) = name @ 0 # ys"
    using True assms(1) by (auto simp: all de_name_def dirlink_entry_def safestrcpy_bytes_def splice_def Let_def take_Cons')
  then show ?thesis
    using True strncmp_bytes_same[OF assms(2) True] by (auto simp: namecmp_def)
next
  case False
  define c where "c = last name"
  have "name \<noteq> []" and len: "length (butlast name) = 13"
    using False assms(3) by auto
  then have name: "name = butlast name @ [c]" and "c \<in> set name"
    by (simp_all add: c_def)
  then have "c \<noteq> 0"
    using assms(2) by metis
  have "0 \<notin> set (butlast name)"
    using assms(2) by (metis in_set_butlastD)
  moreover have "takeWhile (\<lambda>c. c \<noteq> 0) (take 13 name) = butlast name"
    using calculation len by (subst name) (auto intro!: takeWhile_eq_all_conv[THEN iffD2])
  then have "de_name (dirlink_entry de name inum) = butlast name @ [0]"
    using len assms(1) by (simp add: de_name_def dirlink_entry_def safestrcpy_bytes_def splice_def Let_def)
  moreover have "strncmp_bytes 1 [c] [0] = uint c"
    using \<open>c \<noteq> 0\<close> by simp
  ultimately have "namecmp name (de_name (dirlink_entry de name inum)) = uint c"
    using strncmp_bytes_prefix[of "butlast name" 1 "[c]" "[0]"] unfolding namecmp_def len name[symmetric] by simp
  then show ?thesis
    using False \<open>c \<noteq> 0\<close> by (simp add: uint_0_iff)
qed

text \<open>A name of 14 bytes.\<close>

theorem dirlink_finds_witness:
  "namecmp (bytes_of ''fourteen_bytes'') (de_name (dirlink_entry (replicate 16 0) (bytes_of ''fourteen_bytes'') 7)) \<noteq> 0 \<and>
   namecmp (bytes_of ''thirteen_byte'') (de_name (dirlink_entry (replicate 16 0) (bytes_of ''thirteen_byte'') 7)) = 0"
  using dirlink_finds[of "replicate 16 0" "bytes_of ''fourteen_bytes''" 7] dirlink_finds[of "replicate 16 0" "bytes_of ''thirteen_byte''" 7]
  by (simp add: bytes_of_def)

end
