(* ===== verification/Spec2Isabelle.thy ===== *)
theory Spec2Isabelle
  imports Xv6_Vm_Props Xv6_Trap Xv6_Sched Xv6_Printf Xv6_Pipe Xv6_Grep Xv6_Wc Xv6_Sh_Run Xv6_Linedisc Xv6_Mkfs_Props Xv6_Lru Xv6_Names
begin

text \<open>
  A verification development of the my-xv6 kernel.
\<close>

end
